(* ===== verification/Prelude.thy ===== *)
theory Prelude
  imports Complex_Main
begin

section \<open>Prelude: shared vocabulary of the dashboard development\<close>

text \<open>
  Everything the component theories share and that is not about one component: the generic
  lemmas on lists, the named collections of facts, and the locales that state what a
  component with state is (a relation or a function from events to new states, with an
  invariant every event keeps).  A component theory interprets one of these locales on its
  own definitions and gets the facts about runs from it.
\<close>

named_theorems js_simps "unfolding rules of the small JavaScript runtime functions"
named_theorems inv_simps "consequences of the component invariants used as rewrite rules"
named_theorems inv_intros "one fact per operation: the operation keeps its invariant"

subsection \<open>Lists: the last n elements\<close>

definition last_n :: "nat \<Rightarrow> 'a list \<Rightarrow> 'a list" where
  "last_n n xs = drop (length xs - n) xs"

lemma last_n_Nil [simp]: "last_n n [] = []"
  by (simp add: last_n_def)

lemma last_n_short: "length xs \<le> n \<Longrightarrow> last_n n xs = xs"
  by (simp add: last_n_def)

lemma length_last_n [simp]: "length (last_n n xs) = min n (length xs)"
  by (simp add: last_n_def)

lemma last_n_append_last_n: "last_n n (last_n n xs @ ys) = last_n n (xs @ ys)"
proof -
  have "xs = take (length xs - n) xs @ last_n n xs"
    by (simp add: last_n_def)
  then obtain zs where xs: "xs = zs @ last_n n xs" and zs: "zs = [] \<or> length (last_n n xs) = n"
    by (metis diff_is_0_eq length_last_n linorder_linear min.absorb_iff1 take_0)
  show ?thesis
  proof (cases "zs = []")
    case True
    with xs show ?thesis by simp
  next
    case False
    with zs have len: "length (last_n n xs) = n" by simp
    have "last_n n (xs @ ys) = last_n n (zs @ last_n n xs @ ys)"
      using xs by (metis append.assoc)
    also have "\<dots> = last_n n (last_n n xs @ ys)"
      using len by (simp add: last_n_def)
    finally show ?thesis by simp
  qed
qed

lemma last_n_map: "last_n n (map f xs) = map f (last_n n xs)"
  by (simp add: last_n_def drop_map)

lemma set_last_n: "set (last_n n xs) \<subseteq> set xs"
  by (simp add: last_n_def set_drop_subset)

lemma last_last_n: "0 < n \<Longrightarrow> xs \<noteq> [] \<Longrightarrow> last (last_n n xs) = last xs"
  by (simp add: last_n_def last_drop)

lemma last_n_full_snoc: "length xs = n \<Longrightarrow> 0 < n \<Longrightarrow> last_n n (xs @ [x]) = tl xs @ [x]"
  by (cases xs) (simp_all add: last_n_def)

lemma last_take_nth: "0 < n \<Longrightarrow> n \<le> length xs \<Longrightarrow> last (take n xs) = xs ! (n - 1)"
  by (subst last_conv_nth) auto

subsection \<open>Runs of a step relation\<close>

inductive runs :: "('s \<Rightarrow> 'e \<Rightarrow> 's \<Rightarrow> bool) \<Rightarrow> 's \<Rightarrow> 'e list \<Rightarrow> 's \<Rightarrow> bool"
  for step :: "'s \<Rightarrow> 'e \<Rightarrow> 's \<Rightarrow> bool"
where
  runs_Nil: "runs step s [] s"
| runs_Cons: "step s e t \<Longrightarrow> runs step t es u \<Longrightarrow> runs step s (e # es) u"

inductive_cases runs_NilE [elim!]: "runs step s [] t"
inductive_cases runs_ConsE [elim!]: "runs step s (e # es) t"
inductive_simps runs_Nil_iff [simp]: "runs step s [] t"
inductive_simps runs_Cons_iff: "runs step s (e # es) t"

lemma runs_append: "runs step s (es @ fs) u \<longleftrightarrow> (\<exists>t. runs step s es t \<and> runs step t fs u)"
  by (induction es arbitrary: s) (auto simp: runs_Cons_iff)

lemma runs_snocI: "runs step s es t \<Longrightarrow> step t e u \<Longrightarrow> runs step s (es @ [e]) u"
  by (auto simp: runs_append intro: runs.intros)

lemma runs_fun_iff: "runs (\<lambda>s e t. t = f s e) s es t \<longleftrightarrow> t = foldl f s es"
  by (induction es arbitrary: s) (auto simp: runs_Cons_iff)

subsection \<open>Components with state\<close>

text \<open>
  A component whose environment chooses the next event: a start predicate, a step relation
  and an invariant.  What a client may rely on is that every run from a start state ends in a
  state with the invariant.
\<close>

locale transition_system =
  fixes start :: "'s \<Rightarrow> bool"
    and step :: "'s \<Rightarrow> 'e \<Rightarrow> 's \<Rightarrow> bool"
    and inv :: "'s \<Rightarrow> bool"
  assumes inv_start: "start s \<Longrightarrow> inv s"
    and inv_step: "inv s \<Longrightarrow> step s e t \<Longrightarrow> inv t"
begin

lemma inv_runs_from: "runs step s es t \<Longrightarrow> inv s \<Longrightarrow> inv t"
  by (induction rule: runs.induct) (auto intro: inv_step)

lemma inv_runs: "start s \<Longrightarrow> runs step s es t \<Longrightarrow> inv t"
  by (blast intro: inv_runs_from inv_start)

end

text \<open>
  A component whose operations are functions of the state: a deterministic machine.  It is a
  transition system whose relation is the graph of the step function, so it inherits the
  facts above; its runs are \<open>foldl\<close>.
\<close>

locale event_machine =
  fixes init :: "'s"
    and step :: "'s \<Rightarrow> 'e \<Rightarrow> 's"
    and inv :: "'s \<Rightarrow> bool"
  assumes inv_init: "inv init"
    and inv_step: "inv s \<Longrightarrow> inv (step s e)"
begin

lemma inv_fold_from: "inv s \<Longrightarrow> inv (foldl step s es)"
  by (induction es arbitrary: s) (auto intro: inv_step)

lemma inv_fold: "inv (foldl step init es)"
  by (rule inv_fold_from [OF inv_init])

lemma fold_induct [consumes 0, case_names Nil snoc]:
  assumes "P [] init"
    and "\<And>es e. inv (foldl step init es) \<Longrightarrow> P es (foldl step init es) \<Longrightarrow>
           P (es @ [e]) (step (foldl step init es) e)"
  shows "P es (foldl step init es)"
proof (induction es rule: rev_induct)
  case Nil
  then show ?case using assms(1) by simp
next
  case (snoc e es)
  then show ?case using assms(2) inv_fold by simp
qed

end

sublocale event_machine \<subseteq> graph: transition_system "\<lambda>s. s = init" "\<lambda>s e t. t = step s e" inv
  by unfold_locales (auto intro: inv_init inv_step)

text \<open>
  A machine that refines a smaller one: an abstraction function that commutes with every
  step.  The abstract run then describes the concrete one.
\<close>

locale refined_machine = event_machine init step inv
  for init :: "'s" and step :: "'s \<Rightarrow> 'e \<Rightarrow> 's" and inv :: "'s \<Rightarrow> bool" +
  fixes abs :: "'s \<Rightarrow> 'a"
    and astep :: "'a \<Rightarrow> 'e \<Rightarrow> 'a"
  assumes abs_step: "inv s \<Longrightarrow> abs (step s e) = astep (abs s) e"
begin

lemma abs_fold_from: "inv s \<Longrightarrow> abs (foldl step s es) = foldl astep (abs s) es"
  by (induction es arbitrary: s) (simp_all add: abs_step inv_step)

lemma abs_fold: "abs (foldl step init es) = foldl astep (abs init) es"
  by (rule abs_fold_from [OF inv_init])

end

end
