(* ===== verification/Js_Numbers.thy ===== *)
theory Js_Numbers
  imports Prelude
begin

section \<open>The numbers of the language\<close>

text \<open>
  A JavaScript number is a double: a rational is rounded to the nearest one, ties to even, when
  a text is read and after every operation.  \<open>round_double\<close> is that rounding for numbers in
  range; \<open>to_double\<close> answers \<open>None\<close> for one that overflows.  Rounding is monotonic, idempotent
  and, above the subnormal numbers, off by at most one part in $2^{53}$; a decimal close enough to a double
  is rounded to it, and the difference of two doubles keeps its sign.  The sign
  of zero, the infinities and \<open>NaN\<close> are not numbers of the model.
\<close>

subsection \<open>Rounding to a double\<close>

definition round_even :: "rat \<Rightarrow> int" where
  "round_even r =
     (let n = \<lfloor>r\<rfloor>; d = r - of_int n in if d < 1 / 2 \<or> (d = 1 / 2 \<and> even n) then n else n + 1)"

text \<open>
  Below $2^{53}$ a number is doubled until it has 53 binary digits before the point, at most
  1074 times; from $2^{53}$ on it is halved until it has no more than these.
\<close>

fun round_small :: "nat \<Rightarrow> rat \<Rightarrow> rat" where
  "round_small 0 r = of_int (round_even r)"
| "round_small (Suc n) r =
     (if 2 ^ 52 \<le> r then of_int (round_even r) else round_small n (2 * r) / 2)"

function round_pos :: "rat \<Rightarrow> rat" where
  "round_pos r = (if r < 2 ^ 53 then round_small 1074 r else 2 * round_pos (r / 2))"
  by pat_completeness auto
termination
proof (relation "measure (\<lambda>r. nat \<lfloor>r\<rfloor>)")
  fix r :: rat assume "\<not> r < 2 ^ 53"
  then have "\<lfloor>r / 2\<rfloor> < \<lfloor>r\<rfloor>" and "0 < \<lfloor>r\<rfloor>"
    using floor_mono [of "r / 2 + 1" r] by simp_all
  then show "(r / 2, r) \<in> measure (\<lambda>r. nat \<lfloor>r\<rfloor>)" by simp
qed simp

declare round_pos.simps [simp del]

definition round_double :: "rat \<Rightarrow> rat" where
  "round_double r = (if r < 0 then - round_pos (- r) else round_pos r)"

definition to_double :: "rat \<Rightarrow> rat option" where
  "to_double r = (let d = round_double r in if \<bar>d\<bar> < 2 ^ 1024 then Some d else None)"

definition is_double :: "rat \<Rightarrow> bool" where
  "is_double r \<longleftrightarrow> to_double r = Some r"

lemma round_even_of_int [simp]: "round_even (of_int i) = i"
  by (simp add: round_even_def)

lemma round_even_numeral [simp]: "round_even (numeral k) = numeral k"
  using round_even_of_int [of "numeral k"] by simp

lemma round_even_near: "\<bar>of_int (round_even r) - r\<bar> \<le> 1 / 2"
  unfolding round_even_def Let_def using floor_correct [of r] by (auto simp: abs_le_iff)

lemma round_even_mono: "r \<le> s \<Longrightarrow> round_even r \<le> round_even s"
proof -
  assume le: "r \<le> s"
  have between: "\<lfloor>t\<rfloor> \<le> round_even t" "round_even t \<le> \<lfloor>t\<rfloor> + 1" for t
    by (simp_all add: round_even_def Let_def)
  show ?thesis
  proof (cases "\<lfloor>r\<rfloor> = \<lfloor>s\<rfloor>")
    case True
    then show ?thesis using le by (auto simp: round_even_def Let_def)
  next
    case False
    then have "\<lfloor>r\<rfloor> < \<lfloor>s\<rfloor>" using le floor_mono [of r s] by simp
    then show ?thesis using between(2) [of r] between(1) [of s] by linarith
  qed
qed

lemma round_even_unique: "\<bar>r - of_int i\<bar> < 1 / 2 \<Longrightarrow> round_even r = i"
  using round_even_near [of r] by linarith

lemma round_even_bounds: "0 \<le> r \<Longrightarrow> r \<le> 2 ^ 53 \<Longrightarrow> 0 \<le> round_even r \<and> round_even r \<le> 2 ^ 53"
  using round_even_mono [of 0 r] round_even_mono [of r "2 ^ 53"] round_even_of_int [of 0] by simp

lemma round_small_bounds: "0 \<le> r \<Longrightarrow> r \<le> 2 ^ 53 \<Longrightarrow> 0 \<le> round_small n r \<and> round_small n r \<le> 2 ^ 53"
proof (induction n arbitrary: r)
  case 0
  then show ?case using round_even_bounds [of r] by simp
next
  case (Suc n)
  have "0 \<le> round_small n (2 * r)" "round_small n (2 * r) \<le> 2 ^ 53" if "r < 2 ^ 52"
    using that Suc.IH [of "2 * r"] Suc.prems by simp_all
  then show ?case using round_even_bounds [OF Suc.prems] by (force simp: not_le)
qed

lemma round_small_mono: "0 \<le> r \<Longrightarrow> r \<le> s \<Longrightarrow> s \<le> 2 ^ 53 \<Longrightarrow> round_small n r \<le> round_small n s"
proof (induction n arbitrary: r s)
  case (Suc n)
  consider "2 ^ 52 \<le> r" | "s < 2 ^ 52" | "r < 2 ^ 52" "2 ^ 52 \<le> s" by linarith
  then show ?case
  proof cases
    case 3
    then have "round_small n (2 * r) \<le> 2 ^ 53" "2 ^ 52 \<le> round_even s"
      using Suc.prems round_small_bounds [of "2 * r" n] round_even_mono [of "2 ^ 52" s] by simp_all
    then show ?thesis using 3 by simp
  qed (use Suc in \<open>simp_all add: round_even_mono\<close>)
qed (simp add: round_even_mono)

lemma round_small_fixed: "0 \<le> r \<Longrightarrow> r < 2 ^ 53 \<Longrightarrow> round_small n (round_small n r) = round_small n r"
proof (induction n arbitrary: r)
  case (Suc n)
  show ?case
  proof (cases "2 ^ 52 \<le> r")
    case True
    then have "2 ^ 52 \<le> (of_int (round_even r) :: rat)"
      using round_even_mono [of "2 ^ 52" r] by simp
    then show ?thesis using True by simp
  next
    case False
    then show ?thesis
      using Suc round_small_bounds [of "2 * r" n] by (cases "round_small n (2 * r) = 2 ^ 53") auto
  qed
qed simp

lemma round_small_int: "2 ^ 52 \<le> r \<Longrightarrow> round_small n r = of_int (round_even r)"
  by (cases n) auto

lemma round_pos_ge: "2 ^ 53 \<le> r \<Longrightarrow> 2 ^ 53 \<le> round_pos r"
proof (induction r rule: round_pos.induct)
  case (1 r)
  have "2 ^ 52 \<le> round_pos (r / 2)"
  proof (cases "r / 2 < 2 ^ 53")
    case True
    have "2 ^ 52 \<le> round_even (r / 2)"
      using round_even_mono [of "2 ^ 52" "r / 2"] 1(2) by simp
    then show ?thesis
      using True 1(2) by (simp add: round_pos.simps round_small_int)
  next
    case False
    then show ?thesis using 1 by simp
  qed
  then show ?case using 1(2) by (subst round_pos.simps) simp
qed

lemma round_pos_half: "2 ^ 52 \<le> r \<Longrightarrow> 2 * round_pos r = round_pos (2 * r)"
  by (subst (2) round_pos.simps) simp

lemma round_pos_small: "r < 2 ^ 53 \<Longrightarrow> round_pos r = round_small 1074 r"
  by (simp add: round_pos.simps)

lemma round_pos_int: "2 ^ 52 \<le> r \<Longrightarrow> r \<le> 2 ^ 53 \<Longrightarrow> round_pos r = of_int (round_even r)"
proof (cases "r = 2 ^ 53")
  case True
  then show ?thesis
    using round_pos_half [of "2 ^ 52"] by (simp add: round_pos_small round_small_int)
qed (simp add: round_pos_small round_small_int)

lemma round_pos_big: "2 ^ 53 \<le> r \<Longrightarrow> round_pos r = 2 * round_pos (r / 2)"
  by (subst round_pos.simps) simp

text \<open>Between two powers of two the doubles are evenly spaced.\<close>

lemma round_pos_spaced:
  assumes "2 ^ 52 \<le> r" and "r \<le> 2 ^ 53"
  shows "round_pos (2 ^ n * r) = 2 ^ n * of_int (round_even r)"
proof (induction n)
  case (Suc n)
  have "(1 :: rat) * 2 ^ 52 \<le> 2 ^ n * r"
    using assms(1) by (intro mult_mono) auto
  then show ?case
    using round_pos_half [of "2 ^ n * r"] Suc by (simp add: mult.assoc)
qed (use assms in \<open>simp add: round_pos_int\<close>)

lemma round_pos_nonneg: "0 \<le> r \<Longrightarrow> 0 \<le> round_pos r"
proof (cases "r < 2 ^ 53")
  case True
  assume "0 \<le> r"
  then show ?thesis using True round_small_bounds [of r 1074] by (simp add: round_pos_small)
next
  case False
  then have "2 ^ 53 \<le> round_pos r" by (intro round_pos_ge) simp
  then show ?thesis by (rule order_trans [rotated]) simp
qed

lemma round_pos_mono: "0 \<le> r \<Longrightarrow> r \<le> s \<Longrightarrow> round_pos r \<le> round_pos s"
proof (induction s arbitrary: r rule: round_pos.induct)
  case (1 s)
  consider "s < 2 ^ 53" | "2 ^ 53 \<le> r" | "r < 2 ^ 53" "2 ^ 53 \<le> s" by linarith
  then show ?case
  proof cases
    case 1
    then show ?thesis using 1 "1.prems" by (simp add: round_pos_small round_small_mono)
  next
    case 2
    then have "round_pos (r / 2) \<le> round_pos (s / 2)" using "1.prems" by (intro "1.IH") simp_all
    then show ?thesis
      using 2 "1.prems" round_pos_half [of "r / 2"] round_pos_half [of "s / 2"] by simp
  next
    case 3
    then show ?thesis
      using round_pos_ge [of s] round_small_bounds [of r 1074] "1.prems" by (simp add: round_pos_small)
  qed
qed

lemma round_pos_fixed: "0 \<le> r \<Longrightarrow> round_pos (round_pos r) = round_pos r"
proof (induction r rule: round_pos.induct)
  case (1 r)
  show ?case
  proof (cases "r < 2 ^ 53")
    case True
    let ?d = "round_small 1074 r"
    have "0 \<le> ?d" "?d \<le> 2 ^ 53" "round_small 1074 ?d = ?d"
      using "1.prems" True round_small_bounds [of r 1074] round_small_fixed [of r 1074] by simp_all
    then show ?thesis
      using True round_pos_int [of "2 ^ 53"] by (cases "?d = 2 ^ 53") (simp_all add: round_pos_small)
  next
    case False
    then have "2 ^ 52 \<le> round_pos (r / 2)"
      using round_pos_ge [of "r"] round_pos_half [of "r / 2"] by simp
    then show ?thesis
      using False 1 round_pos_half [of "round_pos (r / 2)"] round_pos_half [of "r / 2"] by simp
  qed
qed

lemma round_small_whole: "0 \<le> i \<Longrightarrow> i \<le> 2 ^ 53 \<Longrightarrow> round_small n (of_int i) = of_int i"
proof (induction n arbitrary: i)
  case (Suc n)
  show ?case
  proof (cases "2 ^ 52 \<le> (of_int i :: rat)")
    case False
    then have "i < 2 ^ 52" by simp
    then have "round_small n (of_int (2 * i)) = of_int (2 * i)"
      using Suc.prems by (intro Suc.IH) simp_all
    then show ?thesis using False by simp
  qed simp
qed simp

lemma round_pos_0 [simp]: "round_pos 0 = 0"
  using round_small_whole [of 0 1074] by (simp add: round_pos_small)

lemma round_double_minus [simp]: "round_double (- r) = - round_double r"
  by (simp add: round_double_def)

lemma round_double_pos: "0 \<le> r \<Longrightarrow> round_double r = round_pos r"
  by (simp add: round_double_def)

text \<open>Rounding never reverses an order, and what is rounded stays as it is.\<close>

lemma round_double_mono: "r \<le> s \<Longrightarrow> round_double r \<le> round_double s"
proof -
  assume le: "r \<le> s"
  consider "0 \<le> r" | "s < 0" | "r < 0" "0 \<le> s" by linarith
  then show ?thesis
  proof cases
    case 3
    then have "0 \<le> round_pos (- r)" "0 \<le> round_pos s" by (simp_all add: round_pos_nonneg)
    then show ?thesis using 3 by (simp add: round_double_def)
  qed (use le round_pos_mono [of r s] round_pos_mono [of "- s" "- r"] in \<open>auto simp: round_double_def\<close>)
qed

lemma round_double_fixed [simp]: "round_double (round_double r) = round_double r"
proof (cases "r < 0")
  case True
  then show ?thesis
    using round_pos_nonneg [of "- r"] round_pos_fixed [of "- r"] by (simp add: round_double_def)
next
  case False
  then show ?thesis
    using round_pos_nonneg [of r] round_pos_fixed [of r] by (simp add: round_double_def)
qed

lemma round_pos_whole: "0 \<le> i \<Longrightarrow> i \<le> 2 ^ 53 \<Longrightarrow> round_pos (of_int i) = of_int i"
proof (cases "2 ^ 53 \<le> (of_int i :: rat)")
  case True
  assume "i \<le> 2 ^ 53"
  then have "i = 2 ^ 53" using True by simp
  then show ?thesis using round_pos_int [of "2 ^ 53"] by simp
next
  case False
  assume "0 \<le> i" "i \<le> 2 ^ 53"
  then show ?thesis using False round_small_whole [of i 1074] by (simp only: round_pos_small not_le)
qed

lemma in_double_range: "\<bar>r\<bar> \<le> 2 ^ n \<Longrightarrow> n < 1024 \<Longrightarrow> \<bar>r\<bar> < (2 ^ 1024 :: rat)"
  by (erule le_less_trans) (rule power_strict_increasing; simp)

lemma whole_double: "\<bar>i\<bar> \<le> 2 ^ 53 \<Longrightarrow> is_double (of_int i)"
proof -
  assume i: "\<bar>i\<bar> \<le> 2 ^ 53"
  then have "round_double (of_int i) = of_int i"
    using round_pos_whole [of i] round_pos_whole [of "- i"] by (cases "0 \<le> i") (simp_all add: round_double_def)
  moreover have "\<bar>of_int i :: rat\<bar> \<le> 2 ^ 53"
    using i by (simp flip: of_int_abs)
  then have "\<bar>of_int i\<bar> < (2 ^ 1024 :: rat)"
    by (rule in_double_range) simp
  ultimately show ?thesis
    by (simp only: is_double_def to_double_def Let_def if_True)
qed

text \<open>A number that a double is far closer to than the doubles are apart is rounded to it.\<close>

lemma round_even_close: "\<bar>d - of_int i\<bar> < of_int i / 2 ^ 54 \<Longrightarrow> i \<le> 2 ^ 53 \<Longrightarrow> round_even d = i"
proof (rule round_even_unique)
  assume "\<bar>d - of_int i\<bar> < of_int i / 2 ^ 54" and "i \<le> 2 ^ 53"
  moreover from this have "(of_int i :: rat) \<le> 2 ^ 53" by simp
  ultimately show "\<bar>d - of_int i\<bar> < 1 / 2" by simp
qed

lemma half_away: "\<bar>d - x\<bar> < x / 2 ^ 54 \<Longrightarrow> x \<le> 2 ^ 53 \<Longrightarrow> x - 1 / 2 < d \<and> d < x + 1 / 2" for x :: rat
proof -
  assume "\<bar>d - x\<bar> < x / 2 ^ 54" and "x \<le> 2 ^ 53"
  moreover from this have "x / 2 ^ 54 \<le> 1 / 2" by simp
  ultimately show ?thesis by linarith
qed

lemma round_small_near:
  "0 < x \<Longrightarrow> x < 2 ^ 53 \<Longrightarrow> d < 2 ^ 53 \<Longrightarrow> round_small n x = x \<Longrightarrow> \<bar>d - x\<bar> < x / 2 ^ 54 \<Longrightarrow>
     round_small n d = x"
proof (induction n arbitrary: x d)
  case 0
  then have x: "x = of_int (round_even x)" by simp
  then have "round_even d = round_even x"
    using 0 round_even_bounds [of x] by (intro round_even_close) simp_all
  then show ?case using x by simp
next
  case (Suc n)
  show ?case
  proof (cases "2 ^ 52 \<le> x")
    case True
    then have x: "x = of_int (round_even x)" using Suc.prems(4) by simp
    then have same: "round_even d = round_even x"
      using Suc.prems round_even_bounds [of x] by (intro round_even_close) simp_all
    show ?thesis
    proof (cases "2 ^ 52 \<le> d")
      case False
      then have below: "d < 2 ^ 52" by simp
      have "x = 2 ^ 52"
      proof -
        have "x < 2 ^ 52 + 1" using below half_away [OF Suc.prems(5)] Suc.prems(2) by simp
        then have "(of_int (round_even x) :: rat) < 2 ^ 52 + 1" "2 ^ 52 \<le> (of_int (round_even x) :: rat)"
          using True x by simp_all
        then have "round_even x = 2 ^ 52" by simp
        then show ?thesis using x by simp
      qed
      then have "\<bar>d - 4503599627370496\<bar> < 1 / 4"
        using Suc.prems(5) by simp
      then have "\<bar>2 * d - 9007199254740992\<bar> < 1 / 2" "4503599627370496 \<le> 2 * d" by linarith+
      then have "round_small n (2 * d) = 2 ^ 53"
        using round_even_unique [of "2 * d" 9007199254740992] by (simp add: round_small_int)
      then show ?thesis using below \<open>x = 2 ^ 52\<close> by simp
    qed (use x same in simp)
  next
    case False
    then have fixed: "round_small n (2 * x) = 2 * x" using Suc.prems(4) by simp
    have "d < 2 ^ 52"
    proof (rule ccontr)
      assume "\<not> d < 2 ^ 52"
      then have big: "2 ^ 52 - 1 / 2 < x"
        using half_away [OF Suc.prems(5)] False by simp
      then have "2 * x = of_int (round_even (2 * x))"
        using fixed by (simp add: round_small_int)
      then have "9007199254740991 < (of_int (round_even (2 * x)) :: rat)"
        "(of_int (round_even (2 * x)) :: rat) < 9007199254740992"
        using big False by simp_all
      then show False by simp
    qed
    then show ?thesis
      using Suc.IH [of "2 * x" "2 * d"] Suc.prems fixed False by (auto simp: abs_if split: if_splits)
  qed
qed

lemma round_pos_near:
  "0 < x \<Longrightarrow> round_pos x = x \<Longrightarrow> \<bar>d - x\<bar> < x / 2 ^ 54 \<Longrightarrow> round_pos d = x"
proof (induction d arbitrary: x rule: round_pos.induct)
  case (1 d)
  show ?case
  proof (cases "x < 2 ^ 53")
    case True
    have "d < 2 ^ 53"
    proof (rule ccontr)
      assume "\<not> d < 2 ^ 53"
      then have "2 ^ 53 - 1 / 2 < x"
        using half_away [OF 1(4)] True by simp
      moreover from this have "x = of_int (round_even x)"
        using 1(3) True by (simp add: round_pos_int)
      ultimately have "9007199254740991 < (of_int (round_even x) :: rat)"
        "(of_int (round_even x) :: rat) < 9007199254740992"
        using True by simp_all
      then show False by simp
    qed
    then show ?thesis
      using True 1(2-4) round_small_near [of x d 1074] by (simp add: round_pos_small)
  next
    case False
    then have half: "2 ^ 52 \<le> x / 2" "round_pos (x / 2) = x / 2" "0 < x / 2"
      using 1(3) round_pos_half [of "x / 2"] by simp_all
    have close: "\<bar>d / 2 - x / 2\<bar> < x / 2 / 2 ^ 54"
      using 1(4) by (auto simp: abs_if split: if_splits)
    show ?thesis
    proof (cases "d < 2 ^ 53")
      case False
      then have "round_pos (d / 2) = x / 2" using 1(1) half close by blast
      then show ?thesis using False round_pos_half [of "d / 2"] by simp
    next
      case small: True
      have bound: "x - d < x / 18014398509481984"
        using 1(4) by (auto simp: abs_if split: if_splits)
      then have "x / 2 < 4503599627370497"
        using small by simp
      moreover have "x / 2 = of_int (round_even (x / 2))"
        using half calculation by (simp add: round_pos_int)
      ultimately have "(of_int (round_even (x / 2)) :: rat) < 4503599627370497"
        "4503599627370496 \<le> (of_int (round_even (x / 2)) :: rat)"
        using half(1) by simp_all
      then have "round_even (x / 2) = 4503599627370496" by simp
      then have x: "x = 9007199254740992"
        using \<open>x / 2 = of_int (round_even (x / 2))\<close> by simp
      then have "\<bar>d - 9007199254740992\<bar> < 1 / 2"
        using half_away [OF 1(4)] by (auto simp: abs_if)
      then have "round_even d = 9007199254740992"
        using round_even_unique [of d 9007199254740992] by simp
      moreover have "2 ^ 52 \<le> d" using bound x small by simp
      ultimately show ?thesis using small x by (simp add: round_pos_int)
    qed
  qed
qed

text \<open>The relative error of rounding, for numbers that are not below the smallest normal one.\<close>

lemma round_even_error: "2 ^ 52 \<le> r \<Longrightarrow> \<bar>of_int (round_even r) - r\<bar> \<le> r / 2 ^ 53"
  using round_even_near [of r] by (rule order_trans) simp

lemma round_small_error: "2 ^ 52 \<le> r * 2 ^ n \<Longrightarrow> \<bar>round_small n r - r\<bar> \<le> r / 2 ^ 53"
proof (induction n arbitrary: r)
  case 0
  then show ?case using round_even_error [of r] by simp
next
  case (Suc n)
  show ?case
  proof (cases "2 ^ 52 \<le> r")
    case True
    then show ?thesis using round_even_error [of r] by simp
  next
    case False
    have "\<bar>round_small n (2 * r) - 2 * r\<bar> \<le> 2 * r / 2 ^ 53"
      using Suc.prems by (intro Suc.IH) (simp add: mult.commute mult.left_commute)
    then show ?thesis using False by (auto simp: abs_if split: if_splits)
  qed
qed

lemma round_pos_error: "1 / 2 ^ 1022 \<le> r \<Longrightarrow> \<bar>round_pos r - r\<bar> \<le> r / 2 ^ 53"
proof (induction r rule: round_pos.induct)
  case (1 r)
  show ?case
  proof (cases "r < 2 ^ 53")
    case True
    have scale: "(2 ^ 1074 :: rat) = 2 ^ 52 * 2 ^ 1022"
      unfolding power_add [symmetric] by simp
    have "1 \<le> r * 2 ^ 1022"
      using 1(2) by (simp add: field_simps del: power_numeral)
    then have "2 ^ 52 * 1 \<le> 2 ^ 52 * (r * 2 ^ 1022)"
      by (intro mult_left_mono) simp_all
    moreover have "2 ^ 52 * (r * 2 ^ 1022) = r * 2 ^ 1074"
      unfolding scale by (rule mult.left_commute)
    ultimately have "2 ^ 52 \<le> r * 2 ^ 1074"
      by (simp only: mult_1_right)
    then show ?thesis using True round_small_error by (simp add: round_pos_small)
  next
    case False
    have "(1 / 2 ^ 1022 :: rat) \<le> 1" by simp
    then have "\<bar>round_pos (r / 2) - r / 2\<bar> \<le> r / 2 / 2 ^ 53"
      using False 1(1) by (rule_tac 1(1)) simp_all
    then show ?thesis
      using False round_pos_half [of "r / 2"] by (auto simp: abs_if split: if_splits)
  qed
qed

text \<open>The smallest positive double.\<close>

lemma round_small_least: "0 < round_small n r \<Longrightarrow> 1 / 2 ^ n \<le> round_small n r"
proof (induction n arbitrary: r)
  case 0
  then have "1 \<le> round_even r" by simp
  then show ?case by simp
next
  case (Suc n)
  show ?case
  proof (cases "2 ^ 52 \<le> r")
    case True
    then have "1 \<le> round_even r" using Suc.prems by simp
    then have "(1 :: rat) \<le> of_int (round_even r)" by simp
    moreover have "(1 / 2 ^ Suc n :: rat) \<le> 1 / 2 ^ 0" by (intro divide_left_mono power_increasing) simp_all
    then have "(1 / 2 ^ Suc n :: rat) \<le> 1" by (simp only: power_0 div_by_1)
    ultimately have "1 / 2 ^ Suc n \<le> (of_int (round_even r) :: rat)"
      by (rule order_trans [rotated])
    then show ?thesis using True by simp
  qed (use Suc in simp)
qed

lemma round_pos_least: "0 < r \<Longrightarrow> round_pos r = r \<Longrightarrow> 1 / 2 ^ 1074 \<le> r"
proof (cases "r < 2 ^ 53")
  case True
  assume "0 < r" "round_pos r = r"
  then show ?thesis using round_small_least [of 1074 r] True by (simp add: round_pos_small)
next
  case False
  have "(1 / 2 ^ 1074 :: rat) \<le> 1 / 2 ^ 0" by (intro divide_left_mono power_increasing) simp_all
  then show ?thesis using False by simp
qed

text \<open>Rounding does not leave a range that ends in a power of two, so it overflows at the top only.\<close>

lemma round_pos_power: "round_pos (2 ^ (52 + n)) = 2 ^ (52 + n)"
proof (induction n)
  case 0
  then show ?case using round_pos_int [of "2 ^ 52"] by simp
next
  case (Suc n)
  have "(2 ^ 52 :: rat) \<le> 2 ^ (52 + n)" by (intro power_increasing) simp_all
  from round_pos_half [OF this] Suc show ?case by (simp only: power_Suc add_Suc_right)
qed

lemma round_double_bound: "\<bar>r\<bar> \<le> 2 ^ (52 + n) \<Longrightarrow> \<bar>round_double r\<bar> \<le> 2 ^ (52 + n)"
  using round_double_mono [of r "2 ^ (52 + n)"] round_double_mono [of "- (2 ^ (52 + n))" r]
  by (simp add: abs_le_iff round_double_pos round_pos_power)

lemma to_double_range: "\<bar>r\<bar> \<le> 2 ^ 1023 \<Longrightarrow> to_double r = Some (round_double r)"
  using in_double_range [OF round_double_bound [of r 971]] by (simp only: to_double_def Let_def) simp

lemma is_doubleD: "is_double r \<Longrightarrow> round_double r = r" "is_double r \<Longrightarrow> \<bar>r\<bar> < 2 ^ 1024"
  by (auto simp: is_double_def to_double_def Let_def split: if_splits)

lemma is_double_minus [simp]: "is_double (- r) = is_double r"
  by (simp add: is_double_def to_double_def Let_def)

lemma to_double_double: "to_double r = Some d \<Longrightarrow> is_double d"
  by (auto simp: is_double_def to_double_def Let_def split: if_splits)

text \<open>
  Doubles are whole multiples of the smallest one, so the difference of two doubles has the
  same sign rounded as exact.
\<close>

lemma round_small_grid: "\<exists>i. round_small n r * 2 ^ n = of_int i"
proof (induction n arbitrary: r)
  case 0
  show ?case by simp
next
  case (Suc n)
  show ?case
  proof (cases "2 ^ 52 \<le> r")
    case True
    then have "round_small (Suc n) r * 2 ^ Suc n = of_int (round_even r * 2 ^ Suc n)" by simp
    then show ?thesis by blast
  next
    case False
    then show ?thesis using Suc [of "2 * r"] by simp
  qed
qed

lemma round_pos_grid: "\<exists>i. round_pos r * 2 ^ 1074 = of_int i"
proof (induction r rule: round_pos.induct)
  case (1 r)
  show ?case
  proof (cases "r < 2 ^ 53")
    case True
    then show ?thesis using round_small_grid [of 1074 r] by (simp only: round_pos_small)
  next
    case False
    then obtain i where "round_pos (r / 2) * 2 ^ 1074 = of_int i" using 1 by blast
    then have "round_pos r * 2 ^ 1074 = of_int (2 * i)"
      using False by (simp add: round_pos_big)
    then show ?thesis by blast
  qed
qed

lemma double_grid: "is_double x \<Longrightarrow> \<exists>i. x * 2 ^ 1074 = of_int i"
proof -
  assume "is_double x"
  then have "x = round_pos x \<or> x = - round_pos (- x)"
    using is_doubleD(1) [of x] by (auto simp: round_double_def split: if_splits)
  moreover obtain i j where "round_pos x * 2 ^ 1074 = of_int i" "round_pos (- x) * 2 ^ 1074 = of_int j"
    using round_pos_grid by meson
  ultimately have "x * 2 ^ 1074 = of_int i \<or> x * 2 ^ 1074 = of_int (- j)"
    by (metis minus_mult_left of_int_minus)
  then show ?thesis by blast
qed

lemma round_small_1: "round_small n (1 / 2 ^ n) = 1 / 2 ^ n"
proof (induction n)
  case (Suc n)
  have "\<not> (2 ^ 52 :: rat) \<le> 1 / 2 ^ Suc n"
  proof -
    have "(1 / 2 ^ Suc n :: rat) \<le> 1 / 2 ^ 0" by (intro divide_left_mono power_increasing) simp_all
    then have "(1 / 2 ^ Suc n :: rat) \<le> 1" by (simp only: power_0 div_by_1)
    then have "(1 / 2 ^ Suc n :: rat) < 2 ^ 52" by (rule le_less_trans) simp
    then show ?thesis by (simp only: not_le)
  qed
  then show ?case using Suc by simp
qed (use round_even_of_int [of 1] in simp)

lemma round_double_sign:
  assumes "is_double x" and "is_double y"
  shows "round_double (x - y) \<le> 0 \<longleftrightarrow> x \<le> y"
proof
  assume "x \<le> y"
  then show "round_double (x - y) \<le> 0"
    using round_double_mono [of "x - y" 0] by (simp add: round_double_def)
next
  obtain i j where grid: "x * 2 ^ 1074 = of_int i" "y * 2 ^ 1074 = of_int j"
    using double_grid assms by meson
  assume small: "round_double (x - y) \<le> 0"
  show "x \<le> y"
  proof (rule ccontr)
    assume "\<not> x \<le> y"
    then have "(y * 2 ^ 1074 :: rat) < x * 2 ^ 1074"
      by (intro mult_strict_right_mono) (simp_all only: not_le zero_less_power zero_less_numeral)
    then have "1 \<le> i - j"
      unfolding grid by simp
    then have "(1 :: rat) \<le> of_int (i - j)"
      by (simp only: of_int_1_le_iff)
    then have "1 \<le> (x - y) * 2 ^ 1074"
      by (simp only: left_diff_distrib grid of_int_diff)
    then have "1 / 2 ^ 1074 \<le> x - y"
      by (simp only: divide_le_eq zero_less_power zero_less_numeral if_True)
    then have "round_double (1 / 2 ^ 1074) \<le> round_double (x - y)"
      by (rule round_double_mono)
    moreover have "round_double (1 / 2 ^ 1074) = 1 / 2 ^ 1074"
      using round_small_1 [of 1074] by (simp add: round_double_def round_pos_small del: round_small.simps)
    ultimately show False
      using small by simp
  qed
qed

end
