(* ===== verification/NumberText.thy ===== *)
theory NumberText
  imports Js_Numbers
begin

section \<open>Numbers as text\<close>

text \<open>
  How a number is written and read: the digits of a decimal, the grammar of the numbers of JSON
  (an exact rational here; rounding it is the reader's), \<open>number_string\<close>, the shortest decimal
  that is rounded to the number, which the language prints wherever a number becomes a text, and
  \<open>to_fixed\<close>, the decimal with a given number of digits after the point.  \<open>shortest\<close> tries
  1 to 17 digits; \<open>seventeen_digits\<close> shows that 17 are enough for every double.
\<close>

subsection \<open>Reading a decimal\<close>

definition is_digit :: "char \<Rightarrow> bool" where
  "is_digit c \<longleftrightarrow> 48 \<le> (of_char c :: nat) \<and> (of_char c :: nat) \<le> 57"

definition digits_value :: "string \<Rightarrow> nat" where
  "digits_value = foldl (\<lambda>n c. 10 * n + (of_char c - 48)) 0"

text \<open>One or more digits; the integer part of a number has no leading zero.\<close>

definition read_digits :: "string \<Rightarrow> (string \<times> string) option" where
  "read_digits s =
     (let ds = takeWhile is_digit s in if ds = [] then None else Some (ds, dropWhile is_digit s))"

definition read_integer :: "string \<Rightarrow> (nat \<times> string) option" where
  "read_integer s =
     (case s of
        [] \<Rightarrow> None
      | c # t \<Rightarrow>
          if c = CHR ''0'' then Some (0, t)
          else map_option (\<lambda>(ds, r). (digits_value ds, r)) (read_digits s))"

definition read_fraction :: "string \<Rightarrow> (rat \<times> string) option" where
  "read_fraction s =
     (case s of
        c # t \<Rightarrow>
          if c = CHR ''.'' then
            map_option (\<lambda>(ds, r). (of_nat (digits_value ds) / 10 ^ length ds, r)) (read_digits t)
          else Some (0, s)
      | [] \<Rightarrow> Some (0, s))"

text \<open>The exponent as the factor it stands for.\<close>

definition read_exponent :: "string \<Rightarrow> (rat \<times> string) option" where
  "read_exponent s =
     (case s of
        c # t \<Rightarrow>
          if c = CHR ''e'' \<or> c = CHR ''E'' then
            (case t of
               d # u \<Rightarrow>
                 if d = CHR ''-'' then map_option (\<lambda>(ds, r). (1 / 10 ^ digits_value ds, r)) (read_digits u)
                 else map_option (\<lambda>(ds, r). (10 ^ digits_value ds, r))
                        (read_digits (if d = CHR ''+'' then u else t))
             | [] \<Rightarrow> None)
          else Some (1, s)
      | [] \<Rightarrow> Some (1, s))"

definition read_unsigned :: "string \<Rightarrow> (rat \<times> string) option" where
  "read_unsigned s =
     Option.bind (read_integer s) (\<lambda>(n, r).
     Option.bind (read_fraction r) (\<lambda>(f, r').
     map_option (\<lambda>(e, r''). ((of_nat n + f) * e, r'')) (read_exponent r')))"

lemma read_digits_shorter: "read_digits s = Some (ds, t) \<Longrightarrow> length t < length s"
proof -
  assume "read_digits s = Some (ds, t)"
  then have "takeWhile is_digit s \<noteq> []" "t = dropWhile is_digit s"
    by (auto simp: read_digits_def Let_def split: if_splits)
  moreover have "length s = length (takeWhile is_digit s) + length (dropWhile is_digit s)"
    by (metis length_append takeWhile_dropWhile_id)
  ultimately show ?thesis by simp
qed

lemma read_integer_shorter: "read_integer s = Some (n, t) \<Longrightarrow> length t < length s"
  by (cases s) (auto simp: read_integer_def split: if_splits dest!: read_digits_shorter)

lemma read_fraction_shorter: "read_fraction s = Some (n, t) \<Longrightarrow> length t \<le> length s"
  by (cases s) (auto simp: read_fraction_def split: if_splits dest!: read_digits_shorter)

lemma read_exponent_shorter: "read_exponent s = Some (n, t) \<Longrightarrow> length t \<le> length s"
  by (auto simp: read_exponent_def split: list.splits if_splits dest!: read_digits_shorter)

lemma read_unsigned_shorter: "read_unsigned s = Some (n, t) \<Longrightarrow> length t < length s"
  by (auto simp: read_unsigned_def bind_eq_Some_conv
      dest!: read_integer_shorter read_fraction_shorter read_exponent_shorter)

text \<open>The number a text denotes, and the double that the language makes of it.\<close>

definition read_decimal :: "string \<Rightarrow> (rat \<times> string) option" where
  "read_decimal s =
     (case s of
        c # t \<Rightarrow>
          if c = CHR ''-'' then map_option (\<lambda>(r, u). (- r, u)) (read_unsigned t) else read_unsigned s
      | [] \<Rightarrow> None)"

definition read_number :: "string \<Rightarrow> (rat \<times> string) option" where
  "read_number s =
     Option.bind (read_decimal s) (\<lambda>(r, t). map_option (\<lambda>d. (d, t)) (to_double r))"

lemma read_decimal_shorter: "read_decimal s = Some (n, t) \<Longrightarrow> length t < length s"
  by (cases s) (auto simp: read_decimal_def split: if_splits dest!: read_unsigned_shorter)

lemma read_number_shorter: "read_number s = Some (n, t) \<Longrightarrow> length t < length s"
  by (auto simp: read_number_def bind_eq_Some_conv dest: read_decimal_shorter)

subsection \<open>Digits\<close>

fun nat_text :: "nat \<Rightarrow> string" where
  "nat_text n = (if n < 10 then [char_of (48 + n)] else nat_text (n div 10) @ [char_of (48 + n mod 10)])"

declare nat_text.simps [simp del]

lemma digit_char: "n < 10 \<Longrightarrow> is_digit (char_of (48 + n)) \<and> (of_char (char_of (48 + n :: nat) :: char) :: nat) = 48 + n"
  by (simp add: is_digit_def)

lemma nat_text_spec:
  "(\<forall>c \<in> set (nat_text n). is_digit c) \<and> digits_value (nat_text n) = n \<and> nat_text n \<noteq> [] \<and>
   (hd (nat_text n) = CHR ''0'' \<longrightarrow> nat_text n = ''0'')"
proof (induction n rule: nat_text.induct)
  case (1 n)
  show ?case
  proof (cases "n < 10")
    case True
    then have "n \<in> {0, 1, 2, 3, 4, 5, 6, 7, 8, 9}" by auto
    then show ?thesis
      by (subst (1 2 3 4 5) nat_text.simps) (auto simp: is_digit_def digits_value_def)
  next
    case False
    let ?q = "nat_text (n div 10)"
    have written: "nat_text n = ?q @ [char_of (48 + n mod 10)]"
      using False by (subst nat_text.simps) simp
    have last: "digits_value (?q @ [char_of (48 + n mod 10)]) = 10 * digits_value ?q + n mod 10"
      using digit_char [of "n mod 10"] by (simp add: digits_value_def)
    have "hd ?q \<noteq> CHR ''0''"
    proof
      assume "hd ?q = CHR ''0''"
      with 1 False have "?q = ''0''" "digits_value ?q = n div 10" by auto
      then show False using False by (simp add: digits_value_def)
    qed
    then show ?thesis
      unfolding written last using 1 False digit_char [of "n mod 10"] by auto
  qed
qed

lemma digits_value_append: "digits_value (xs @ ys) = digits_value xs * 10 ^ length ys + digits_value ys"
proof (induction ys rule: rev_induct)
  case (snoc y ys)
  then show ?case by (simp add: digits_value_def append_assoc [symmetric] algebra_simps del: append_assoc)
qed (simp add: digits_value_def)

lemma digits_value_Nil [simp]: "digits_value [] = 0"
  by (simp add: digits_value_def)

lemma digits_value_zeros [simp]: "digits_value (replicate n CHR ''0'') = 0"
  by (induction n) (simp_all add: digits_value_def)

lemma is_digit_0 [simp]: "is_digit CHR ''0''"
  by (simp add: is_digit_def)

lemma digit_not_sign: "is_digit c \<Longrightarrow> c \<notin> {CHR ''-'', CHR ''+'', CHR ''.'', CHR ''e'', CHR ''E''}"
  by (auto simp: is_digit_def)

text \<open>What can follow a number without being taken for a part of it.\<close>

definition ends_number :: "string \<Rightarrow> bool" where
  "ends_number rest \<longleftrightarrow> rest = [] \<or> (\<not> is_digit (hd rest) \<and> hd rest \<notin> {CHR ''.'', CHR ''e'', CHR ''E''})"

lemma takeWhile_digits:
  assumes "list_all is_digit ds" and "rest = [] \<or> \<not> is_digit (hd rest)"
  shows "takeWhile is_digit (ds @ rest) = ds" and "dropWhile is_digit (ds @ rest) = rest"
  using assms by (cases rest; auto simp: list_all_iff takeWhile_append2 dropWhile_append2)+

lemma read_digits_of:
  "list_all is_digit ds \<Longrightarrow> ds \<noteq> [] \<Longrightarrow> rest = [] \<or> \<not> is_digit (hd rest) \<Longrightarrow> read_digits (ds @ rest) = Some (ds, rest)"
  by (simp add: read_digits_def takeWhile_digits)

lemma read_integer_of:
  assumes "list_all is_digit ds" and "ds \<noteq> []" and "hd ds \<noteq> CHR ''0'' \<or> tl ds = []"
    and "rest = [] \<or> \<not> is_digit (hd rest)"
  shows "read_integer (ds @ rest) = Some (digits_value ds, rest)"
proof (cases ds)
  case (Cons c t)
  show ?thesis
  proof (cases "c = CHR ''0''")
    case True
    then show ?thesis using assms(3) Cons by (simp add: read_integer_def digits_value_def)
  next
    case False
    then show ?thesis
      using read_digits_of [OF assms(1,2,4)] Cons by (simp add: read_integer_def)
  qed
qed (use assms in simp)

lemma read_fraction_of:
  "list_all is_digit ds \<Longrightarrow> ds \<noteq> [] \<Longrightarrow> rest = [] \<or> \<not> is_digit (hd rest) \<Longrightarrow>
     read_fraction (CHR ''.'' # ds @ rest) = Some (of_nat (digits_value ds) / 10 ^ length ds, rest)"
  by (simp add: read_fraction_def read_digits_of)

lemma read_no_fraction: "rest = [] \<or> hd rest \<noteq> CHR ''.'' \<Longrightarrow> read_fraction rest = Some (0, rest)"
  by (cases rest) (simp_all add: read_fraction_def)

lemma read_no_exponent: "ends_number rest \<Longrightarrow> read_exponent rest = Some (1, rest)"
  by (cases rest) (simp_all add: read_exponent_def ends_number_def)

lemma read_exponent_of:
  assumes "list_all is_digit ds" and "ds \<noteq> []" and "ends_number rest"
  shows "read_exponent (CHR ''e'' # CHR ''-'' # ds @ rest) = Some (1 / 10 ^ digits_value ds, rest)"
    and "read_exponent (CHR ''e'' # CHR ''+'' # ds @ rest) = Some (10 ^ digits_value ds, rest)"
  using read_digits_of [OF assms(1,2)] assms(3) by (auto simp: read_exponent_def ends_number_def)

subsection \<open>The shortest decimal of a double\<close>

text \<open>The \<open>n\<close> with $10^{n-1} \le r < 10^n$.\<close>

fun lead_small :: "nat \<Rightarrow> rat \<Rightarrow> int" where
  "lead_small 0 r = 0"
| "lead_small (Suc k) r = (if 1 / 10 \<le> r then 0 else lead_small k (10 * r) - 1)"

function lead :: "rat \<Rightarrow> int" where
  "lead r = (if r < 1 then lead_small 324 r else lead (r / 10) + 1)"
  by pat_completeness auto
termination
proof (relation "measure (\<lambda>r. nat \<lfloor>r\<rfloor>)")
  fix r :: rat assume "\<not> r < 1"
  then have one: "1 \<le> \<lfloor>r\<rfloor>" by (simp add: le_floor_iff)
  then have "1 \<le> (of_int \<lfloor>r\<rfloor> :: rat)" by linarith
  then have "r / 10 < of_int \<lfloor>r\<rfloor>" using floor_correct [of r] by linarith
  then have "\<lfloor>r / 10\<rfloor> < \<lfloor>r\<rfloor>" by (simp add: floor_less_iff)
  moreover have "0 < \<lfloor>r\<rfloor>" using one by simp
  ultimately have "\<lfloor>r / 10\<rfloor> < \<lfloor>r\<rfloor>" and "0 < \<lfloor>r\<rfloor>" .
  then show "(r / 10, r) \<in> measure (\<lambda>r. nat \<lfloor>r\<rfloor>)" by simp
qed simp

declare lead.simps [simp del]

text \<open>The two whole numbers next to \<open>t\<close>, the nearer one first, the even one in a tie.\<close>

definition neighbours :: "rat \<Rightarrow> nat list" where
  "neighbours t =
     (let a = nat \<lfloor>t\<rfloor>; d = t - of_nat a
      in if d < 1 / 2 \<or> (d = 1 / 2 \<and> even a) then [a, a + 1] else [a + 1, a])"

fun shortest :: "rat \<Rightarrow> int \<Rightarrow> nat list \<Rightarrow> (nat \<times> int) option" where
  "shortest x n [] = None"
| "shortest x n (k # ks) =
     (let p = n - int k
      in case List.find (\<lambda>s. round_pos (of_nat s * 10 powi p) = x) (neighbours (x / 10 powi p)) of
           Some s \<Rightarrow> Some (s, p)
         | None \<Rightarrow> shortest x n ks)"

definition strip_zeros :: "string \<Rightarrow> string" where
  "strip_zeros ds = rev (dropWhile (\<lambda>c. c = CHR ''0'') (rev ds))"

text \<open>The digits \<open>ds\<close> with the decimal point after the first \<open>n\<close>.\<close>

definition place_point :: "string \<Rightarrow> int \<Rightarrow> string" where
  "place_point ds n =
     (let k = int (length ds)
      in if k \<le> n \<and> n \<le> 21 then ds @ replicate (nat (n - k)) CHR ''0''
         else if 0 < n \<and> n \<le> 21 then take (nat n) ds @ CHR ''.'' # drop (nat n) ds
         else if - 6 < n \<and> n \<le> 0 then ''0.'' @ replicate (nat (- n)) CHR ''0'' @ ds
         else hd ds # (if tl ds = [] then [] else CHR ''.'' # tl ds) @
              CHR ''e'' # (if n - 1 < 0 then CHR ''-'' else CHR ''+'') # nat_text (nat \<bar>n - 1\<bar>))"

definition positive_string :: "rat \<Rightarrow> string" where
  "positive_string x =
     (case shortest x (lead x) [1..<18] of
        None \<Rightarrow> []
      | Some (s, p) \<Rightarrow>
          let ds = nat_text s in place_point (strip_zeros ds) (p + int (length ds)))"

definition number_string :: "rat \<Rightarrow> string" where
  "number_string x =
     (if x = 0 then ''0'' else if x < 0 then CHR ''-'' # positive_string (- x) else positive_string x)"

text \<open>\<open>x.toFixed(d)\<close>: the nearest decimal with \<open>d\<close> digits after the point, the larger in a tie.\<close>

definition fixed_pos :: "nat \<Rightarrow> rat \<Rightarrow> string" where
  "fixed_pos d x =
     (let ds = nat_text (nat (round (x * 10 ^ d)));
          padded = replicate (d + 1 - length ds) CHR ''0'' @ ds;
          k = length padded - d
      in if d = 0 then ds else take k padded @ CHR ''.'' # drop k padded)"

definition to_fixed :: "nat \<Rightarrow> rat \<Rightarrow> string" where
  "to_fixed d x =
     (if 10 ^ 21 \<le> \<bar>x\<bar> then number_string x
      else if x < 0 then CHR ''-'' # fixed_pos d (- x) else fixed_pos d x)"

lemma lead_small_spec:
  "1 / 10 ^ Suc k \<le> r \<Longrightarrow> r < 1 \<Longrightarrow> 10 powi (lead_small k r - 1) \<le> r \<and> r < 10 powi lead_small k r"
proof (induction k arbitrary: r)
  case (Suc k)
  show ?case
  proof (cases "1 / 10 \<le> r")
    case False
    then have "10 powi (lead_small k (10 * r) - 1) \<le> 10 * r \<and> 10 * r < 10 powi lead_small k (10 * r)"
      using Suc.prems by (intro Suc.IH) (simp_all add: field_simps)
    then show ?thesis
      using False by (simp add: power_int_diff)
  qed (use Suc in simp)
qed simp

lemma lead_spec: "1 / 10 ^ 325 \<le> r \<Longrightarrow> 10 powi (lead r - 1) \<le> r \<and> r < 10 powi lead r"
proof (induction r rule: lead.induct)
  case (1 r)
  show ?case
  proof (cases "r < 1")
    case True
    then show ?thesis
      using 1(2) lead_small_spec [of 324 r] by (subst (1 2) lead.simps) (simp del: power_numeral)
  next
    case False
    have "(1 / 10 ^ 325 :: rat) \<le> 1 / 10 ^ 1" by (intro divide_left_mono power_increasing) simp_all
    then have "10 powi (lead (r / 10) - 1) \<le> r / 10 \<and> r / 10 < 10 powi lead (r / 10)"
      using False by (intro 1(1)) simp_all
    then show ?thesis
      using False by (subst (1 2) lead.simps) (simp add: power_int_diff power_int_add)
  qed
qed

lemma shortest_rounds: "shortest x n ks = Some (s, p) \<Longrightarrow> round_pos (of_nat s * 10 powi p) = x"
  by (induction ks) (auto simp: Let_def find_Some_iff split: option.splits)

lemma neighbour_near: "0 \<le> t \<Longrightarrow> \<bar>of_nat (hd (neighbours t)) - t\<bar> \<le> 1 / 2"
  unfolding neighbours_def Let_def using floor_correct [of t] by (auto simp: abs_le_iff)

text \<open>A decimal of 17 digits next to a double is closer to it than the doubles are apart.\<close>

lemma seventeen_digits:
  assumes "0 < x" and "round_pos x = x" and "10 powi (n - 1) \<le> x" and "17 \<in> set ks"
  shows "\<exists>s p. shortest x n ks = Some (s, p)"
  using assms(4)
proof (induction ks)
  case (Cons k ks)
  let ?p = "n - 17"
  let ?s = "hd (neighbours (x / 10 powi ?p))"
  have ten: "0 < (10 powi i :: rat)" for i by simp
  have "10 powi (n - 1) = (10 powi ?p :: rat) * 10 ^ 16"
    using power_int_add [of "10 :: rat" ?p 16] by (simp add: algebra_simps)
  then have "10 powi ?p \<le> x / 10 ^ 16"
    using assms(3) by simp
  moreover have "\<bar>of_nat ?s - x / 10 powi ?p\<bar> * 10 powi ?p \<le> 1 / 2 * 10 powi ?p"
    using neighbour_near [of "x / 10 powi ?p"] assms(1) ten [of ?p] by (intro mult_right_mono) simp_all
  moreover have "(of_nat ?s - x / 10 powi ?p) * 10 powi ?p = of_nat ?s * 10 powi ?p - x"
    using ten [of ?p] by (simp add: left_diff_distrib)
  then have "\<bar>of_nat ?s - x / 10 powi ?p\<bar> * 10 powi ?p = \<bar>of_nat ?s * 10 powi ?p - x\<bar>"
    using ten [of ?p] by (metis abs_mult abs_of_pos)
  moreover have "x / 10 ^ 16 / 2 < x / 2 ^ 54"
    using assms(1) by simp
  ultimately have "\<bar>of_nat ?s * 10 powi ?p - x\<bar> < x / 2 ^ 54" by simp
  then have "round_pos (of_nat ?s * 10 powi ?p) = x"
    by (rule round_pos_near [OF assms(1,2)])
  moreover have "?s \<in> set (neighbours (x / 10 powi ?p))"
    by (simp add: neighbours_def Let_def)
  ultimately have "List.find (\<lambda>s. round_pos (of_nat s * 10 powi ?p) = x) (neighbours (x / 10 powi ?p)) \<noteq> None"
    by (auto simp: find_None_iff)
  then show ?case
    using Cons by (auto simp: Let_def split: option.split)
qed simp

subsection \<open>Reading what is printed\<close>

lemma strip_zeros_spec: "\<exists>m. ds = strip_zeros ds @ replicate m CHR ''0''"
proof -
  have "takeWhile (\<lambda>c. c = CHR ''0'') (rev ds) = replicate (length (takeWhile (\<lambda>c. c = CHR ''0'') (rev ds))) CHR ''0''"
    by (rule replicate_eqI) (auto dest: set_takeWhileD)
  then have "rev ds = replicate (length (takeWhile (\<lambda>c. c = CHR ''0'') (rev ds))) CHR ''0'' @ rev (strip_zeros ds)"
    by (metis strip_zeros_def rev_rev_ident takeWhile_dropWhile_id)
  then have "ds = strip_zeros ds @ replicate (length (takeWhile (\<lambda>c. c = CHR ''0'') (rev ds))) CHR ''0''"
    by (metis rev_append rev_replicate rev_rev_ident)
  then show ?thesis ..
qed

lemma nat_text_digits: "list_all is_digit (nat_text n)" "digits_value (nat_text n) = n" "nat_text n \<noteq> []"
  "hd (nat_text n) \<noteq> CHR ''0'' \<or> tl (nat_text n) = []"
  using nat_text_spec [of n] by (auto simp: list_all_iff)

lemma ends_numberD: "ends_number rest \<Longrightarrow> rest = [] \<or> \<not> is_digit (hd rest)"
  "ends_number rest \<Longrightarrow> rest = [] \<or> hd rest \<noteq> CHR ''.''"
  by (auto simp: ends_number_def)

lemma ten_powi_diff: "(10 powi (n - int k) :: rat) = 10 powi n / 10 ^ k"
  by (simp add: power_int_diff)

lemma read_placed:
  assumes ds: "list_all is_digit ds" "ds \<noteq> []" "hd ds \<noteq> CHR ''0''" and rest: "ends_number rest"
  shows "read_unsigned (place_point ds n @ rest) = Some (of_nat (digits_value ds) * 10 powi (n - int (length ds)), rest)"
proof -
  let ?k = "int (length ds)" and ?z = "\<lambda>m. replicate m CHR ''0''"
  note end1 = ends_numberD [OF rest] and noexp = read_no_exponent [OF rest]
  consider (whole) "?k \<le> n \<and> n \<le> 21" | (point) "0 < n" "n < ?k" "n \<le> 21" | (small) "- 6 < n" "n \<le> 0"
    | (exp) "\<not> (?k \<le> n \<and> n \<le> 21)" "\<not> (0 < n \<and> n \<le> 21)" "\<not> (- 6 < n \<and> n \<le> 0)"
    by linarith
  then show ?thesis
  proof cases
    case whole
    let ?m = "nat (n - ?k)"
    have "read_integer ((ds @ ?z ?m) @ rest) = Some (digits_value (ds @ ?z ?m), rest)"
      using ds end1 by (intro read_integer_of) (auto simp: list_all_iff)
    moreover have "digits_value (ds @ ?z ?m) = digits_value ds * 10 ^ ?m"
      by (simp add: digits_value_append)
    moreover have "(10 powi (n - ?k) :: rat) = 10 ^ ?m"
      using whole by (simp add: power_int_def)
    ultimately show ?thesis
      using whole read_no_fraction [OF end1(2)] noexp by (simp add: place_point_def read_unsigned_def)
  next
    case point
    let ?a = "take (nat n) ds" and ?b = "drop (nat n) ds"
    have parts: "list_all is_digit ?a" "list_all is_digit ?b" "?a \<noteq> []" "?b \<noteq> []" "hd ?a = hd ds"
      using ds point by (auto simp: list_all_iff dest: in_set_takeD in_set_dropD)
    have "read_integer (?a @ CHR ''.'' # ?b @ rest) = Some (digits_value ?a, CHR ''.'' # ?b @ rest)"
      using parts ds by (intro read_integer_of) (simp_all add: is_digit_def)
    moreover have "read_fraction (CHR ''.'' # ?b @ rest) = Some (of_nat (digits_value ?b) / 10 ^ length ?b, rest)"
      using parts end1 by (intro read_fraction_of) simp_all
    moreover have "digits_value ds = digits_value ?a * 10 ^ length ?b + digits_value ?b"
      using digits_value_append [of ?a ?b] by simp
    moreover have "n - ?k = - int (length ?b)"
      using point by simp
    then have "(10 powi (n - ?k) :: rat) = 1 / 10 ^ length ?b"
      by (simp only: power_int_minus power_int_of_nat inverse_eq_divide)
    ultimately show ?thesis
      using point noexp by (simp add: place_point_def read_unsigned_def add_divide_distrib del: length_drop)
  next
    case small
    let ?f = "?z (nat (- n)) @ ds"
    have "read_integer (''0'' @ CHR ''.'' # ?f @ rest) = Some (0, CHR ''.'' # ?f @ rest)"
      by (simp add: read_integer_def)
    moreover have "read_fraction (CHR ''.'' # ?f @ rest) = Some (of_nat (digits_value ?f) / 10 ^ length ?f, rest)"
      using ds end1 by (intro read_fraction_of) (auto simp: list_all_iff)
    moreover have "digits_value ?f = digits_value ds"
      by (simp add: digits_value_append)
    moreover have "n - ?k = - int (length ?f)"
      using small by simp
    then have "(10 powi (n - ?k) :: rat) = 1 / 10 ^ length ?f"
      by (simp only: power_int_minus power_int_of_nat inverse_eq_divide)
    moreover have "place_point ds n = ''0'' @ CHR ''.'' # ?f"
      using small ds(2) by (cases ds) (simp_all add: place_point_def)
    ultimately show ?thesis
      using noexp
      by (simp add: read_unsigned_def del: length_append length_replicate)
  next
    case exp
    obtain c t where ct: "ds = c # t" using ds(2) by (cases ds) auto
    have c: "list_all is_digit [c]" "list_all is_digit t" "c \<noteq> CHR ''0''" using ds ct by simp_all
    define e where "e = CHR ''e'' # (if n - 1 < 0 then CHR ''-'' else CHR ''+'') # nat_text (nat \<bar>n - 1\<bar>) @ rest"
    have tail: "\<not> is_digit (hd e)" "hd e \<noteq> CHR ''.''" "e \<noteq> []"
      by (simp_all add: e_def is_digit_def)
    have "read_exponent e = Some (10 powi (n - 1), rest)"
      using read_exponent_of [OF nat_text_digits(1,3) rest, of "nat \<bar>n - 1\<bar>"]
      by (auto simp: e_def nat_text_digits power_int_def inverse_eq_divide power_one_over)
    moreover have "read_integer ([c] @ r) = Some (digits_value [c], r)" if "\<not> is_digit (hd r)" for r
      using c that by (intro read_integer_of) simp_all
    moreover have "read_fraction (CHR ''.'' # t @ e) = Some (of_nat (digits_value t) / 10 ^ length t, e)" if "t \<noteq> []"
      using c that tail by (intro read_fraction_of) simp_all
    moreover have "read_fraction e = Some (0, e)"
      using tail by (intro read_no_fraction) simp
    moreover have "place_point ds n @ rest = [c] @ (if t = [] then e else CHR ''.'' # t @ e)"
      unfolding place_point_def Let_def by (simp only: exp if_False) (simp add: ct e_def)
    moreover have "digits_value ds = digits_value [c] * 10 ^ length t + digits_value t"
      using digits_value_append [of "[c]" t] ct by simp
    moreover have "n - ?k = n - 1 - int (length t)" using ct by simp
    then have "(10 powi (n - ?k) :: rat) = 10 powi (n - 1) / 10 ^ length t"
      by (simp only: ten_powi_diff)
    moreover have "\<not> is_digit CHR ''.''" by (simp add: is_digit_def)
    ultimately show ?thesis
      using tail by (cases "t = []") (simp_all add: read_unsigned_def add_divide_distrib ring_distribs)
  qed
qed

text \<open>The text of a double is the text of a decimal that is rounded to it.\<close>

lemma read_positive_string:
  assumes "0 < x" and "round_pos x = x" and "1 / 10 ^ 325 \<le> x" and "ends_number rest"
  shows "\<exists>d. read_unsigned (positive_string x @ rest) = Some (d, rest) \<and> 0 \<le> d \<and> round_pos d = x"
proof -
  obtain s p where found: "shortest x (lead x) [1..<18] = Some (s, p)"
    using seventeen_digits [OF assms(1,2) conjunct1 [OF lead_spec [OF assms(3)]], of "[1..<18]"] by auto
  then have rounds: "round_pos (of_nat s * 10 powi p) = x" by (rule shortest_rounds)
  then have s: "s \<noteq> 0" using assms(1) by (cases "s = 0") simp_all
  let ?all = "nat_text s" and ?ds = "strip_zeros (nat_text s)"
  obtain m where m: "?all = ?ds @ replicate m CHR ''0''"
    using strip_zeros_spec by blast
  have val: "s = digits_value ?ds * 10 ^ m"
    using arg_cong [OF m, of digits_value]
    by (simp only: digits_value_append digits_value_zeros nat_text_digits length_replicate add_0_right)
  then have ne: "?ds \<noteq> []" using s by auto
  have "list_all is_digit ?ds" "hd ?ds = hd ?all"
    using nat_text_digits(1) [of s] by (metis list_all_append m) (metis hd_append2 m ne)
  moreover have "hd ?all \<noteq> CHR ''0''"
    using nat_text_spec [of s] s by (auto simp: digits_value_def)
  ultimately have "read_unsigned (place_point ?ds (p + int (length ?all)) @ rest)
      = Some (of_nat (digits_value ?ds) * 10 powi (p + int (length ?all) - int (length ?ds)), rest)"
    using ne assms(4) by (intro read_placed) simp_all
  moreover have "length ?all = length ?ds + m"
    using m by (metis length_append length_replicate)
  then have "(10 powi (p + int (length ?all) - int (length ?ds)) :: rat) = 10 powi p * 10 ^ m"
    by (simp add: power_int_add)
  moreover have "(of_nat s :: rat) = of_nat (digits_value ?ds) * 10 ^ m"
    using arg_cong [OF val, of "of_nat :: nat \<Rightarrow> rat"] by simp
  ultimately have "read_unsigned (positive_string x @ rest) = Some (of_nat s * 10 powi p, rest)"
    using found by (simp add: positive_string_def Let_def mult.commute mult.left_commute)
  then show ?thesis
    using rounds by simp
qed

lemma fixed_pos_parts:
  fixes d :: nat and n :: nat
  defines "padded \<equiv> replicate (d + 1 - length (nat_text n)) CHR ''0'' @ nat_text n"
  shows "list_all is_digit padded" "digits_value padded = n" "d < length padded"
    "hd padded \<noteq> CHR ''0'' \<or> length padded = d + 1"
proof -
  show "list_all is_digit padded" "digits_value padded = n" "d < length padded"
    by (auto simp: padded_def list_all_iff digits_value_append nat_text_digits [unfolded list_all_iff])
  show "hd padded \<noteq> CHR ''0'' \<or> length padded = d + 1"
    using nat_text_digits(3,4) [of n] by (cases "d + 1 \<le> length (nat_text n)"; cases "nat_text n") (auto simp: padded_def)
qed

text \<open>\<open>toFixed\<close> shows the number to within half a unit of the last digit.\<close>

lemma read_fixed_pos:
  assumes "0 \<le> x" and rest: "ends_number rest"
  shows "\<exists>v. read_unsigned (fixed_pos d x @ rest) = Some (v, rest) \<and> \<bar>v - x\<bar> \<le> 1 / (2 * 10 ^ d)"
proof -
  let ?i = "round (x * 10 ^ d)"
  let ?n = "nat ?i"
  let ?v = "of_nat ?n / 10 ^ d :: rat"
  have "0 \<le> ?i" using round_mono [of 0 "x * 10 ^ d"] assms(1) by simp
  then have "\<bar>of_nat ?n - x * 10 ^ d\<bar> \<le> 1 / 2"
    using of_int_round_abs_le [of "x * 10 ^ d"] by simp
  then have close: "\<bar>?v - x\<bar> \<le> 1 / (2 * 10 ^ d)"
    by (simp add: abs_le_iff field_simps)
  note end1 = ends_numberD [OF rest] and noexp = read_no_exponent [OF rest]
  have "read_unsigned (fixed_pos d x @ rest) = Some (?v, rest)"
  proof (cases "d = 0")
    case True
    then show ?thesis
      using read_integer_of [OF nat_text_digits(1,3,4) end1(1)] read_no_fraction [OF end1(2)] noexp
      by (simp add: fixed_pos_def read_unsigned_def nat_text_digits)
  next
    case False
    define p where "p = replicate (d + 1 - length (nat_text ?n)) CHR ''0'' @ nat_text ?n"
    let ?k = "length p - d"
    let ?a = "take ?k p" and ?b = "drop ?k p"
    note parts = fixed_pos_parts [of d ?n, folded p_def]
    have ab: "list_all is_digit ?a" "list_all is_digit ?b" "?a \<noteq> []" "?b \<noteq> []" "length ?b = d"
      using parts(1,3) False by (auto simp: list_all_iff dest: in_set_takeD in_set_dropD)
    moreover have "hd ?a \<noteq> CHR ''0'' \<or> tl ?a = []"
      using parts(3,4) by (cases p) (auto simp: take_Cons split: nat.split)
    ultimately have "read_integer (?a @ CHR ''.'' # ?b @ rest) = Some (digits_value ?a, CHR ''.'' # ?b @ rest)"
      by (intro read_integer_of) (simp_all add: is_digit_def)
    moreover have "read_fraction (CHR ''.'' # ?b @ rest) = Some (of_nat (digits_value ?b) / 10 ^ d, rest)"
      using read_fraction_of [OF ab(2,4) end1(1)] ab(5) by simp
    moreover have "?n = digits_value ?a * 10 ^ d + digits_value ?b"
      using digits_value_append [of ?a ?b] parts(2) ab(5) by (simp only: append_take_drop_id)
    then have "?v = of_nat (digits_value ?a) + of_nat (digits_value ?b) / 10 ^ d"
      by (metis (no_types, lifting) add_divide_distrib nonzero_mult_div_cancel_right of_nat_add of_nat_mult of_nat_numeral of_nat_power power_not_zero zero_neq_numeral)
    moreover have "fixed_pos d x = ?a @ CHR ''.'' # ?b"
      using False by (simp add: fixed_pos_def Let_def p_def)
    ultimately show ?thesis
      using noexp by (simp add: read_unsigned_def del: append_take_drop_id)
  qed
  then show ?thesis using close by blast
qed

lemma read_unsigned_no_sign: "read_unsigned s = Some (r, t) \<Longrightarrow> \<exists>c u. s = c # u \<and> is_digit c"
  by (cases s) (auto simp: read_unsigned_def read_integer_def read_digits_def Let_def bind_eq_Some_conv
      split: if_splits)

lemma read_decimal_unsigned: "read_unsigned s = Some (r, t) \<Longrightarrow> read_decimal s = Some (r, t)"
  using read_unsigned_no_sign digit_not_sign by (fastforce simp: read_decimal_def)

lemma read_decimal_minus: "read_unsigned s = Some (r, t) \<Longrightarrow> read_decimal (CHR ''-'' # s) = Some (- r, t)"
  by (simp add: read_decimal_def)

text \<open>What the language prints for a number it reads back as that number.\<close>

theorem number_string_read:
  assumes "is_double x" and "ends_number rest"
  shows "read_number (number_string x @ rest) = Some (x, rest)"
proof -
  have pos: "\<exists>d. read_unsigned (positive_string y @ rest) = Some (d, rest) \<and> to_double d = Some y"
    if "0 < y" "is_double y" for y
  proof -
    have fixed: "round_pos y = y"
      using that is_doubleD(1) [of y] by (simp add: round_double_def)
    have "(1 / 10 ^ 325 :: rat) \<le> 1 / 2 ^ 1074" by simp
    then have "1 / 10 ^ 325 \<le> y"
      using round_pos_least [OF that(1) fixed] by (rule order_trans)
    from read_positive_string [OF that(1) fixed this assms(2)]
    obtain d where "read_unsigned (positive_string y @ rest) = Some (d, rest)" "0 \<le> d" "round_pos d = y"
      by blast
    then have "to_double d = to_double y"
      using is_doubleD(1) [OF that(2)] round_double_pos [of d] by (simp only: to_double_def)
    then show ?thesis
      using \<open>read_unsigned _ = Some (d, rest)\<close> that(2) by (auto simp: is_double_def)
  qed
  consider "x = 0" | "0 < x" | "0 < - x" by linarith
  then show ?thesis
  proof cases
    case 1
    have "read_integer (''0'' @ rest) = Some (0, rest)" by (simp add: read_integer_def)
    then have "read_unsigned (''0'' @ rest) = Some (0, rest)"
      using read_no_fraction [OF ends_numberD(2) [OF assms(2)]] read_no_exponent [OF assms(2)]
      by (simp add: read_unsigned_def)
    then have "read_decimal (''0'' @ rest) = Some (0, rest)" by (rule read_decimal_unsigned)
    then show ?thesis
      using 1 assms(1) by (simp add: number_string_def read_number_def is_double_def)
  next
    case 2
    then obtain d where "read_unsigned (positive_string x @ rest) = Some (d, rest)" "to_double d = Some x"
      using pos assms(1) by blast
    then show ?thesis
      using 2 read_decimal_unsigned by (simp add: number_string_def read_number_def)
  next
    case 3
    then obtain d where "read_unsigned (positive_string (- x) @ rest) = Some (d, rest)" "to_double d = Some (- x)"
      using pos [of "- x"] assms(1) by auto
    moreover from this have "to_double (- d) = Some x"
      by (simp add: to_double_def Let_def split: if_splits)
    ultimately show ?thesis
      using 3 read_decimal_minus by (simp add: number_string_def read_number_def)
  qed
qed

theorem to_fixed_read:
  assumes "\<bar>x\<bar> < 10 ^ 21" and "ends_number rest"
  shows "\<exists>v. read_decimal (to_fixed d x @ rest) = Some (v, rest) \<and> \<bar>v - x\<bar> \<le> 1 / (2 * 10 ^ d)"
proof (cases "x < 0")
  case True
  then obtain v where "read_unsigned (fixed_pos d (- x) @ rest) = Some (v, rest)" "\<bar>v - (- x)\<bar> \<le> 1 / (2 * 10 ^ d)"
    using read_fixed_pos [OF _ assms(2), of "- x" d] by auto
  then show ?thesis
    using True assms(1) read_decimal_minus by (intro exI [of _ "- v"]) (simp add: to_fixed_def abs_minus_commute)
next
  case False
  then obtain v where "read_unsigned (fixed_pos d x @ rest) = Some (v, rest)" "\<bar>v - x\<bar> \<le> 1 / (2 * 10 ^ d)"
    using read_fixed_pos [OF _ assms(2), of x d] by auto
  then show ?thesis
    using False assms(1) read_decimal_unsigned by (intro exI [of _ v]) (simp add: to_fixed_def)
qed

end
