(* ===== verification/Js_Values.thy ===== *)
theory Js_Values
  imports NumberText
begin

section \<open>The JavaScript values and library functions the dashboard uses\<close>

text \<open>
  The part of the language and of its standard library that the dashboard's code relies on:
  JSON values as the network and the identity provider deliver them, \<open>undefined\<close> and
  \<open>null\<close>, the operators \<open>??\<close>, \<open>||\<close> and property access, arrays with holes,
  the insertion-ordered \<open>Set\<close>, and the string functions.  A value that may be
  \<open>undefined\<close> is an \<open>option\<close>.  A \<open>string\<close> stands for a JavaScript string of
  ASCII code units.  An exception is a value of \<open>js_error\<close>, on the left of a sum.
\<close>

datatype js_error = TypeError | RangeError | SyntaxError | URIError | InvalidStateError | RenderError

datatype json =
    JNull
  | JBool bool
  | JNum rat
  | JStr string
  | JArr "json list"
  | JObj "(string \<times> json) list"

subsection \<open>Arrays\<close>

text \<open>A write past the end extends the array with holes; a read past the end is \<open>undefined\<close>.\<close>

definition array_set :: "'a option list \<Rightarrow> nat \<Rightarrow> 'a \<Rightarrow> 'a option list" where
  "array_set xs i x =
     (if i < length xs then xs[i := Some x]
      else xs @ replicate (i - length xs) None @ [Some x])"

definition array_get :: "'a option list \<Rightarrow> nat option \<Rightarrow> 'a option" where
  "array_get xs i =
     (case i of None \<Rightarrow> None | Some n \<Rightarrow> if n < length xs then xs ! n else None)"

text \<open>The remainder of two non-negative integers; \<open>None\<close> is \<open>NaN\<close>.\<close>

definition js_mod :: "nat \<Rightarrow> nat \<Rightarrow> nat option" where
  "js_mod a b = (if b = 0 then None else Some (a mod b))"

lemma array_get_Some [js_simps]: "n < length xs \<Longrightarrow> array_get xs (Some n) = xs ! n"
  by (simp add: array_get_def)

lemma array_set_inside [js_simps]: "n < length xs \<Longrightarrow> array_set xs n x = xs[n := Some x]"
  by (simp add: array_set_def)

lemma js_mod_pos [js_simps]: "0 < b \<Longrightarrow> js_mod a b = Some (a mod b)"
  by (simp add: js_mod_def)

subsection \<open>undefined, null and property access\<close>

text \<open>\<open>x ?? d\<close>: the default replaces \<open>undefined\<close> and \<open>null\<close> only.\<close>

fun nullish :: "json option \<Rightarrow> json \<Rightarrow> json" where
  "nullish None d = d"
| "nullish (Some JNull) d = d"
| "nullish (Some v) d = v"

lemma nullish_cases: "nullish v d = (if v = None \<or> v = Some JNull then d else the v)"
  by (cases v; cases "the v") auto

text \<open>
  \<open>v.key\<close> for a key that no array, string, number or boolean has: \<open>null\<close> and
  \<open>undefined\<close> raise, an object is looked up, anything else answers \<open>undefined\<close>.
\<close>

fun get_prop :: "json option \<Rightarrow> string \<Rightarrow> js_error + json option" where
  "get_prop None key = Inl TypeError"
| "get_prop (Some JNull) key = Inl TypeError"
| "get_prop (Some (JObj kvs)) key = Inr (map_of kvs key)"
| "get_prop (Some v) key = Inr None"

text \<open>A property of a value known to be an object, and \<open>===\<close> with a string.\<close>

definition field :: "json \<Rightarrow> string \<Rightarrow> json option" where
  "field v key = (case v of JObj kvs \<Rightarrow> map_of kvs key | _ \<Rightarrow> None)"

definition is_string :: "json option \<Rightarrow> string \<Rightarrow> bool" where
  "is_string v s \<longleftrightarrow> v = Some (JStr s)"

text \<open>A string is falsy when it is empty; \<open>null\<close> and \<open>undefined\<close> are falsy.\<close>

definition truthy_str :: "string option \<Rightarrow> bool" where
  "truthy_str s \<longleftrightarrow> s \<noteq> None \<and> s \<noteq> Some []"

subsection \<open>The insertion-ordered Set\<close>

text \<open>
  A \<open>Set\<close> is the list of its elements in insertion order, without repetition;
  spreading one gives that list.
\<close>

definition set_add :: "'a \<Rightarrow> 'a list \<Rightarrow> 'a list" where
  "set_add x s = (if x \<in> set s then s else s @ [x])"

definition set_delete :: "'a \<Rightarrow> 'a list \<Rightarrow> 'a list" where
  "set_delete x s = filter (\<lambda>y. y \<noteq> x) s"

definition new_Set :: "'a list \<Rightarrow> 'a list" where
  "new_Set xs = foldl (\<lambda>s x. set_add x s) [] xs"

lemma set_set_add [simp]: "set (set_add x s) = insert x (set s)"
  by (auto simp: set_add_def)

lemma set_set_delete [simp]: "set (set_delete x s) = set s - {x}"
  by (auto simp: set_delete_def)

lemma distinct_set_add [intro]: "distinct s \<Longrightarrow> distinct (set_add x s)"
  by (simp add: set_add_def)

lemma distinct_set_delete [intro]: "distinct s \<Longrightarrow> distinct (set_delete x s)"
  by (simp add: set_delete_def)

lemma set_delete_absent: "x \<notin> set s \<Longrightarrow> set_delete x s = s"
  by (induction s) (auto simp: set_delete_def)

lemma set_new_Set [simp]: "set (new_Set xs) = set xs"
  by (induction xs rule: rev_induct) (auto simp: new_Set_def)

lemma distinct_new_Set [simp]: "distinct (new_Set xs)"
  by (induction xs rule: rev_induct) (auto simp: new_Set_def)

subsection \<open>The Map built from a list of entries\<close>

text \<open>\<open>new Map(entries)\<close>: a later entry for the same key replaces the earlier one.\<close>

definition new_Map :: "('k \<times> 'v) list \<Rightarrow> ('k \<rightharpoonup> 'v)" where
  "new_Map entries = foldl (\<lambda>m (k, v). m(k \<mapsto> v)) Map.empty entries"

lemma new_Map_map_of: "new_Map entries = map_of (rev entries)"
  by (induction entries rule: rev_induct) (auto simp: new_Map_def)

subsection \<open>Strings\<close>

text \<open>White space and line terminators among the ASCII code units.\<close>

definition js_space :: "char \<Rightarrow> bool" where
  "js_space c \<longleftrightarrow> (let n = of_char c :: nat in n = 32 \<or> 9 \<le> n \<and> n \<le> 13)"

definition trim :: "string \<Rightarrow> string" where
  "trim s = rev (dropWhile js_space (rev (dropWhile js_space s)))"

text \<open>\<open>s.split(c)\<close> for a one-character separator: one more part than separators.\<close>

fun split_at :: "char \<Rightarrow> string \<Rightarrow> string list" where
  "split_at c [] = [[]]"
| "split_at c (x # xs) =
     (if x = c then [] # split_at c xs
      else case split_at c xs of [] \<Rightarrow> [[x]] | p # ps \<Rightarrow> (x # p) # ps)"

lemma split_at_nonempty: "split_at c s \<noteq> []"
  by (induction s) (auto split: list.split)

lemma split_at_absent: "c \<notin> set s \<Longrightarrow> split_at c s = [s]"
  by (induction s) auto

lemma split_at_append_sep: "c \<notin> set s \<Longrightarrow> split_at c (s @ c # t) = s # split_at c t"
  by (induction s) (auto split: list.split)

lemma length_split_at: "length (split_at c s) = Suc (count_list s c)"
  by (induction s) (auto split: list.split simp: split_at_nonempty)

lemma count_list_append [simp]: "count_list (xs @ ys) x = count_list xs x + count_list ys x"
  by (induction xs) auto

text \<open>\<open>s.split(/[...]+/)\<close>: every maximal run of separator characters is one separator.\<close>

function split_runs :: "(char \<Rightarrow> bool) \<Rightarrow> string \<Rightarrow> string list" where
  "split_runs p s =
     (case dropWhile (\<lambda>c. \<not> p c) s of
        [] \<Rightarrow> [s]
      | _ # rest \<Rightarrow> takeWhile (\<lambda>c. \<not> p c) s # split_runs p (dropWhile p rest))"
  by pat_completeness auto
termination
proof (relation "measure (\<lambda>(p, s). length s)", simp)
  fix p s c rest
  assume "dropWhile (\<lambda>c. \<not> p c) s = c # rest"
  then have "length rest < length s"
    by (metis impossible_Cons length_dropWhile_le linorder_not_less order_trans)
  then show "((p, dropWhile p rest), p, s) \<in> measure (\<lambda>(p, s). length s)"
    using length_dropWhile_le [of p rest] by simp
qed

declare split_runs.simps [simp del]

definition join :: "string \<Rightarrow> string list \<Rightarrow> string" where
  "join sep parts =
     (case parts of [] \<Rightarrow> [] | p # ps \<Rightarrow> p @ concat (map (\<lambda>q. sep @ q) ps))"

definition upper_char :: "char \<Rightarrow> char" where
  "upper_char c =
     (let n = of_char c :: nat in if 97 \<le> n \<and> n \<le> 122 then char_of (n - 32) else c)"

lemma upper_letters:
  "upper_char CHR ''a'' = CHR ''A''" "upper_char CHR ''r'' = CHR ''R''" "upper_char CHR ''w'' = CHR ''W''"
  by code_simp+

definition toUpperCase :: "string \<Rightarrow> string" where
  "toUpperCase s = map upper_char s"

definition starts_with :: "string \<Rightarrow> string \<Rightarrow> bool" where
  "starts_with s p \<longleftrightarrow> take (length p) s = p"

definition hex_digit :: "char \<Rightarrow> nat option" where
  "hex_digit c =
     (let n = of_char c :: nat
      in if 48 \<le> n \<and> n \<le> 57 then Some (n - 48)
         else if 65 \<le> n \<and> n \<le> 70 then Some (n - 55)
         else if 97 \<le> n \<and> n \<le> 102 then Some (n - 87) else None)"

text \<open>
  The string an operator or a template literal makes of a value.  An object reads the same
  whatever it holds, unless it has a property of its own named \<open>toString\<close>: that is no function
  in a JSON value, and the conversion of the object and of every array around it raises.
\<close>

fun to_text :: "json \<Rightarrow> string" where
  "to_text JNull = ''null''"
| "to_text (JBool b) = (if b then ''true'' else ''false'')"
| "to_text (JNum r) = number_string r"
| "to_text (JStr s) = s"
| "to_text (JArr vs) =
     join '','' (map (\<lambda>v. case v of JNull \<Rightarrow> [] | _ \<Rightarrow> to_text v) vs)"
| "to_text (JObj kvs) = ''[object Object]''"

fun convertible :: "json \<Rightarrow> bool" where
  "convertible (JObj kvs) = (map_of kvs ''toString'' = None)"
| "convertible (JArr vs) = list_all convertible vs"
| "convertible v = True"

text \<open>
  What React shows for a value used as a child: nothing for booleans and \<open>null\<close>, the elements
  of an array one after the other; an object is an error.
\<close>

fun react_text :: "json \<Rightarrow> js_error + string" where
  "react_text JNull = Inr []"
| "react_text (JBool b) = Inr []"
| "react_text (JNum r) = Inr (number_string r)"
| "react_text (JStr s) = Inr s"
| "react_text (JArr []) = Inr []"
| "react_text (JArr (v # vs)) =
     (case react_text v of
        Inl e \<Rightarrow> Inl e
      | Inr s \<Rightarrow> (case react_text (JArr vs) of Inl e \<Rightarrow> Inl e | Inr t \<Rightarrow> Inr (s @ t)))"
| "react_text (JObj kvs) = Inl RenderError"

text \<open>\<open>s || undefined\<close>\<close>

definition or_undefined :: "string \<Rightarrow> string option" where
  "or_undefined s = (if s = [] then None else Some s)"

subsection \<open>Computations that may raise\<close>

definition and_then :: "js_error + 'a \<Rightarrow> ('a \<Rightarrow> js_error + 'b) \<Rightarrow> js_error + 'b" where
  "and_then r f = (case r of Inl e \<Rightarrow> Inl e | Inr x \<Rightarrow> f x)"

lemma and_then_simps [simp]: "and_then (Inl e) f = Inl e" "and_then (Inr x) f = f x"
  by (simp_all add: and_then_def)

definition primitive :: "json option \<Rightarrow> js_error + json option" where
  "primitive v = (case v of Some j \<Rightarrow> if convertible j then Inr v else Inl TypeError | None \<Rightarrow> Inr v)"

definition template_text :: "json option \<Rightarrow> js_error + string" where
  "template_text v =
     and_then (primitive v) (\<lambda>_. Inr (case v of None \<Rightarrow> ''undefined'' | Some j \<Rightarrow> to_text j))"

lemma template_text_simps [simp]:
  "template_text None = Inr ''undefined''" "template_text (Some (JStr s)) = Inr s"
  by (simp_all add: template_text_def primitive_def)

lemma template_text_error: "template_text v = Inl e \<longleftrightarrow> e = TypeError \<and> (\<exists>j. v = Some j \<and> \<not> convertible j)"
  by (auto simp: template_text_def primitive_def split: option.splits)

text \<open>\<open>xs.map(f)\<close> for a function that may raise: the first exception ends it.\<close>

fun map_or_raise :: "('a \<Rightarrow> js_error + 'b) \<Rightarrow> 'a list \<Rightarrow> js_error + 'b list" where
  "map_or_raise f [] = Inr []"
| "map_or_raise f (x # xs) = and_then (f x) (\<lambda>y. and_then (map_or_raise f xs) (\<lambda>ys. Inr (y # ys)))"

lemma map_or_raise_Inr:
  "(\<And>x. x \<in> set xs \<Longrightarrow> f x = Inr (g x)) \<Longrightarrow> map_or_raise f xs = Inr (map g xs)"
  by (induction xs) auto

lemma map_or_raise_Inl:
  "x \<in> set xs \<Longrightarrow> f x = Inl e \<Longrightarrow> \<exists>e'. map_or_raise f xs = Inl e'"
  by (induction xs) (auto simp: and_then_def split: sum.split)

lemma list_all2_partner: "list_all2 P xs ys \<Longrightarrow> x \<in> set xs \<Longrightarrow> \<exists>y \<in> set ys. P x y"
  by (induction rule: list_all2_induct) auto

lemma list_all2_choice: "\<forall>x \<in> set xs. \<exists>y. P x y \<Longrightarrow> \<exists>ys. list_all2 P xs ys"
  by (induction xs) (auto intro: list_all2_Cons [THEN iffD2])

lemma map_or_raise_rows: "map_or_raise f xs = Inr ys \<Longrightarrow> list_all2 (\<lambda>x y. f x = Inr y) xs ys"
  by (induction xs arbitrary: ys) (auto simp: and_then_def split: sum.splits)

subsection \<open>What the engine and its locale print\<close>

text \<open>
  How a date is shown depends on the locale and the time zone of the browser: the local time of
  a date in milliseconds since the epoch (\<open>None\<close> is an invalid date) and the local date of a
  date given as text.
\<close>

record engine =
  time_string :: "int option \<Rightarrow> string"
  date_string :: "string \<Rightarrow> string"

text \<open>
  \<open>Number(s)\<close> for a string: white space around it is ignored, nothing is 0, a prefix selects a
  radix, a decimal may lack digits on one side of the point; \<open>None\<close> is \<open>NaN\<close>.  A value that
  overflows to an infinity is taken as \<open>NaN\<close> too.
\<close>

definition loose_decimal :: "string \<Rightarrow> rat option" where
  "loose_decimal s =
     (let ds = takeWhile is_digit s; r = dropWhile is_digit s;
          (fs, u) = (case r of c # t \<Rightarrow> if c = CHR ''.'' then (takeWhile is_digit t, dropWhile is_digit t) else ([], r)
                     | [] \<Rightarrow> ([], []))
      in if ds = [] \<and> fs = [] then None
         else (case read_exponent u of
                 Some (e, []) \<Rightarrow> Some ((of_nat (digits_value ds) + of_nat (digits_value fs) / 10 ^ length fs) * e)
               | _ \<Rightarrow> None))"

fun radix_value :: "nat \<Rightarrow> nat \<Rightarrow> string \<Rightarrow> nat option" where
  "radix_value b n [] = Some n"
| "radix_value b n (c # s) =
     (case hex_digit c of
        Some d \<Rightarrow> if d < b then radix_value b (b * n + d) s else None
      | None \<Rightarrow> None)"

definition radix_literal :: "string \<Rightarrow> rat option" where
  "radix_literal s =
     (case s of
        z # x # c # t \<Rightarrow>
          if z = CHR ''0'' \<and> x \<in> {CHR ''x'', CHR ''X''} then map_option of_nat (radix_value 16 0 (c # t))
          else if z = CHR ''0'' \<and> x \<in> {CHR ''o'', CHR ''O''} then map_option of_nat (radix_value 8 0 (c # t))
          else if z = CHR ''0'' \<and> x \<in> {CHR ''b'', CHR ''B''} then map_option of_nat (radix_value 2 0 (c # t))
          else None
      | _ \<Rightarrow> None)"

definition string_number :: "string \<Rightarrow> rat option" where
  "string_number s =
     (let t = trim s;
          r = (case radix_literal t of
                 Some r \<Rightarrow> Some r
               | None \<Rightarrow>
                   (case t of
                      [] \<Rightarrow> Some 0
                    | c # u \<Rightarrow>
                        if c = CHR ''-'' then map_option uminus (loose_decimal u)
                        else if c = CHR ''+'' then loose_decimal u
                        else loose_decimal t))
      in Option.bind r to_double)"

text \<open>
  The number an operand of an arithmetic operator becomes, if it is \<open>primitive\<close> or can be made so.
\<close>

definition to_number :: "json option \<Rightarrow> rat option" where
  "to_number v =
     (case v of
        None \<Rightarrow> None
      | Some JNull \<Rightarrow> Some 0
      | Some (JBool b) \<Rightarrow> Some (if b then 1 else 0)
      | Some (JNum r) \<Rightarrow> Some r
      | Some j \<Rightarrow> string_number (to_text j))"

text \<open>\<open>new Date(ms)\<close>: whole milliseconds within 100 million days of the epoch.\<close>

definition date_of :: "rat option \<Rightarrow> int option" where
  "date_of ms =
     (case ms of
        None \<Rightarrow> None
      | Some t \<Rightarrow> if \<bar>t\<bar> \<le> 8640000000000000 then Some (if t < 0 then \<lceil>t\<rceil> else \<lfloor>t\<rfloor>) else None)"

subsection \<open>Sorting with a comparator\<close>

text \<open>
  \<open>xs.sort(cmp)\<close> is stable, and a comparison that is \<open>NaN\<close> counts as 0.  For a comparator
  that is not a consistent order the language leaves the result to the engine; the model then
  takes insertion from the right.  An exception of the comparator ends the sorting.
\<close>

definition not_after :: "rat option \<Rightarrow> bool" where
  "not_after r = (case r of None \<Rightarrow> True | Some d \<Rightarrow> d \<le> 0)"

fun sort_insert :: "('a \<Rightarrow> 'a \<Rightarrow> js_error + rat option) \<Rightarrow> 'a \<Rightarrow> 'a list \<Rightarrow> js_error + 'a list" where
  "sort_insert cmp x [] = Inr [x]"
| "sort_insert cmp x (y # ys) =
     and_then (cmp x y) (\<lambda>r.
       if not_after r then Inr (x # y # ys)
       else and_then (sort_insert cmp x ys) (\<lambda>zs. Inr (y # zs)))"

fun js_sort :: "('a \<Rightarrow> 'a \<Rightarrow> js_error + rat option) \<Rightarrow> 'a list \<Rightarrow> js_error + 'a list" where
  "js_sort cmp [] = Inr []"
| "js_sort cmp (x # xs) = and_then (js_sort cmp xs) (sort_insert cmp x)"

lemma and_then_Inr: "and_then r f = Inr y \<longleftrightarrow> (\<exists>x. r = Inr x \<and> f x = Inr y)"
  by (cases r) auto

lemma and_then_Inl: "and_then r f = Inl e \<longleftrightarrow> r = Inl e \<or> (\<exists>x. r = Inr x \<and> f x = Inl e)"
  by (cases r) auto

lemma sort_insert_elements: "sort_insert cmp x ys = Inr zs \<Longrightarrow> set zs = insert x (set ys) \<and> length zs = Suc (length ys)"
  by (induction ys arbitrary: zs) (auto simp: and_then_Inr split: if_splits)

lemma js_sort_elements: "js_sort cmp xs = Inr ys \<Longrightarrow> set ys = set xs \<and> length ys = length xs"
  by (induction xs arbitrary: ys) (auto simp: and_then_Inr dest!: sort_insert_elements)

lemma js_sort_error: "js_sort cmp xs = Inl e \<Longrightarrow> \<exists>x y. cmp x y = Inl e"
proof (induction xs)
  case (Cons x xs)
  have "sort_insert cmp x ys = Inl e \<Longrightarrow> \<exists>x y. cmp x y = Inl e" for ys
    by (induction ys) (auto simp: and_then_Inl split: if_splits)
  then show ?case
    using Cons by (auto simp: and_then_Inl)
qed simp

text \<open>A comparator that subtracts numbers sorts by the key it subtracts.\<close>

lemma js_sort_key:
  assumes "\<And>x y. x \<in> set xs \<Longrightarrow> y \<in> set xs \<Longrightarrow> cmp x y = Inr (Some (key x - key y))"
  shows "js_sort cmp xs = Inr (sort_key key xs)"
  using assms
proof (induction xs)
  case (Cons x xs)
  have "sort_insert cmp x ys = Inr (insort_key key x ys)" if "set ys \<subseteq> set xs" for ys
    using that Cons.prems by (induction ys) (auto simp: not_after_def)
  then show ?case
    using Cons by simp
qed simp

text \<open>
  Every element of two or more is compared with another one: if comparing raises exactly for
  some bad elements, sorting raises exactly when there is one among at least two elements.
\<close>

lemma js_sort_raises:
  assumes "\<And>x y. (\<exists>e. cmp x y = Inl e) \<longleftrightarrow> bad x \<or> bad y"
  shows "(\<exists>e. js_sort cmp xs = Inl e) \<longleftrightarrow> 2 \<le> length xs \<and> (\<exists>x \<in> set xs. bad x)"
proof (induction xs)
  case (Cons x xs)
  have insert: "(\<exists>e. sort_insert cmp x ys = Inl e) \<longleftrightarrow> ys \<noteq> [] \<and> bad x" if "\<forall>y \<in> set ys. \<not> bad y" for ys
    using that
  proof (induction ys)
    case (Cons y ys)
    have "(\<exists>e. cmp x y = Inl e) \<longleftrightarrow> bad x"
      using assms Cons.prems by simp
    then show ?case
      using Cons by (cases "cmp x y") (auto simp: and_then_Inl)
  qed simp
  have some: "\<exists>e. sort_insert cmp x (y # ys) = Inl e" if "bad y" for y ys
    using assms [of x y] that by (auto simp: and_then_Inl)
  show ?case
  proof (cases "js_sort cmp xs")
    case (Inl e)
    then show ?thesis using Cons by auto
  next
    case (Inr ys)
    note same = js_sort_elements [OF Inr]
    show ?thesis
    proof (cases "\<exists>y \<in> set xs. bad y")
      case True
      then have "\<not> 2 \<le> length xs"
        using Cons Inr by simp
      with True obtain y where "xs = [y]" by (cases xs; cases "tl xs") auto
      then show ?thesis using Inr same True some by (auto simp: length_Suc_conv)
    next
      case False
      then have "(\<exists>e. sort_insert cmp x ys = Inl e) \<longleftrightarrow> xs \<noteq> [] \<and> bad x"
        using insert [of ys] same by (cases xs) auto
      then show ?thesis using Inr False by (cases xs) auto
    qed
  qed
qed simp

end
