(* ===== verification/AuthStore.thy ===== *)
theory AuthStore
  imports Js_Values
begin

section \<open>The session store (server/dashboard/src/store/authStore.ts)\<close>

text \<open>
  The zustand store of the operator's session and the three event listeners registered with
  \<open>oidc-client-ts\<close>.  The \<open>UserManager\<close> itself is not under src/: its promises enter
  the model as the results an event carries, and the calls made on it are recorded in
  \<open>oidc_calls\<close>.  The claims are unchecked casts of what the identity provider sent, so
  each is a JSON value.
\<close>

record oidc_user =
  profile :: "(string \<times> json) list"
  access_token :: string
  expired :: "bool option"

record auth_claims =
  claim_org_id :: json
  claim_vehicle_set :: json
  claim_role :: json
  claim_sub :: json
  claim_email :: "json option"

datatype oidc_call = SigninRedirect "(string \<times> string) list" | SignoutRedirect | SigninSilent

record auth_state =
  auth_user :: "oidc_user option"
  auth_token :: "string option"
  auth_claims :: "auth_claims option"
  oidc_calls :: "oidc_call list"

definition auth_init :: auth_state where
  "auth_init = \<lparr>auth_user = None, auth_token = None, auth_claims = None, oidc_calls = []\<rparr>"

definition parseClaims :: "oidc_user \<Rightarrow> auth_claims" where
  "parseClaims u =
     (let p = map_of (profile u)
      in \<lparr>claim_org_id = nullish (p ''org_id'') (JStr ''''),
          claim_vehicle_set = nullish (p ''vehicle_set'') (JArr []),
          claim_role = nullish (p ''role'') (JStr ''viewer''),
          claim_sub = nullish (p ''sub'') (JStr ''''),
          claim_email = p ''email''\<rparr>)"

lemma claim_role_parseClaims [simp]:
  "claim_role (parseClaims u) = nullish (map_of (profile u) ''role'') (JStr ''viewer'')"
  by (simp add: parseClaims_def Let_def)

definition isAdmin :: "auth_state \<Rightarrow> bool" where
  "isAdmin s = is_string (map_option claim_role (auth_claims s)) ''admin''"

text \<open>\<open>claims?.role ?? d\<close>\<close>

definition role_or :: "auth_state \<Rightarrow> json \<Rightarrow> json" where
  "role_or s d = nullish (map_option claim_role (auth_claims s)) d"

definition canCommand :: "auth_state \<Rightarrow> bool" where
  "canCommand s = (role_or s (JStr '''') \<in> set [JStr ''operator'', JStr ''admin''])"

definition call_oidc :: "oidc_call \<Rightarrow> auth_state \<Rightarrow> auth_state" where
  "call_oidc c s = s\<lparr>oidc_calls := oidc_calls s @ [c]\<rparr>"

definition set_session :: "oidc_user \<Rightarrow> auth_state \<Rightarrow> auth_state" where
  "set_session u s =
     s\<lparr>auth_user := Some u, auth_token := Some (access_token u),
       auth_claims := Some (parseClaims u)\<rparr>"

definition clear_session :: "auth_state \<Rightarrow> auth_state" where
  "clear_session s = s\<lparr>auth_user := None, auth_token := None, auth_claims := None\<rparr>"

definition login :: "auth_state \<Rightarrow> auth_state" where
  "login s = call_oidc (SigninRedirect []) s"

definition signup :: "auth_state \<Rightarrow> auth_state" where
  "signup s = call_oidc (SigninRedirect [(''kc_action'', ''register'')]) s"

definition logout :: "auth_state \<Rightarrow> auth_state" where
  "logout s = clear_session (call_oidc SignoutRedirect s)"

text \<open>The rest of \<open>handleCallback\<close> once \<open>signinRedirectCallback\<close> has settled.\<close>

definition handleCallback :: "js_error + oidc_user \<Rightarrow> auth_state \<Rightarrow> js_error + auth_state" where
  "handleCallback r s = (case r of Inl e \<Rightarrow> Inl e | Inr u \<Rightarrow> Inr (set_session u s))"

text \<open>\<open>user && !user.expired\<close>: an \<open>expired\<close> that is \<open>undefined\<close> counts as not expired.\<close>

definition loadExisting :: "js_error + oidc_user option \<Rightarrow> auth_state \<Rightarrow> auth_state" where
  "loadExisting r s =
     (case r of
        Inl e \<Rightarrow> s
      | Inr None \<Rightarrow> s
      | Inr (Some u) \<Rightarrow> if expired u = Some True then s else set_session u s)"

definition onUserLoaded :: "oidc_user \<Rightarrow> auth_state \<Rightarrow> auth_state" where
  "onUserLoaded u s = set_session u s"

definition onAccessTokenExpired :: "auth_state \<Rightarrow> auth_state" where
  "onAccessTokenExpired s = call_oidc SigninSilent s"

definition onSilentRenewError :: "auth_state \<Rightarrow> auth_state" where
  "onSilentRenewError s = call_oidc SigninSilent s"

definition onSigninSilentRejected :: "auth_state \<Rightarrow> auth_state" where
  "onSigninSilentRejected s = clear_session s"

datatype auth_event =
    Login
  | Signup
  | Logout
  | CallbackSettled "js_error + oidc_user"
  | GetUserSettled "js_error + oidc_user option"
  | UserLoaded oidc_user
  | AccessTokenExpired
  | SilentRenewError
  | SigninSilentRejected

text \<open>A rejected callback leaves the store alone; its error goes to the page (AuthCallbackPage).\<close>

fun auth_step :: "auth_state \<Rightarrow> auth_event \<Rightarrow> auth_state" where
  "auth_step s Login = login s"
| "auth_step s Signup = signup s"
| "auth_step s Logout = logout s"
| "auth_step s (CallbackSettled r) = (case handleCallback r s of Inl e \<Rightarrow> s | Inr s' \<Rightarrow> s')"
| "auth_step s (GetUserSettled r) = loadExisting r s"
| "auth_step s (UserLoaded u) = onUserLoaded u s"
| "auth_step s AccessTokenExpired = onAccessTokenExpired s"
| "auth_step s SilentRenewError = onSilentRenewError s"
| "auth_step s SigninSilentRejected = onSigninSilentRejected s"

subsection \<open>The session as one optional user\<close>

text \<open>
  The three fields are one piece of information: the signed-in user, or none.  The
  specification is that session; the store refines it.
\<close>

definition session_fields :: "oidc_user option \<Rightarrow> auth_state \<Rightarrow> bool" where
  "session_fields su s \<longleftrightarrow>
     auth_user s = su \<and> auth_token s = map_option access_token su \<and>
     auth_claims s = map_option parseClaims su"

definition auth_inv :: "auth_state \<Rightarrow> bool" where
  "auth_inv s \<longleftrightarrow> session_fields (auth_user s) s"

fun session_step :: "oidc_user option \<Rightarrow> auth_event \<Rightarrow> oidc_user option" where
  "session_step su (CallbackSettled (Inr u)) = Some u"
| "session_step su (GetUserSettled (Inr (Some u))) = (if expired u = Some True then su else Some u)"
| "session_step su (UserLoaded u) = Some u"
| "session_step su Logout = None"
| "session_step su SigninSilentRejected = None"
| "session_step su _ = su"

lemmas auth_ops = login_def signup_def logout_def handleCallback_def loadExisting_def
  onUserLoaded_def onAccessTokenExpired_def onSilentRenewError_def onSigninSilentRejected_def
  call_oidc_def set_session_def clear_session_def

interpretation auth: refined_machine auth_init auth_step auth_inv auth_user session_step
proof unfold_locales
  show "auth_inv auth_init"
    by (simp add: auth_inv_def session_fields_def auth_init_def)
  show "auth_inv (auth_step s e)" if "auth_inv s" for s e
    using that by (cases e) (auto simp: auth_inv_def session_fields_def auth_ops split: sum.split option.split)
  show "auth_user (auth_step s e) = session_step (auth_user s) e" if "auth_inv s" for s e
    by (cases "(auth_user s, e)" rule: session_step.cases) (auto simp: auth_ops split: sum.split option.split)
qed

lemma auth_run: "session_fields (foldl session_step None es) (foldl auth_step auth_init es)"
  using auth.inv_fold [of es] auth.abs_fold [of es] by (simp add: auth_inv_def auth_init_def)

text \<open>An event that can establish a session.\<close>

fun establishes :: "auth_event \<Rightarrow> oidc_user option" where
  "establishes (CallbackSettled (Inr u)) = Some u"
| "establishes (GetUserSettled (Inr (Some u))) = (if expired u = Some True then None else Some u)"
| "establishes (UserLoaded u) = Some u"
| "establishes _ = None"

lemma session_step_cases:
  "session_step su e = (case establishes e of
      Some u \<Rightarrow> Some u | None \<Rightarrow> if e = Logout \<or> e = SigninSilentRejected then None else su)"
  by (cases "(su, e)" rule: session_step.cases) auto

lemma session_stays_out:
  "\<forall>e \<in> set es. establishes e = None \<Longrightarrow> foldl session_step None es = None"
  by (induction es) (simp_all add: session_step_cases)

lemma session_provenance:
  "foldl session_step None es = Some u \<Longrightarrow> \<exists>e \<in> set es. establishes e = Some u"
proof (induction es rule: rev_induct)
  case (snoc e es)
  then show ?case
    by (auto simp: session_step_cases split: option.splits if_splits)
qed simp

subsection \<open>Properties\<close>

text \<open>
  C22: in every reachable state the user, the token and the claims are those of one and the
  same session, the one that the events so far have established and not ended.
\<close>

theorem session_fields_agree:
  "session_fields (foldl session_step None es) (foldl auth_step auth_init es)"
  by (rule auth_run)

text \<open>
  C21: signing out is final: after a logout the store holds no user, token or claims and
  grants no privilege, until the identity provider delivers a user: by its event that a user
  was loaded or at the end of a sign-in callback, whether that user's token has expired or not,
  or from the stored session, unless that user has expired.
\<close>

theorem logout_is_final:
  assumes "\<forall>e \<in> set fs. establishes e = None"
  shows "auth_user (foldl auth_step auth_init (es @ Logout # fs)) = None \<and>
         auth_token (foldl auth_step auth_init (es @ Logout # fs)) = None \<and>
         auth_claims (foldl auth_step auth_init (es @ Logout # fs)) = None \<and>
         \<not> isAdmin (foldl auth_step auth_init (es @ Logout # fs)) \<and>
         \<not> canCommand (foldl auth_step auth_init (es @ Logout # fs))"
proof -
  have "foldl session_step None (es @ Logout # fs) = None"
    using session_stays_out [OF assms] by simp
  then have "session_fields None (foldl auth_step auth_init (es @ Logout # fs))"
    using auth_run [of "es @ Logout # fs"] by simp
  then show ?thesis
    by (simp add: session_fields_def isAdmin_def is_string_def canCommand_def role_or_def)
qed

definition sample_user :: "string \<Rightarrow> oidc_user" where
  "sample_user role =
     \<lparr>profile = [(''sub'', JStr ''u1''), (''role'', JStr role)], access_token = ''t1'', expired = None\<rparr>"

theorem logout_is_final_witness:
  "auth_token (foldl auth_step auth_init
     ([UserLoaded (sample_user ''admin'')] @ Logout # [AccessTokenExpired, SigninSilentRejected])) = None"
  using logout_is_final [of "[AccessTokenExpired, SigninSilentRejected]"
      "[UserLoaded (sample_user ''admin'')]"] by simp

text \<open>
  A token in the store is the access token of a user that an earlier event delivered,
  and a user read back from storage is only taken when it was not expired.
\<close>

theorem token_has_provenance:
  assumes "auth_token (foldl auth_step auth_init es) = Some t"
  shows "\<exists>e \<in> set es. \<exists>u. establishes e = Some u \<and> access_token u = t \<and>
           auth_claims (foldl auth_step auth_init es) = Some (parseClaims u)"
proof -
  from assms auth_run [of es] obtain u
    where "foldl session_step None es = Some u" and "access_token u = t"
      and "auth_claims (foldl auth_step auth_init es) = Some (parseClaims u)"
    by (cases "foldl session_step None es") (auto simp: session_fields_def)
  then show ?thesis
    using session_provenance by blast
qed

theorem token_has_provenance_witness:
  "\<exists>e \<in> set [Login, UserLoaded (sample_user ''viewer'')]. \<exists>u. establishes e = Some u \<and> access_token u = ''t1''"
  using token_has_provenance [of "[Login, UserLoaded (sample_user ''viewer'')]" "''t1''"]
  by (auto simp: auth_ops sample_user_def)

text \<open>
  Privileges come from the role claim of the signed-in user alone: administrator exactly
  for the string \<open>admin\<close>, commands exactly for \<open>operator\<close> and \<open>admin\<close>.
\<close>

theorem privileges_follow_role_claim:
  "isAdmin (foldl auth_step auth_init es)
     = (\<exists>u. foldl session_step None es = Some u \<and> map_of (profile u) ''role'' = Some (JStr ''admin'')) \<and>
   canCommand (foldl auth_step auth_init es)
     = (\<exists>u. foldl session_step None es = Some u \<and>
           map_of (profile u) ''role'' \<in> {Some (JStr ''operator''), Some (JStr ''admin'')})"
  using auth_run [of es]
  by (cases "foldl session_step None es")
    (auto simp: session_fields_def isAdmin_def canCommand_def role_or_def is_string_def
      nullish_cases)

end
