(* ===== verification/RoleGuard.thy ===== *)
theory RoleGuard
  imports AuthStore
begin

section \<open>The role guard (server/dashboard/src/components/RoleGuard.tsx)\<close>

text \<open>
  The component that shows its children to users of at least a given role.  The rank table is
  indexed by the role claim, an unchecked value: a key the table lacks gives
  \<open>undefined\<close>, and comparing \<open>undefined\<close> with a number is false; a claim that cannot be
  converted to a key raises.
\<close>

datatype app_role = Viewer | Operator | Admin

fun role_name :: "app_role \<Rightarrow> string" where
  "role_name Viewer = ''viewer''"
| "role_name Operator = ''operator''"
| "role_name Admin = ''admin''"

definition ROLE_RANK :: "(string \<times> nat) list" where
  "ROLE_RANK = [(''viewer'', 0), (''operator'', 1), (''admin'', 2)]"

text \<open>
  \<open>ROLE_RANK[v]\<close>: the key is \<open>v\<close> as a string.  An array of one element has that
  element's string; every other value that is not a string has a string the table lacks.
\<close>

fun rank_of :: "json \<Rightarrow> nat option" where
  "rank_of (JStr s) = map_of ROLE_RANK s"
| "rank_of (JArr [v]) = rank_of v"
| "rank_of v = None"

definition role_rank :: "json \<Rightarrow> js_error + nat option" where
  "role_rank v = and_then (primitive (Some v)) (\<lambda>_. Inr (rank_of v))"

lemma role_rank_string [simp]: "role_rank (JStr s) = Inr (map_of ROLE_RANK s)"
  by (simp add: role_rank_def primitive_def)

text \<open>\<open>a < b\<close> on numbers that may be \<open>undefined\<close>.\<close>

definition js_less :: "nat option \<Rightarrow> nat option \<Rightarrow> bool" where
  "js_less a b = (case (a, b) of (Some m, Some n) \<Rightarrow> m < n | _ \<Rightarrow> False)"

definition RoleGuard :: "app_role \<Rightarrow> 'n \<Rightarrow> 'n \<Rightarrow> auth_state \<Rightarrow> js_error + 'n" where
  "RoleGuard role children fallback s =
     (let userRole = role_or s (JStr ''viewer'')
      in and_then (role_rank userRole) (\<lambda>rank.
           Inr (if js_less rank (map_of ROLE_RANK (role_name role)) then fallback else children)))"

subsection \<open>Roles in order\<close>

instantiation app_role :: linorder
begin

definition less_eq_app_role :: "app_role \<Rightarrow> app_role \<Rightarrow> bool" where
  "less_eq_app_role a b \<longleftrightarrow> the (map_of ROLE_RANK (role_name a)) \<le> the (map_of ROLE_RANK (role_name b))"

definition less_app_role :: "app_role \<Rightarrow> app_role \<Rightarrow> bool" where
  "less_app_role a b \<longleftrightarrow> the (map_of ROLE_RANK (role_name a)) < the (map_of ROLE_RANK (role_name b))"

instance
proof
  fix a b c :: app_role
  show "(a < b) = (a \<le> b \<and> \<not> b \<le> a)"
    by (auto simp: less_eq_app_role_def less_app_role_def)
  show "a \<le> a"
    by (simp add: less_eq_app_role_def)
  show "a \<le> b \<Longrightarrow> b \<le> c \<Longrightarrow> a \<le> c"
    by (simp add: less_eq_app_role_def)
  show "a \<le> b \<Longrightarrow> b \<le> a \<Longrightarrow> a = b"
    by (cases a; cases b) (simp_all add: less_eq_app_role_def ROLE_RANK_def)
  show "a \<le> b \<or> b \<le> a"
    by (auto simp: less_eq_app_role_def)
qed

end

lemma rank_role_name: "rank_of (JStr (role_name r)) = map_of ROLE_RANK (role_name r)"
  by simp

lemma rank_defined: "map_of ROLE_RANK (role_name r) \<noteq> None"
  by (cases r) (simp_all add: ROLE_RANK_def)

lemma rank_less:
  "js_less (map_of ROLE_RANK (role_name a)) (map_of ROLE_RANK (role_name b)) \<longleftrightarrow> a < b"
  using rank_defined [of a] rank_defined [of b] by (auto simp: js_less_def less_app_role_def)

lemma rank_unknown: "r \<notin> {''viewer'', ''operator'', ''admin''} \<Longrightarrow> rank_of (JStr r) = None"
  by (simp add: ROLE_RANK_def)

lemma guard_by_role:
  assumes "auth_claims s = Some c" and "claim_role c = JStr (role_name r)"
  shows "RoleGuard required children fallback s = Inr (if required \<le> r then children else fallback)"
  using assms by (simp add: RoleGuard_def role_or_def rank_less not_less [symmetric])

lemma RoleGuard_cases:
  "RoleGuard r c f s = map_sum id (\<lambda>pass. if pass then c else f) (RoleGuard r True False s)"
  by (cases "role_rank (role_or s (JStr ''viewer''))") (simp_all add: RoleGuard_def Let_def)

subsection \<open>Properties\<close>

text \<open>
  For a signed-in user whose role claim is one of the three roles, the guard shows its
  children exactly when that role is at least the required one.
\<close>

theorem guard_compares_roles:
  assumes "auth_claims s = Some c" and "claim_role c = JStr (role_name r)"
  shows "RoleGuard required children fallback s = Inr (if required \<le> r then children else fallback)"
  using assms by (rule guard_by_role)

definition signed_in_as :: "string \<Rightarrow> auth_state" where
  "signed_in_as role = auth_step auth_init (UserLoaded (sample_user role))"

theorem guard_compares_roles_witness:
  "RoleGuard Admin True False (signed_in_as ''operator'') = Inr False \<and>
   RoleGuard Operator True False (signed_in_as ''admin'') = Inr True"
proof -
  have claims: "auth_claims (signed_in_as r) = Some (parseClaims (sample_user r))" for r
    by (simp add: signed_in_as_def auth_ops)
  have role: "claim_role (parseClaims (sample_user r)) = JStr r" for r
    by (simp add: sample_user_def)
  show ?thesis
    using guard_compares_roles [OF claims, of "''operator''" Operator Admin True False]
      guard_compares_roles [OF claims, of "''admin''" Admin Operator True False] role
    by (simp add: less_eq_app_role_def ROLE_RANK_def)
qed

text \<open>
  C32: a role claim outside the table opens the guard: for any string that is not one of the
  three roles the children are shown, whatever role is required, although the same user is
  neither an administrator nor allowed to command.
\<close>

theorem guard_fails_open:
  assumes "auth_claims s = Some c" and "claim_role c = JStr r"
    and "r \<notin> {''viewer'', ''operator'', ''admin''}"
  shows "RoleGuard required children fallback s = Inr children \<and> \<not> isAdmin s \<and> \<not> canCommand s"
  using assms rank_unknown [OF assms(3)]
  by (auto simp: RoleGuard_def role_or_def js_less_def isAdmin_def canCommand_def is_string_def)

theorem guard_fails_open_witness:
  "RoleGuard Admin True False (signed_in_as ''guest'') = Inr True \<and> \<not> isAdmin (signed_in_as ''guest'')"
  using guard_fails_open [of "signed_in_as ''guest''" "parseClaims (sample_user ''guest'')" "''guest''"
      Admin True False]
  by (simp add: signed_in_as_def auth_ops sample_user_def)

end
