(* ===== verification/ApiTypes.thy ===== *)
theory ApiTypes
  imports Js_Values
begin

section \<open>The data the services return (server/dashboard/src/types)\<close>

text \<open>
  The interfaces of \<open>types/vehicle.ts\<close>, \<open>types/member.ts\<close> and \<open>types/apikey.ts\<close>
  as records, with the source's field names behind a prefix.  A field marked \<open>?\<close>, and
  \<open>device_ids\<close>, which the pages read with \<open>?? []\<close>, is an \<open>option\<close>.
\<close>

record vehicle =
  v_id :: string
  v_org_id :: string
  v_project_id :: "string option"
  v_display_name :: string
  v_vehicle_type :: string
  v_adapter_type :: string
  v_region :: string
  v_created_at :: string
  v_updated_at :: string
  v_active :: bool

record project =
  p_id :: string
  p_org_id :: string
  p_name :: string
  p_display_name :: string
  p_created_at :: string
  p_active :: bool

text \<open>The answer to provisioning a device; the project page waits for it and reads none of it.\<close>

record provision_response =
  pr_device_id :: string
  pr_agent_config_yaml :: string
  pr_cert_pem :: "string option"
  pr_key_pem :: "string option"
  pr_ca_pem :: "string option"

record org_member =
  m_id :: string
  m_email :: string
  m_name :: string
  m_role :: string
  m_device_ids :: "string list option"

record invite_member_request =
  im_email :: string
  im_role :: string
  im_device_ids :: "string list"

record update_access_request =
  ua_role :: string
  ua_device_ids :: "string list"

record api_key =
  k_id :: string
  k_key_prefix :: string
  k_org_id :: string
  k_name :: string
  k_scopes :: "string list"
  k_created_at :: string
  k_expires_at :: "string option"
  k_revoked_at :: "string option"
  k_last_used_at :: "string option"

record create_key_request =
  ck_name :: string
  ck_scopes :: "string list"
  ck_expires_at :: "string option"

record create_key_response = api_key +
  k_api_key :: string

end
