(* ===== verification/ApiClient.thy ===== *)
theory ApiClient
  imports AuthStore ApiTypes
begin

section \<open>The HTTP clients and endpoints (server/dashboard/src/api, env.ts)\<close>

text \<open>
  The two hooks that every request of the dashboard passes through, the prefixes of the two
  clients, and the endpoint functions, each as the request it makes.  \<open>ky\<close> itself is not
  under src/: what it does between the hooks is not modelled, and the pages take the results
  of its promises as arguments.
\<close>

subsection \<open>Environment variables (env.ts)\<close>

record vite_env =
  VITE_KEYCLOAK_URL :: "string option"
  VITE_KEYCLOAK_REALM :: "string option"
  VITE_KEYCLOAK_CLIENT_ID :: "string option"
  VITE_FLEET_API_URL :: "string option"
  VITE_QUERY_API_URL :: "string option"
  VITE_COMMAND_API_URL :: "string option"
  VITE_APIKEY_URL :: "string option"
  VITE_WS_GATEWAY_URL :: "string option"

record dashboard_env =
  keycloakUrl :: string
  keycloakRealm :: string
  keycloakClientId :: string
  fleetApiUrl :: string
  queryApiUrl :: string
  commandApiUrl :: string
  apikeyUrl :: string
  gatewayUrl :: string

definition or_default :: "string option \<Rightarrow> string \<Rightarrow> string" where
  "or_default v d = (case v of None \<Rightarrow> d | Some s \<Rightarrow> s)"

definition dashboard_env :: "vite_env \<Rightarrow> dashboard_env" where
  "dashboard_env e =
     \<lparr>keycloakUrl = or_default (VITE_KEYCLOAK_URL e) ''http://localhost:8180'',
      keycloakRealm = or_default (VITE_KEYCLOAK_REALM e) ''systemscale'',
      keycloakClientId = or_default (VITE_KEYCLOAK_CLIENT_ID e) ''systemscale-dashboard'',
      fleetApiUrl = or_default (VITE_FLEET_API_URL e) ''http://localhost:8080'',
      queryApiUrl = or_default (VITE_QUERY_API_URL e) ''http://localhost:8081'',
      commandApiUrl = or_default (VITE_COMMAND_API_URL e) ''http://localhost:8082'',
      apikeyUrl = or_default (VITE_APIKEY_URL e) ''http://localhost:8083'',
      gatewayUrl = or_default (VITE_WS_GATEWAY_URL e) ''ws://localhost:8084''\<rparr>"

subsection \<open>The session settings (authStore.ts)\<close>

text \<open>The strings handed to \<open>UserManager\<close>; \<open>origin\<close> is \<open>window.location.origin\<close>.\<close>

record oidc_settings =
  authority :: string
  client_id :: string
  redirect_uri :: string
  post_logout_redirect_uri :: string
  response_type :: string
  scope :: string
  automaticSilentRenew :: bool
  silent_redirect_uri :: string

definition oidc_settings :: "dashboard_env \<Rightarrow> string \<Rightarrow> oidc_settings" where
  "oidc_settings env origin =
     \<lparr>authority = keycloakUrl env @ ''/realms/'' @ keycloakRealm env,
      client_id = keycloakClientId env,
      redirect_uri = origin @ ''/auth/callback'',
      post_logout_redirect_uri = origin @ ''/login'',
      response_type = ''code'',
      scope = ''openid profile email'',
      automaticSilentRenew = True,
      silent_redirect_uri = origin @ ''/silent-renew.html''\<rparr>"

subsection \<open>Hooks and clients (client.ts)\<close>

datatype http_method = GET | POST | PUT | DELETE

datatype client = FleetClient | ApikeyClient

record request =
  req_client :: client
  req_method :: http_method
  req_path :: string
  req_headers :: "string \<rightharpoonup> string"
  req_json :: "json option"

definition prefixUrl :: "vite_env \<Rightarrow> client \<Rightarrow> string" where
  "prefixUrl e c =
     (case c of
        FleetClient \<Rightarrow> or_default (VITE_FLEET_API_URL e) ''http://localhost:8080''
      | ApikeyClient \<Rightarrow> or_default (VITE_APIKEY_URL e) ''http://localhost:8083'')"

definition beforeRequest :: "auth_state \<Rightarrow> request \<Rightarrow> request" where
  "beforeRequest s req =
     (if truthy_str (auth_token s)
      then req\<lparr>req_headers := (req_headers req)(''Authorization'' \<mapsto> ''Bearer '' @ the (auth_token s))\<rparr>
      else req)"

definition afterResponse :: "nat \<Rightarrow> auth_state \<Rightarrow> auth_state" where
  "afterResponse res_status s = (if res_status = 401 then logout s else s)"

subsection \<open>Endpoints (fleet.ts, members.ts, apikeys.ts)\<close>

definition api_get :: "client \<Rightarrow> string \<Rightarrow> request" where
  "api_get c path = \<lparr>req_client = c, req_method = GET, req_path = path, req_headers = Map.empty,
                     req_json = None\<rparr>"

definition api_delete :: "client \<Rightarrow> string \<Rightarrow> request" where
  "api_delete c path = (api_get c path)\<lparr>req_method := DELETE\<rparr>"

definition api_post :: "client \<Rightarrow> string \<Rightarrow> json \<Rightarrow> request" where
  "api_post c path j = (api_get c path)\<lparr>req_method := POST, req_json := Some j\<rparr>"

definition api_put :: "client \<Rightarrow> string \<Rightarrow> json \<Rightarrow> request" where
  "api_put c path j = (api_get c path)\<lparr>req_method := PUT, req_json := Some j\<rparr>"

definition listVehicles :: request where
  "listVehicles = api_get FleetClient ''v1/vehicles''"

definition getVehicle :: "string \<Rightarrow> request" where
  "getVehicle vid = api_get FleetClient (''v1/vehicles/'' @ vid)"

definition listProjects :: request where
  "listProjects = api_get FleetClient ''v1/projects''"

definition createProject :: "string \<Rightarrow> string option \<Rightarrow> request" where
  "createProject name displayName =
     api_post FleetClient ''v1/projects''
       (JObj [(''name'', JStr name), (''display_name'', JStr (or_default displayName name))])"

definition listProjectDevices :: "string \<Rightarrow> request" where
  "listProjectDevices projectName = api_get FleetClient (''v1/projects/'' @ projectName @ ''/devices'')"

text \<open>\<open>undefined\<close> properties of the body are left out when it is made into JSON text.\<close>

definition optional_prop :: "string \<Rightarrow> string option \<Rightarrow> (string \<times> json) list" where
  "optional_prop key v = (case v of None \<Rightarrow> [] | Some s \<Rightarrow> [(key, JStr s)])"

definition provisionDevice ::
  "string \<Rightarrow> string \<Rightarrow> string option \<Rightarrow> string option \<Rightarrow> string option \<Rightarrow> request" where
  "provisionDevice projectName display_name vehicle_type adapter_type region =
     api_post FleetClient (''v1/projects/'' @ projectName @ ''/devices'')
       (JObj ([(''display_name'', JStr display_name)] @ optional_prop ''vehicle_type'' vehicle_type @
              optional_prop ''adapter_type'' adapter_type @ optional_prop ''region'' region))"

definition listMembers :: request where
  "listMembers = api_get FleetClient ''v1/org/members''"

definition inviteMember :: "invite_member_request \<Rightarrow> request" where
  "inviteMember req =
     api_post FleetClient ''v1/org/invite''
       (JObj [(''email'', JStr (im_email req)), (''role'', JStr (im_role req)),
              (''device_ids'', JArr (map JStr (im_device_ids req)))])"

definition updateMemberAccess :: "string \<Rightarrow> update_access_request \<Rightarrow> request" where
  "updateMemberAccess userId req =
     api_put FleetClient (''v1/org/members/'' @ userId @ ''/access'')
       (JObj [(''role'', JStr (ua_role req)), (''device_ids'', JArr (map JStr (ua_device_ids req)))])"

definition removeMember :: "string \<Rightarrow> request" where
  "removeMember userId = api_delete FleetClient (''v1/org/members/'' @ userId)"

definition listKeys :: request where
  "listKeys = api_get ApikeyClient ''v1/keys''"

definition createKey :: "create_key_request \<Rightarrow> request" where
  "createKey req =
     api_post ApikeyClient ''v1/keys''
       (JObj ([(''name'', JStr (ck_name req)), (''scopes'', JArr (map JStr (ck_scopes req)))] @
              optional_prop ''expires_at'' (ck_expires_at req)))"

definition revokeKey :: "string \<Rightarrow> request" where
  "revokeKey kid = api_delete ApikeyClient (''v1/keys/'' @ kid)"

lemmas endpoint_defs = listVehicles_def getVehicle_def listProjects_def createProject_def
  listProjectDevices_def provisionDevice_def listMembers_def inviteMember_def
  updateMemberAccess_def removeMember_def listKeys_def createKey_def revokeKey_def
  api_get_def api_post_def api_put_def api_delete_def

subsection \<open>Properties\<close>

text \<open>
  A request carries \<open>Authorization: Bearer t\<close> exactly when the store holds a non-empty
  token \<open>t\<close> (given that nothing set the header before), and a response with status 401, and no
  other, ends the session.
\<close>

theorem hooks_carry_token_and_end_session:
  assumes "req_headers req ''Authorization'' = None"
  shows "(req_headers (beforeRequest s req) ''Authorization'' = Some h \<longleftrightarrow>
           (\<exists>t. auth_token s = Some t \<and> t \<noteq> [] \<and> h = ''Bearer '' @ t)) \<and>
         (auth_token (afterResponse res s) = (if res = 401 then None else auth_token s)) \<and>
         (afterResponse res s = s \<or> res = 401)"
  using assms
  by (auto simp: beforeRequest_def truthy_str_def afterResponse_def auth_ops)

theorem hooks_carry_token_and_end_session_witness:
  "req_headers (beforeRequest (auth_step auth_init (UserLoaded (sample_user ''viewer''))) listProjects)
     ''Authorization'' = Some ''Bearer t1''"
  using hooks_carry_token_and_end_session [of listProjects
      "auth_step auth_init (UserLoaded (sample_user ''viewer''))" "''Bearer t1''" 200]
  by (simp add: endpoint_defs auth_ops sample_user_def)

text \<open>
  Names and identifiers are put into paths as they are: the path of each endpoint has its
  fixed number of segments plus one for every slash in the name, and for a name without a
  slash its segments are the route's with the name in its place.
\<close>

theorem paths_are_not_escaped:
  "length (split_at CHR ''/'' (req_path (listProjectDevices n))) = 4 + count_list n CHR ''/'' \<and>
   length (split_at CHR ''/'' (req_path (updateMemberAccess n req))) = 5 + count_list n CHR ''/'' \<and>
   length (split_at CHR ''/'' (req_path (removeMember n))) = 4 + count_list n CHR ''/'' \<and>
   length (split_at CHR ''/'' (req_path (revokeKey n))) = 3 + count_list n CHR ''/'' \<and>
   (CHR ''/'' \<in> set n \<or>
      split_at CHR ''/'' (req_path (listProjectDevices n)) = [''v1'', ''projects'', n, ''devices''] \<and>
      split_at CHR ''/'' (req_path (updateMemberAccess n req))
        = [''v1'', ''org'', ''members'', n, ''access''] \<and>
      split_at CHR ''/'' (req_path (removeMember n)) = [''v1'', ''org'', ''members'', n] \<and>
      split_at CHR ''/'' (req_path (revokeKey n)) = [''v1'', ''keys'', n])"
  by (cases "CHR ''/'' \<in> set n")
    (simp_all add: endpoint_defs length_split_at split_at_absent split_at_append_sep)

end
