(* ===== verification/Jsx.thy ===== *)
theory Jsx
  imports Js_Values
begin

section \<open>Rendered elements and the modal dialog (server/dashboard/src/components/Modal)\<close>

text \<open>
  What a component renders is a tree of elements and texts.  An attribute is a class name, a
  value, a disabled or checked flag, a handler (the name of the event and the action of the
  page it triggers; \<open>enter\<close> is a key press tested for the Enter key), the handler of an input
  field with the text typed, or the call of \<open>stopPropagation\<close>.  Inline styles and vector drawings are
  left out, and a character outside ASCII is written as its HTML entity.  A conditional
  \<open>c && <X/>\<close> is an empty or one-element list of children.
\<close>

datatype 'a attr =
    Cls string
  | On string 'a
  | OnInput "string \<Rightarrow> 'a"
  | StopPropagation
  | Disabled bool
  | Checked bool
  | Value string
  | Attr string string

datatype 'a node = Txt string | El string "'a attr list" "'a node list"

fun handler_actions :: "string \<Rightarrow> 'a attr list \<Rightarrow> 'a list" where
  "handler_actions ev [] = []"
| "handler_actions ev (On e a # as) = (if e = ev then a # handler_actions ev as else handler_actions ev as)"
| "handler_actions ev (_ # as) = handler_actions ev as"

definition is_disabled :: "'a attr list \<Rightarrow> bool" where
  "is_disabled as \<longleftrightarrow> Disabled True \<in> set as"

text \<open>
  A selector handed to the hook of a store returns a part of the store's state, the same at
  every call (\<open>Kept\<close>), or an object it makes at every call (\<open>Fresh\<close>).  The hook compares what the
  selector returns by identity.  What becomes of a fresh selection is up to zustand and React,
  which are not under src/: it is the argument \<open>hook\<close>, the error that rendering ends with, if
  any.  From version 5, which the lock file names, zustand documents an endless loop, which
  React ends by raising and unmounting the tree (\<open>documented_hook\<close>); version 4 kept the first
  result (\<open>None\<close>).
\<close>

datatype 'a selection = Kept 'a | Fresh 'a

type_synonym store_hook = "js_error option"

definition documented_hook :: "store_hook \<Rightarrow> bool" where
  "documented_hook hook \<longleftrightarrow> (\<exists>e. hook = Some e)"

definition useStore :: "store_hook \<Rightarrow> 'a selection \<Rightarrow> js_error + 'a" where
  "useStore hook sel =
     (case sel of
        Kept a \<Rightarrow> Inr a
      | Fresh a \<Rightarrow> (case hook of None \<Rightarrow> Inr a | Some e \<Rightarrow> Inl e))"

lemma useStore_simps [simp]:
  "useStore hook (Kept a) = Inr a" "useStore None (Fresh a) = Inr a" "useStore (Some e) (Fresh a) = Inl e"
  by (simp_all add: useStore_def)

text \<open>Every action a user can trigger: the handlers of all elements that are not disabled.\<close>

fun actions :: "'a node \<Rightarrow> 'a list" where
  "actions (Txt s) = []"
| "actions (El t as cs) =
     (if is_disabled as then [] else List.map_filter (\<lambda>x. case x of On e a \<Rightarrow> Some a | _ \<Rightarrow> None) as)
     @ concat (map actions cs)"

fun texts :: "'a node \<Rightarrow> string list" where
  "texts (Txt s) = [s]"
| "texts (El t as cs) = concat (map texts cs)"

text \<open>An element with everything in it.\<close>

fun descendants :: "'a node \<Rightarrow> 'a node list" where
  "descendants (Txt s) = [Txt s]"
| "descendants (El t as cs) = El t as cs # concat (map descendants cs)"

text \<open>
  An event at the element reached by a path of child positions: its handlers run from the
  target outwards until one stops the propagation.  The flag says whether that happened.
\<close>

fun bubble :: "string \<Rightarrow> 'a node \<Rightarrow> nat list \<Rightarrow> 'a list \<times> bool" where
  "bubble ev (Txt s) p = ([], False)"
| "bubble ev (El t as cs) [] =
     (if is_disabled as then [] else handler_actions ev as, StopPropagation \<in> set as)"
| "bubble ev (El t as cs) (i # p) =
     (if i < length cs
      then let (fired, stopped) = bubble ev (cs ! i) p
           in if stopped then (fired, True)
              else (fired @ handler_actions ev as, StopPropagation \<in> set as)
      else ([], False))"

definition show_if :: "bool \<Rightarrow> 'a node list \<Rightarrow> 'a node list" where
  "show_if c ns = (if c then ns else [])"

lemma show_if_simps [simp]: "show_if True ns = ns" "show_if False ns = []"
  by (simp_all add: show_if_def)

lemma actions_show_if [simp]:
  "set (concat (map actions (show_if c ns))) = (if c then set (concat (map actions ns)) else {})"
  by (simp add: show_if_def)

lemma map_filter_append [simp]:
  "List.map_filter f (xs @ ys) = List.map_filter f xs @ List.map_filter f ys"
  by (simp add: List.map_filter_def)

lemma map_filter_list [simp]:
  "List.map_filter f [] = []"
  "List.map_filter f (x # xs) =
     (case f x of None \<Rightarrow> List.map_filter f xs | Some y \<Rightarrow> y # List.map_filter f xs)"
  by (simp_all add: List.map_filter_def split: option.split)

subsection \<open>A component inside another\<close>

fun map_attr :: "('a \<Rightarrow> 'b) \<Rightarrow> 'a attr \<Rightarrow> 'b attr" where
  "map_attr f (Cls c) = Cls c"
| "map_attr f (On e a) = On e (f a)"
| "map_attr f (OnInput g) = OnInput (\<lambda>t. f (g t))"
| "map_attr f StopPropagation = StopPropagation"
| "map_attr f (Disabled b) = Disabled b"
| "map_attr f (Checked b) = Checked b"
| "map_attr f (Value v) = Value v"
| "map_attr f (Attr k v) = Attr k v"

text \<open>A component's view inside a page: its actions become the page's.\<close>

fun embed :: "('a \<Rightarrow> 'b) \<Rightarrow> 'a node \<Rightarrow> 'b node" where
  "embed f (Txt s) = Txt s"
| "embed f (El t as cs) = El t (map (map_attr f) as) (map (embed f) cs)"

lemma map_attr_disabled: "Disabled True = map_attr f a \<longleftrightarrow> Disabled True = a"
  by (cases a) simp_all

lemma actions_embed: "actions (embed f n) = map f (actions n)"
proof (induction n)
  case (El t as cs)
  have "is_disabled (map (map_attr f) as) = is_disabled as"
    unfolding is_disabled_def by (induction as) (simp_all add: map_attr_disabled)
  moreover have "List.map_filter (\<lambda>x. case x of On e a \<Rightarrow> Some a | _ \<Rightarrow> None) (map (map_attr f) as)
      = map f (List.map_filter (\<lambda>x. case x of On e a \<Rightarrow> Some a | _ \<Rightarrow> None) as)"
  proof (induction as)
    case (Cons a as)
    then show ?case by (cases a) simp_all
  qed simp
  ultimately show ?case
    using El.IH by (simp add: map_concat comp_def cong: map_cong)
qed simp

lemma descendants_trans: "m \<in> set (descendants n) \<Longrightarrow> set (descendants m) \<subseteq> set (descendants n)"
  by (induction n) auto

lemma descendants_self: "n \<in> set (descendants n)"
  by (cases n) simp_all

lemma descendants_child: "El t as cs \<in> set (descendants n) \<Longrightarrow> m \<in> set cs \<Longrightarrow> m \<in> set (descendants n)"
  using descendants_trans [of "El t as cs" n] descendants_self [of m] by auto

lemma descendants_embed: "descendants (embed f n) = map (embed f) (descendants n)"
  by (induction n) (simp_all add: map_concat comp_def cong: map_cong)

subsection \<open>The modal dialog\<close>

definition Modal :: "bool \<Rightarrow> 'a \<Rightarrow> string \<Rightarrow> 'a node list \<Rightarrow> 'a node list" where
  "Modal is_open onClose title children =
     (if \<not> is_open then []
      else [El ''div'' [Cls ''overlay'', On ''click'' onClose]
              [El ''div'' [Cls ''dialog'', StopPropagation]
                 [El ''div'' [Cls ''header'']
                    [El ''h3'' [Cls ''title''] [Txt title],
                     El ''button'' [Cls ''close'', On ''click'' onClose] [Txt ''&#x2715;'']],
                  El ''div'' [Cls ''body''] children]]])"

lemma actions_Modal:
  "set (concat (map actions (Modal is_open onClose title children)))
     = (if is_open then insert onClose (set (concat (map actions children))) else {})"
  by (auto simp: Modal_def is_disabled_def List.map_filter_def)

text \<open>
  The effect that locks the page's scrolling: \<open>overflow\<close> is the body's style.  When the
  \<open>open\<close> property changes (or the dialog goes away) the clean-up of the last effect runs,
  then the new effect.
\<close>

definition modal_effect :: "bool \<Rightarrow> string \<Rightarrow> string" where
  "modal_effect is_open overflow = (if is_open then ''hidden'' else overflow)"

definition modal_cleanup :: "string \<Rightarrow> string" where
  "modal_cleanup overflow = ''''"

fun modal_commits :: "bool option \<Rightarrow> bool list \<Rightarrow> string \<Rightarrow> string" where
  "modal_commits prev [] overflow = overflow"
| "modal_commits prev (o1 # os) overflow =
     modal_commits (Some o1) os
       (if prev = Some o1 then overflow
        else modal_effect o1 (if prev = None then overflow else modal_cleanup overflow))"

lemma modal_commits_last:
  "os \<noteq> [] \<Longrightarrow> (prev = Some True \<longrightarrow> overflow = ''hidden'') \<Longrightarrow>
     (prev \<noteq> Some True \<longrightarrow> overflow = '''') \<Longrightarrow>
     modal_commits prev os overflow = (if last os then ''hidden'' else '''')"
proof (induction os arbitrary: prev overflow)
  case (Cons o1 os)
  let ?ov = "if prev = Some o1 then overflow
             else modal_effect o1 (if prev = None then overflow else modal_cleanup overflow)"
  have ov: "?ov = (if o1 then ''hidden'' else '''')"
    using Cons.prems by (cases prev; cases o1) (auto simp: modal_effect_def modal_cleanup_def)
  show ?case
  proof (cases "os = []")
    case True
    with ov show ?thesis by simp
  next
    case False
    then have "modal_commits (Some o1) os ?ov = (if last os then ''hidden'' else '''')"
      unfolding ov by (intro Cons.IH) simp_all
    with False show ?thesis by simp
  qed
qed simp

text \<open>
  An open dialog closes on a click on its backdrop or its close button and on no other
  click inside it: a click within the body never reaches the backdrop's handler.  After any
  sequence of renders the page's scrolling is locked exactly when the dialog is open.
\<close>

theorem modal_closes_from_outside_only:
  "bubble ''click'' (hd (Modal True onClose title children)) [] = ([onClose], False) \<and>
   bubble ''click'' (hd (Modal True onClose title children)) [0, 0, 1] = ([onClose], True) \<and>
   (\<forall>p. i \<ge> length children \<or>
      bubble ''click'' (hd (Modal True onClose title children)) (0 # 1 # i # p)
        = (fst (bubble ''click'' (children ! i) p), True)) \<and>
   modal_commits None (opens @ [o1]) '''' = (if o1 then ''hidden'' else '''')"
  using modal_commits_last [of "opens @ [o1]" None "''''"]
  by (auto simp: Modal_def is_disabled_def not_less [symmetric] split: prod.split)

end
