(* ===== verification/App.thy ===== *)
theory App
  imports RoleGuard ApiClient Jsx
begin

section \<open>Routes, guards and sign-in pages (App.tsx, AuthCallbackPage.tsx, LoginPage.tsx)\<close>

text \<open>
  The route table of \<open>App\<close> as a tree of elements, the two guards, the settling of redirects,
  the callback page and the login page.  Which pattern of the table a path matches is decided
  by \<open>react-router\<close>, which is not under src/: it is the argument \<open>route_match\<close>, from patterns
  and a path to a pattern.  What is used of it is \<open>documented_match\<close>: the answer is one of the
  patterns, and a path that is itself a pattern without parameters matches that pattern.
\<close>

datatype page = LoginPage | AuthCallbackPage | HomePage | ProjectPage | TeamPage | ApiKeysPage

datatype element = Page page | AuthGuardElement | AdminGuardElement | NavigateTo string

datatype route = Route "string option" element "route list"

definition app_routes :: "route list" where
  "app_routes =
     [Route (Some ''/login'') (Page LoginPage) [],
      Route (Some ''/auth/callback'') (Page AuthCallbackPage) [],
      Route None AuthGuardElement
        [Route (Some ''/'') (Page HomePage) [],
         Route (Some ''/projects/:name'') (Page ProjectPage) [],
         Route None AdminGuardElement
           [Route (Some ''/team'') (Page TeamPage) [],
            Route (Some ''/settings/api-keys'') (Page ApiKeysPage) []]],
      Route (Some ''*'') (NavigateTo ''/'') []]"

text \<open>The leaves of the tree: each pattern with the elements from the outermost layout inwards.\<close>

fun branches :: "element list \<Rightarrow> route \<Rightarrow> (string \<times> element list) list" where
  "branches up (Route p e cs) =
     (if cs = [] then (case p of None \<Rightarrow> [] | Some s \<Rightarrow> [(s, up @ [e])])
      else concat (map (branches (up @ [e])) cs))"

definition route_table :: "(string \<times> element list) list" where
  "route_table = concat (map (branches []) app_routes)"

datatype outcome = Rendered page | Redirect string | Spinner | Blank | Raised js_error

definition AuthGuard :: "bool \<Rightarrow> auth_state \<Rightarrow> outcome \<Rightarrow> outcome" where
  "AuthGuard checked s outlet =
     (if \<not> checked then Spinner
      else if \<not> truthy_str (auth_token s) then Redirect ''/login''
      else outlet)"

text \<open>The guard's effect: once the stored session has been looked up, \<open>checked\<close> is set.\<close>

definition AuthGuard_checked :: "js_error + oidc_user option \<Rightarrow> auth_state \<Rightarrow> bool \<times> auth_state" where
  "AuthGuard_checked r s = (True, loadExisting r s)"

definition AdminGuard :: "auth_state \<Rightarrow> outcome \<Rightarrow> outcome" where
  "AdminGuard s outlet =
     (case RoleGuard Admin outlet (Redirect ''/'') s of Inl e \<Rightarrow> Raised e | Inr out \<Rightarrow> out)"

fun render_chain :: "bool \<Rightarrow> auth_state \<Rightarrow> element list \<Rightarrow> outcome" where
  "render_chain checked s [] = Blank"
| "render_chain checked s (Page p # es) = Rendered p"
| "render_chain checked s (NavigateTo u # es) = Redirect u"
| "render_chain checked s (AuthGuardElement # es) = AuthGuard checked s (render_chain checked s es)"
| "render_chain checked s (AdminGuardElement # es) = AdminGuard s (render_chain checked s es)"

definition App ::
  "(string list \<Rightarrow> string \<Rightarrow> string option) \<Rightarrow> bool \<Rightarrow> auth_state \<Rightarrow> string \<Rightarrow> outcome" where
  "App route_match checked s path =
     (case route_match (map fst route_table) path of
        None \<Rightarrow> Blank
      | Some pattern \<Rightarrow>
          (case map_of route_table pattern of
             None \<Rightarrow> Blank
           | Some chain \<Rightarrow> render_chain checked s chain))"

text \<open>Following redirects, with fuel: \<open>None\<close> is a redirect that was not followed.\<close>

fun settle ::
  "(string list \<Rightarrow> string \<Rightarrow> string option) \<Rightarrow> bool \<Rightarrow> auth_state \<Rightarrow> nat \<Rightarrow> string \<Rightarrow> outcome option" where
  "settle route_match checked s 0 path = None"
| "settle route_match checked s (Suc n) path =
     (case App route_match checked s path of
        Redirect u \<Rightarrow> settle route_match checked s n u
      | r \<Rightarrow> Some r)"

definition static_pattern :: "string \<Rightarrow> bool" where
  "static_pattern p \<longleftrightarrow> CHR '':'' \<notin> set p \<and> CHR ''*'' \<notin> set p"

definition documented_match :: "(string list \<Rightarrow> string \<Rightarrow> string option) \<Rightarrow> bool" where
  "documented_match route_match \<longleftrightarrow>
     (\<forall>ps p. p \<in> set ps \<longrightarrow> static_pattern p \<longrightarrow> route_match ps p = Some p) \<and>
     (\<forall>ps p q. route_match ps p = Some q \<longrightarrow> q \<in> set ps)"

text \<open>A matcher with these laws: the path itself if it is static, else the catch-all.\<close>

definition exact_match :: "string list \<Rightarrow> string \<Rightarrow> string option" where
  "exact_match ps p =
     (if p \<in> set ps \<and> static_pattern p then Some p
      else if ''*'' \<in> set ps then Some ''*'' else None)"

lemma exact_match_documented: "documented_match exact_match"
  by (auto simp: documented_match_def exact_match_def)

lemma route_table_eq:
  "route_table =
     [(''/login'', [Page LoginPage]), (''/auth/callback'', [Page AuthCallbackPage]),
      (''/'', [AuthGuardElement, Page HomePage]),
      (''/projects/:name'', [AuthGuardElement, Page ProjectPage]),
      (''/team'', [AuthGuardElement, AdminGuardElement, Page TeamPage]),
      (''/settings/api-keys'', [AuthGuardElement, AdminGuardElement, Page ApiKeysPage]),
      (''*'', [NavigateTo ''/''])]"
  by (simp add: route_table_def app_routes_def)

lemma AdminGuard_cases:
  "AdminGuard s outlet =
     (case RoleGuard Admin True False s of
        Inl e \<Rightarrow> Raised e | Inr pass \<Rightarrow> if pass then outlet else Redirect ''/'')"
  unfolding AdminGuard_def by (subst RoleGuard_cases) (simp split: sum.split)

text \<open>Everything \<open>App\<close> can answer, whatever the matcher.\<close>

lemma App_cases:
  "App route_match checked s path \<in>
     {Blank, Rendered LoginPage, Rendered AuthCallbackPage, Redirect ''/'',
      AuthGuard checked s (Rendered HomePage), AuthGuard checked s (Rendered ProjectPage),
      AuthGuard checked s (AdminGuard s (Rendered TeamPage)),
      AuthGuard checked s (AdminGuard s (Rendered ApiKeysPage))}"
proof -
  have "render_chain checked s chain \<in>
     {Rendered LoginPage, Rendered AuthCallbackPage, Redirect ''/'',
      AuthGuard checked s (Rendered HomePage), AuthGuard checked s (Rendered ProjectPage),
      AuthGuard checked s (AdminGuard s (Rendered TeamPage)),
      AuthGuard checked s (AdminGuard s (Rendered ApiKeysPage))}"
    if "map_of route_table p = Some chain" for p chain
    using that by (auto simp: route_table_eq split: if_splits)
  then show ?thesis
    by (auto simp: App_def split: option.split)
qed

lemma App_home:
  "documented_match route_match \<Longrightarrow>
     App route_match checked s ''/'' = AuthGuard checked s (Rendered HomePage)"
  by (simp add: App_def documented_match_def static_pattern_def route_table_eq)

lemma App_login:
  "documented_match route_match \<Longrightarrow> App route_match checked s ''/login'' = Rendered LoginPage"
  by (simp add: App_def documented_match_def static_pattern_def route_table_eq)

subsection \<open>The callback and login pages\<close>

text \<open>
  The effect of the callback page: the reference \<open>processed\<close> makes the second run of the
  effect (React's strict mode runs it twice) do nothing.  The result is the new reference and
  whether \<open>handleCallback\<close> is called.
\<close>

definition callback_effect :: "bool \<Rightarrow> bool \<times> bool" where
  "callback_effect processed = (if processed then (processed, False) else (True, True))"

fun callback_effects :: "nat \<Rightarrow> bool \<Rightarrow> nat" where
  "callback_effects 0 processed = 0"
| "callback_effects (Suc n) processed =
     (let (processed', called) = callback_effect processed
      in (if called then 1 else 0) + callback_effects n processed')"

text \<open>Where the page goes when the promise settles, and the session it leaves.\<close>

definition callback_settled :: "js_error + oidc_user \<Rightarrow> auth_state \<Rightarrow> auth_state \<times> string" where
  "callback_settled r s =
     (case handleCallback r s of Inl e \<Rightarrow> (s, ''/login'') | Inr s' \<Rightarrow> (s', ''/''))"

datatype login_action = DoLogin | DoSignup

definition LoginPage_view :: "login_action node" where
  "LoginPage_view =
     El ''div'' [Cls ''root'']
       [El ''div'' [Cls ''glow''] [],
        El ''div'' [Cls ''card'']
          [El ''div'' [Cls ''logoWrap''] [],
           El ''h1'' [Cls ''brand''] [Txt ''SystemScale''],
           El ''p'' [Cls ''sub''] [Txt ''Operator Dashboard''],
           El ''button'' [Cls ''primary loginBtn'', On ''click'' DoLogin] [Txt ''Sign in with Email''],
           El ''div'' [Cls ''divider''] [El ''span'' [] [Txt ''or'']],
           El ''button'' [Cls ''signupBtn'', On ''click'' DoSignup] [Txt ''Create an account''],
           El ''p'' [Cls ''hint''] [Txt ''Secured by Keycloak OIDC &middot; PKCE flow'']]]"

fun login_dispatch :: "login_action \<Rightarrow> auth_state \<Rightarrow> auth_state" where
  "login_dispatch DoLogin s = login s"
| "login_dispatch DoSignup s = signup s"

lemma callback_effects_done: "callback_effects n True = 0"
  by (induction n) (simp_all add: callback_effect_def)

lemma App_outcome:
  "App route_match checked s path = Redirect ''/'' \<or> App route_match checked s path = Redirect ''/login'' \<or>
   (\<forall>u. App route_match checked s path \<noteq> Redirect u) \<and>
   (truthy_str (auth_token s) \<or> App route_match checked s path
      \<in> {Blank, Spinner, Rendered LoginPage, Rendered AuthCallbackPage})"
  using App_cases [of route_match checked s path]
  by (auto simp: AuthGuard_def AdminGuard_cases split: if_splits sum.splits)

lemma settle_shown:
  "\<forall>u. App route_match checked s path \<noteq> Redirect u \<Longrightarrow>
     settle route_match checked s (Suc n) path = Some (App route_match checked s path)"
  by (cases "App route_match checked s path") simp_all

subsection \<open>Properties\<close>

text \<open>
  C17: whatever the router matches, a page behind the sign-in guard is rendered only when the
  stored session has been looked up and the store holds a non-empty token, and the two
  administration pages only when in addition the role guard for administrators passes.
\<close>

theorem protected_pages_are_guarded:
  assumes "App route_match checked s path = Rendered p" and "p \<notin> {LoginPage, AuthCallbackPage}"
  shows "checked \<and> truthy_str (auth_token s) \<and>
         (p \<in> {TeamPage, ApiKeysPage} \<longrightarrow> RoleGuard Admin True False s = Inr True)"
  using App_cases [of route_match checked s path] assms
  by (auto simp: AuthGuard_def AdminGuard_cases split: if_splits sum.splits)

theorem protected_pages_are_guarded_witness:
  "App exact_match True (signed_in_as ''admin'') ''/team'' = Rendered TeamPage \<and>
   RoleGuard Admin True False (signed_in_as ''admin'') = Inr True"
proof -
  have "App exact_match True (signed_in_as ''admin'') ''/team'' = Rendered TeamPage"
    by (simp add: App_def exact_match_def static_pattern_def route_table_eq AuthGuard_def
        AdminGuard_def RoleGuard_def role_or_def signed_in_as_def auth_ops sample_user_def
        truthy_str_def js_less_def ROLE_RANK_def)
  then show ?thesis
    using protected_pages_are_guarded by blast
qed

text \<open>
  C31: redirects settle: from any path, at most two redirects are followed before something is
  shown, and without a token what is shown is never a page behind the sign-in guard.
\<close>

theorem redirects_settle:
  assumes "documented_match route_match"
  shows "\<exists>r. settle route_match checked s 3 path = Some r \<and> (\<forall>u. r \<noteq> Redirect u) \<and>
           (truthy_str (auth_token s) \<or> r \<in> {Blank, Spinner, Rendered LoginPage, Rendered AuthCallbackPage})"
proof -
  let ?ok = "\<lambda>r. (\<forall>u. r \<noteq> Redirect u) \<and>
    (truthy_str (auth_token s) \<or> r \<in> {Blank, Spinner, Rendered LoginPage, Rendered AuthCallbackPage})"
  have login: "settle route_match checked s (Suc n) ''/login'' = Some (Rendered LoginPage)" for n
    by (simp add: App_login [OF assms])
  have home: "\<exists>r. settle route_match checked s (Suc (Suc n)) ''/'' = Some r \<and> ?ok r" for n
    by (simp add: App_home [OF assms] App_login [OF assms] AuthGuard_def)
  consider "App route_match checked s path = Redirect ''/''"
    | "App route_match checked s path = Redirect ''/login''"
    | "?ok (App route_match checked s path)"
    using App_outcome [of route_match checked s path] by blast
  then show ?thesis
  proof cases
    case 1
    with home [of 0] show ?thesis by (simp add: numeral_3_eq_3)
  next
    case 2
    with login [of 1] show ?thesis by (simp add: numeral_3_eq_3)
  next
    case 3
    then show ?thesis
      using settle_shown [of route_match checked s path 2] by (simp add: numeral_3_eq_3)
  qed
qed

theorem redirects_settle_witness:
  "\<exists>r. settle exact_match True auth_init 3 ''/team'' = Some r \<and> r \<in> {Blank, Spinner, Rendered LoginPage, Rendered AuthCallbackPage}"
  using redirects_settle [OF exact_match_documented, of True auth_init "''/team''"]
  by (auto simp: auth_init_def truthy_str_def)

text \<open>
  The callback page exchanges the code once, however often its effect runs; when the
  exchange yields a user with a token the operator lands on the project list, and when it
  fails, with no session before, on the login page.
\<close>

theorem callback_signs_in_once:
  assumes "documented_match route_match"
  shows "callback_effects (Suc n) False = 1 \<and>
         (access_token u = [] \<or>
            (case callback_settled (Inr u) s of
               (s', path) \<Rightarrow> settle route_match True s' 3 path = Some (Rendered HomePage))) \<and>
         (auth_token s \<noteq> None \<or>
            (case callback_settled (Inl e) s of
               (s', path) \<Rightarrow> settle route_match True s' 3 path = Some (Rendered LoginPage)))"
  using App_home [OF assms] App_login [OF assms]
  by (auto simp: callback_effects_done callback_effect_def callback_settled_def auth_ops
      numeral_3_eq_3 AuthGuard_def truthy_str_def)

theorem callback_signs_in_once_witness:
  "settle exact_match True (fst (callback_settled (Inr (sample_user ''viewer'')) auth_init)) 3
     (snd (callback_settled (Inr (sample_user ''viewer'')) auth_init)) = Some (Rendered HomePage)"
  using callback_signs_in_once [OF exact_match_documented, of 1 "sample_user ''viewer''" auth_init]
  by (simp add: sample_user_def case_prod_beta)

end
