(* ===== verification/CircularBuffer.thy ===== *)
theory CircularBuffer
  imports Js_Values
begin

section \<open>The circular buffer (server/dashboard/src/ws/CircularBuffer.ts)\<close>

text \<open>
  The class \<open>CircularBuffer\<close>: its four fields, its constructor, \<open>push\<close>,
  \<open>snapshot\<close>, \<open>size\<close> and \<open>latest\<close>.  The array \<open>buf\<close> has holes
  (\<open>None\<close> is \<open>undefined\<close>).  JavaScript's \<open>%\<close> yields \<open>NaN\<close> for a zero
  capacity, so the head is an \<open>option\<close> whose \<open>None\<close> is \<open>NaN\<close>.  The locale
  \<open>bounded_log\<close> is the contract the telemetry store relies on: the buffer shows the
  last \<open>capacity\<close> items pushed, in insertion order.
\<close>

subsection \<open>The contract\<close>

locale bounded_log =
  fixes empty :: "'b"
    and push :: "'a \<Rightarrow> 'b \<Rightarrow> 'b"
    and items :: "'b \<Rightarrow> 'a list"
    and inv :: "'b \<Rightarrow> bool"
    and cap :: nat
  assumes inv_empty: "inv empty"
    and inv_push: "inv b \<Longrightarrow> inv (push x b)"
    and items_empty: "items empty = []"
    and items_push: "inv b \<Longrightarrow> items (push x b) = last_n cap (items b @ [x])"
begin

lemma inv_pushes: "inv b \<Longrightarrow> inv (fold push xs b)"
  by (induction xs arbitrary: b) (auto intro: inv_push)

lemma items_pushes_from:
  "inv b \<Longrightarrow> length (items b) \<le> cap \<Longrightarrow> items (fold push xs b) = last_n cap (items b @ xs)"
proof (induction xs arbitrary: b)
  case Nil
  then show ?case by (simp add: last_n_short)
next
  case (Cons x xs)
  then have "items (fold push xs (push x b)) = last_n cap (last_n cap (items b @ [x]) @ xs)"
    by (simp add: inv_push items_push)
  then show ?case by (simp add: last_n_append_last_n)
qed

lemma items_pushes: "items (fold push xs empty) = last_n cap xs"
  using items_pushes_from [OF inv_empty, of xs] by (simp add: items_empty)

lemma items_bounded: "length (items (fold push xs empty)) \<le> cap"
  by (simp add: items_pushes)

end

subsection \<open>The class\<close>

record 'a circular_buffer =
  cb_capacity :: nat
  cb_buf :: "'a option list"
  cb_head :: "nat option"
  cb_count :: nat

definition mk_CircularBuffer :: "nat \<Rightarrow> 'a circular_buffer" where
  "mk_CircularBuffer capacity =
     \<lparr>cb_capacity = capacity, cb_buf = replicate capacity None, cb_head = Some 0, cb_count = 0\<rparr>"

text \<open>\<open>new Array(n)\<close> raises a \<open>RangeError\<close> unless \<open>n\<close> is an unsigned 32-bit value.\<close>

definition new_CircularBuffer :: "int \<Rightarrow> js_error + 'a circular_buffer" where
  "new_CircularBuffer capacity =
     (if 0 \<le> capacity \<and> capacity < 2 ^ 32
      then Inr (mk_CircularBuffer (nat capacity)) else Inl RangeError)"

text \<open>A write at the key \<open>NaN\<close> makes a property that is no array element: the elements stay.\<close>

definition cb_push :: "'a \<Rightarrow> 'a circular_buffer \<Rightarrow> 'a circular_buffer" where
  "cb_push item b =
     (let b1 = (case cb_head b of
                  None \<Rightarrow> b
                | Some h \<Rightarrow> b\<lparr>cb_buf := array_set (cb_buf b) h item\<rparr>);
          b2 = b1\<lparr>cb_head :=
                  (case cb_head b1 of None \<Rightarrow> None | Some h \<Rightarrow> js_mod (h + 1) (cb_capacity b1))\<rparr>
      in if cb_count b2 < cb_capacity b2 then b2\<lparr>cb_count := cb_count b2 + 1\<rparr> else b2)"

definition cb_snapshot :: "'a circular_buffer \<Rightarrow> 'a option list" where
  "cb_snapshot b =
     (if cb_count b = 0 then []
      else let start = (if cb_count b < cb_capacity b then Some 0 else cb_head b)
           in fold (\<lambda>i result. result[i :=
                      array_get (cb_buf b)
                        (case start of None \<Rightarrow> None | Some s \<Rightarrow> js_mod (s + i) (cb_capacity b))])
                [0..<cb_count b] (replicate (cb_count b) None))"

definition cb_size :: "'a circular_buffer \<Rightarrow> nat" where
  "cb_size b = cb_count b"

definition cb_latest :: "'a circular_buffer \<Rightarrow> 'a option" where
  "cb_latest b =
     (if cb_count b = 0 then None
      else array_get (cb_buf b)
             (case cb_head b of
                None \<Rightarrow> None
              | Some h \<Rightarrow> (if cb_capacity b = 0 then None
                          else Some (nat ((int h - 1 + int (cb_capacity b))
                                          mod int (cb_capacity b))))))"

subsection \<open>The representation invariant\<close>

definition cb_inv :: "nat \<Rightarrow> 'a circular_buffer \<Rightarrow> bool" where
  "cb_inv c b \<longleftrightarrow>
     0 < c \<and> cb_capacity b = c \<and> length (cb_buf b) = c \<and> cb_count b \<le> c \<and>
     (\<exists>h. cb_head b = Some h \<and> h < c \<and> (cb_count b < c \<longrightarrow> h = cb_count b)) \<and>
     (\<forall>i < cb_count b. cb_buf b ! i \<noteq> None)"

definition cb_items :: "'a circular_buffer \<Rightarrow> 'a list" where
  "cb_items b = map the (cb_snapshot b)"

lemma fold_index_update:
  "n \<le> length xs \<Longrightarrow> fold (\<lambda>i r. r[i := f i]) [0..<n] xs = map f [0..<n] @ drop n xs"
proof (induction n)
  case 0
  then show ?case by simp
next
  case (Suc n)
  then have "fold (\<lambda>i r. r[i := f i]) [0..<n] xs = map f [0..<n] @ xs ! n # drop (Suc n) xs"
    by (simp add: Cons_nth_drop_Suc)
  then show ?case by (simp add: list_update_append)
qed

lemma map_rotated_index:
  assumes "h < length xs"
  shows "map (\<lambda>i. xs ! ((h + i) mod length xs)) [0..<length xs] = drop h xs @ take h xs"
proof (rule nth_equalityI)
  show "length (map (\<lambda>i. xs ! ((h + i) mod length xs)) [0..<length xs])
          = length (drop h xs @ take h xs)"
    using assms by simp
next
  fix i
  assume "i < length (map (\<lambda>i. xs ! ((h + i) mod length xs)) [0..<length xs])"
  then have i: "i < length xs" by simp
  show "map (\<lambda>i. xs ! ((h + i) mod length xs)) [0..<length xs] ! i
          = (drop h xs @ take h xs) ! i"
  proof (cases "h + i < length xs")
    case True
    with i assms have "i < length xs - h" by simp
    with True show ?thesis by (simp add: nth_append)
  next
    case False
    then have "(h + i) mod length xs = h + i - length xs"
      using assms i by (simp add: le_mod_geq)
    moreover have "\<not> i < length xs - h" and "i - (length xs - h) = h + i - length xs"
      and "h + i - length xs < h"
      using False i assms by linarith+
    ultimately show ?thesis using i by (simp add: nth_append)
  qed
qed

text \<open>What the loop of \<open>snapshot\<close> computes: a prefix, or the array rotated at the head.\<close>

lemma cb_snapshot_eq:
  assumes "cb_inv c b"
  shows "cb_snapshot b =
           (if cb_count b < c then take (cb_count b) (cb_buf b)
            else drop (the (cb_head b)) (cb_buf b) @ take (the (cb_head b)) (cb_buf b))"
proof -
  from assms obtain h where h: "cb_head b = Some h" "h < c" "cb_count b < c \<longrightarrow> h = cb_count b"
    and b: "0 < c" "cb_capacity b = c" "length (cb_buf b) = c" "cb_count b \<le> c"
    by (auto simp: cb_inv_def)
  show ?thesis
  proof (cases "cb_count b < c")
    case True
    then have "map (\<lambda>i. array_get (cb_buf b) (js_mod i c)) [0..<cb_count b]
                 = take (cb_count b) (cb_buf b)"
      using b by (intro nth_equalityI) (auto simp: js_simps)
    then show ?thesis
      using True b by (simp add: cb_snapshot_def fold_index_update)
  next
    case False
    with b have full: "cb_count b = c" by simp
    then have "cb_snapshot b = map (\<lambda>i. array_get (cb_buf b) (js_mod (h + i) c)) [0..<c]"
      using b h by (simp add: cb_snapshot_def fold_index_update)
    also have "\<dots> = map (\<lambda>i. cb_buf b ! ((h + i) mod length (cb_buf b))) [0..<length (cb_buf b)]"
      using b by (intro map_cong) (simp_all add: js_simps)
    also have "\<dots> = drop h (cb_buf b) @ take h (cb_buf b)"
      using b h by (intro map_rotated_index) simp
    finally show ?thesis
      using full h by simp
  qed
qed

lemma cb_snapshot_length: "cb_inv c b \<Longrightarrow> length (cb_snapshot b) = cb_count b"
  by (auto simp: cb_snapshot_eq) (auto simp: cb_inv_def)

lemma cb_snapshot_defined:
  assumes "cb_inv c b"
  shows "None \<notin> set (cb_snapshot b)"
proof -
  have "\<forall>i < cb_count b. cb_buf b ! i \<noteq> None" "length (cb_buf b) = c" "cb_count b \<le> c"
    using assms by (auto simp: cb_inv_def)
  then have *: "None \<notin> set (take (cb_count b) (cb_buf b))"
    by (auto simp: in_set_conv_nth)
  show ?thesis
  proof (cases "cb_count b < c")
    case True
    with * show ?thesis by (simp add: cb_snapshot_eq [OF assms])
  next
    case False
    with * \<open>length (cb_buf b) = c\<close> have "None \<notin> set (cb_buf b)" by simp
    with False show ?thesis
      by (auto simp: cb_snapshot_eq [OF assms] dest: in_set_dropD in_set_takeD)
  qed
qed

lemma map_Some_the: "None \<notin> set xs \<Longrightarrow> map Some (map the xs) = xs"
  by (induction xs) auto

lemma cb_snapshot_items: "cb_inv c b \<Longrightarrow> cb_snapshot b = map Some (cb_items b)"
  unfolding cb_items_def by (rule map_Some_the [symmetric]) (rule cb_snapshot_defined)

lemma cb_items_unique: "cb_snapshot b = map Some xs \<Longrightarrow> cb_items b = xs"
  by (simp add: cb_items_def comp_def)

subsection \<open>The operations\<close>

lemma cb_inv_mk [inv_intros]: "0 < c \<Longrightarrow> cb_inv c (mk_CircularBuffer c)"
  by (simp add: cb_inv_def mk_CircularBuffer_def)

lemma cb_push_fields:
  assumes "cb_inv c b" and "cb_head b = Some h"
  shows "cb_push x b = b\<lparr>cb_buf := (cb_buf b)[h := Some x], cb_head := Some ((h + 1) mod c),
                          cb_count := min c (cb_count b + 1)\<rparr>"
  using assms by (auto simp: cb_push_def cb_inv_def Let_def js_simps)

lemma cb_inv_push [inv_intros]:
  assumes "cb_inv c b"
  shows "cb_inv c (cb_push x b)"
proof -
  from assms obtain h where h: "cb_head b = Some h" "h < c" "cb_count b < c \<longrightarrow> h = cb_count b"
    by (auto simp: cb_inv_def)
  have "(cb_buf b)[h := Some x] ! i \<noteq> None" if "i < min c (cb_count b + 1)" for i
    using that h assms by (cases "i = h") (auto simp: cb_inv_def less_Suc_eq)
  then show ?thesis
    using assms h by (auto simp: cb_push_fields [OF assms h(1)] cb_inv_def)
qed

lemma take_Suc_update: "n < length xs \<Longrightarrow> take (Suc n) (xs[n := x]) = take n xs @ [x]"
  by (simp add: take_Suc_conv_app_nth)

lemma rotate_update:
  assumes "h < length xs" and "h' = Suc h mod length xs"
  shows "drop h' (xs[h := x]) @ take h' (xs[h := x]) = tl (drop h xs @ take h xs) @ [x]"
proof -
  have drop: "drop h xs = xs ! h # drop (Suc h) xs"
    using assms(1) by (simp add: Cons_nth_drop_Suc)
  show ?thesis
  proof (cases "Suc h < length xs")
    case True
    with assms(2) have "h' = Suc h" by simp
    then show ?thesis
      using assms(1) by (simp add: drop take_Suc_update)
  next
    case False
    with assms have last: "length xs = Suc h" by simp
    with assms have "h' = 0" by simp
    then show ?thesis
      using take_Suc_update [OF assms(1), of x] last by (simp add: drop)
  qed
qed

lemma cb_snapshot_push:
  assumes "cb_inv c b"
  shows "cb_snapshot (cb_push x b) = last_n c (cb_snapshot b @ [Some x])"
proof -
  from assms obtain h where h: "cb_head b = Some h" "h < c" "cb_count b < c \<longrightarrow> h = cb_count b"
    and b: "0 < c" "length (cb_buf b) = c" "cb_count b \<le> c"
    by (auto simp: cb_inv_def)
  have push: "cb_buf (cb_push x b) = (cb_buf b)[h := Some x]"
    "cb_head (cb_push x b) = Some (Suc h mod c)" "cb_count (cb_push x b) = min c (cb_count b + 1)"
    by (simp_all add: cb_push_fields [OF assms h(1)])
  note snap = cb_snapshot_eq [OF cb_inv_push [OF assms, of x]]
  have rot: "drop (Suc h mod c) ((cb_buf b)[h := Some x]) @ take (Suc h mod c) ((cb_buf b)[h := Some x])
               = tl (drop h (cb_buf b) @ take h (cb_buf b)) @ [Some x]"
    using h b by (intro rotate_update) simp_all
  consider (room) "Suc (cb_count b) < c" | (last) "Suc (cb_count b) = c" | (full) "cb_count b = c"
    using b by linarith
  then show ?thesis
  proof cases
    case room
    then show ?thesis
      using h b by (simp add: snap push cb_snapshot_eq [OF assms] take_Suc_update last_n_short)
  next
    case last
    then have "cb_snapshot (cb_push x b) = take (Suc h) ((cb_buf b)[h := Some x])"
      using h b by (simp add: snap push)
    also have "\<dots> = take h (cb_buf b) @ [Some x]"
      using h b by (intro take_Suc_update) simp
    finally show ?thesis
      using last h b by (simp add: cb_snapshot_eq [OF assms] last_n_short)
  next
    case full
    then have "cb_snapshot (cb_push x b) = tl (cb_snapshot b) @ [Some x]"
      using h b rot by (simp add: snap push cb_snapshot_eq [OF assms])
    then show ?thesis
      using full b cb_snapshot_length [OF assms] by (simp add: last_n_full_snoc)
  qed
qed

lemma cb_items_push: "cb_inv c b \<Longrightarrow> cb_items (cb_push x b) = last_n c (cb_items b @ [x])"
  unfolding cb_items_def by (simp add: cb_snapshot_push last_n_map [symmetric])

lemma cb_items_mk [simp]: "cb_items (mk_CircularBuffer c) = []"
  by (simp add: cb_items_def cb_snapshot_def mk_CircularBuffer_def)

interpretation cbuf: bounded_log "mk_CircularBuffer (Suc n)" cb_push cb_items "cb_inv (Suc n)" "Suc n"
  for n
  by unfold_locales (simp_all add: inv_intros cb_items_push)

text \<open>The newest item is the last one of the snapshot.\<close>

lemma cb_latest_last:
  assumes "cb_inv c b"
  shows "cb_latest b = (if cb_items b = [] then None else Some (last (cb_items b)))"
proof (cases "cb_count b = 0")
  case True
  then show ?thesis by (simp add: cb_latest_def cb_items_def cb_snapshot_def)
next
  case False
  from assms obtain h where h: "cb_head b = Some h" "h < c" "cb_count b < c \<longrightarrow> h = cb_count b"
    and b: "0 < c" "cb_capacity b = c" "length (cb_buf b) = c" "cb_count b \<le> c"
    by (auto simp: cb_inv_def)
  define j where "j = (if h = 0 then c - 1 else h - 1)"
  have "(int h - 1 + int c) mod int c = int j"
  proof (cases "h = 0")
    case True
    with b have "int h - 1 + int c = int j" and "int j < int c" by (simp_all add: j_def)
    then show ?thesis by (simp only: mod_pos_pos_trivial)
  next
    case False
    then have "int h - 1 = int j" and "j < c" using h by (simp_all add: j_def)
    then show ?thesis by simp
  qed
  then have "cb_latest b = cb_buf b ! j"
    using False h b by (auto simp: cb_latest_def array_get_def j_def)
  also have "\<dots> = last (cb_snapshot b)"
    using False h b by (auto simp: cb_snapshot_eq [OF assms] j_def last_conv_nth nth_append
        last_take_nth)
  also have "\<dots> = Some (last (cb_items b))"
    using False cb_snapshot_length [OF assms]
    by (cases "cb_items b") (simp_all add: cb_snapshot_items [OF assms] last_map)
  finally show ?thesis
    using False cb_snapshot_length [OF assms] by (auto simp: cb_items_def)
qed

subsection \<open>Properties\<close>

text \<open>
  C15: after any sequence of pushes into a new buffer of positive capacity \<open>c\<close>, the
  snapshot is the last \<open>c\<close> items pushed, in insertion order, with no hole.
\<close>

theorem snapshot_is_last_pushed:
  assumes "0 < c"
  shows "cb_snapshot (fold cb_push xs (mk_CircularBuffer c)) = map Some (last_n c xs)"
proof -
  from assms obtain n where c: "c = Suc n" by (cases c) auto
  show ?thesis
    using cbuf.items_pushes [where n = n and xs = xs]
      cbuf.inv_pushes [OF cbuf.inv_empty, where n = n and xs = xs]
    by (simp add: c cb_snapshot_items)
qed

theorem snapshot_is_last_pushed_witness:
  "cb_snapshot (fold cb_push [1, 2, 3 :: nat] (mk_CircularBuffer 2)) = [Some 2, Some 3]"
  using snapshot_is_last_pushed [of 2 "[1, 2, 3 :: nat]"] by (simp add: last_n_def)

text \<open>
  \<open>latest\<close> is \<open>undefined\<close> exactly before the first push, and afterwards
  the item pushed last; \<open>size\<close> is the number of items pushed, capped at the capacity.
\<close>

theorem latest_and_size:
  assumes "0 < c"
  shows "cb_latest (fold cb_push xs (mk_CircularBuffer c))
           = (if xs = [] then None else Some (last xs))
       \<and> cb_size (fold cb_push xs (mk_CircularBuffer c)) = min c (length xs)"
proof -
  from assms obtain n where c: "c = Suc n" by (cases c) auto
  let ?b = "fold cb_push xs (mk_CircularBuffer c)"
  have inv: "cb_inv c ?b" and items: "cb_items ?b = last_n c xs"
    using cbuf.items_pushes [where n = n and xs = xs]
      cbuf.inv_pushes [OF cbuf.inv_empty, where n = n and xs = xs]
    by (simp_all add: c)
  have "length (cb_snapshot ?b) = cb_size ?b"
    using cb_snapshot_length [OF inv] by (simp add: cb_size_def)
  then have "cb_size ?b = min c (length xs)"
    using items by (simp add: cb_snapshot_items [OF inv])
  moreover have "last_n c xs = [] \<longleftrightarrow> xs = []"
    using assms length_last_n [of c xs] by (metis length_0_conv min_0R min_def not_gr_zero)
  ultimately show ?thesis
    using assms items by (simp add: cb_latest_last [OF inv] last_last_n)
qed

theorem latest_and_size_witness:
  "cb_latest (fold cb_push [7, 8, 9 :: nat] (mk_CircularBuffer 2)) = Some 9"
  using latest_and_size [of 2 "[7, 8, 9 :: nat]"] by simp

text \<open>
  The constructor fails with a \<open>RangeError\<close> outside the array lengths, and a buffer
  of capacity zero never shows an item, whatever is pushed.
\<close>

lemma zero_capacity_push:
  "cb_capacity b = 0 \<Longrightarrow> cb_count b = 0 \<Longrightarrow>
     cb_capacity (cb_push x b) = 0 \<and> cb_count (cb_push x b) = 0"
  by (auto simp: cb_push_def Let_def split: option.split)

lemma zero_capacity_pushes:
  "cb_capacity b = 0 \<Longrightarrow> cb_count b = 0 \<Longrightarrow> cb_count (fold cb_push xs b) = 0"
  by (induction xs arbitrary: b) (simp_all add: zero_capacity_push)

theorem constructor_and_zero_capacity:
  "(new_CircularBuffer c = (Inl RangeError :: js_error + 'a circular_buffer))
     = (c < 0 \<or> 2 ^ 32 \<le> c) \<and>
   cb_snapshot (fold cb_push xs (mk_CircularBuffer 0)) = [] \<and>
   cb_latest (fold cb_push xs (mk_CircularBuffer 0)) = None"
proof -
  have "cb_count (fold cb_push xs (mk_CircularBuffer 0)) = 0"
    by (rule zero_capacity_pushes) (simp_all add: mk_CircularBuffer_def)
  then show ?thesis
    by (auto simp: new_CircularBuffer_def cb_snapshot_def cb_latest_def)
qed

end
