(* ===== verification/TelemetryStore.thy ===== *)
theory TelemetryStore
  imports CircularBuffer
begin

section \<open>The telemetry store (server/dashboard/src/store/telemetryStore.ts)\<close>

text \<open>
  The zustand store of live telemetry: one circular buffer per vehicle, a generation counter
  the pages watch, and the two module variables that coalesce updates into one per animation
  frame.  The callback handed to \<open>requestAnimationFrame\<close> is always the flush of
  \<open>scheduleFlush\<close>, so the browser's queue is the number of pending flushes.  Keys and
  frames are type parameters: the store never looks inside either; a key that is a new object,
  which the map finds again under no key, is an operation of its own.
\<close>

definition CAPACITY :: nat where
  "CAPACITY = 1000"

lemma new_CircularBuffer_CAPACITY:
  "new_CircularBuffer (int CAPACITY) = Inr (mk_CircularBuffer CAPACITY)"
  by (simp add: new_CircularBuffer_def CAPACITY_def)

record ('k, 'f) telemetry_state =
  generation :: nat
  buffers :: "'k \<rightharpoonup> 'f circular_buffer"
  rafScheduled :: bool
  dirty :: bool
  rafQueue :: nat

definition telemetry_init :: "('k, 'f) telemetry_state" where
  "telemetry_init = \<lparr>generation = 0, buffers = Map.empty, rafScheduled = False,
                     dirty = False, rafQueue = 0\<rparr>"

definition scheduleFlush :: "('k, 'f) telemetry_state \<Rightarrow> ('k, 'f) telemetry_state" where
  "scheduleFlush s =
     (if rafScheduled s then s else s\<lparr>rafScheduled := True, rafQueue := rafQueue s + 1\<rparr>)"

definition flush :: "('k, 'f) telemetry_state \<Rightarrow> ('k, 'f) telemetry_state" where
  "flush s =
     (let s1 = s\<lparr>rafScheduled := False\<rparr>
      in if dirty s1 then s1\<lparr>dirty := False, generation := generation s1 + 1\<rparr> else s1)"

definition telemetry_push ::
  "'k \<Rightarrow> 'f \<Rightarrow> ('k, 'f) telemetry_state \<Rightarrow> ('k, 'f) telemetry_state" where
  "telemetry_push vehicleId frame s =
     (let buf = (case buffers s vehicleId of None \<Rightarrow> mk_CircularBuffer CAPACITY | Some b \<Rightarrow> b);
          s1 = s\<lparr>buffers := (buffers s)(vehicleId \<mapsto> cb_push frame buf), dirty := True\<rparr>
      in scheduleFlush s1)"

text \<open>
  A JavaScript map compares objects by identity, so a key that is an object just made is equal
  to no other key: the buffer put under it can never be looked up, and is left out here.
\<close>

definition telemetry_push_object :: "('k, 'f) telemetry_state \<Rightarrow> ('k, 'f) telemetry_state" where
  "telemetry_push_object s = scheduleFlush (s\<lparr>dirty := True\<rparr>)"

definition getBuffer :: "('k, 'f) telemetry_state \<Rightarrow> 'k \<Rightarrow> 'f circular_buffer option" where
  "getBuffer s vehicleId = buffers s vehicleId"

definition telemetry_reset :: "'k \<Rightarrow> ('k, 'f) telemetry_state \<Rightarrow> ('k, 'f) telemetry_state" where
  "telemetry_reset vehicleId s =
     s\<lparr>buffers := (buffers s)(vehicleId := None), generation := generation s + 1\<rparr>"

text \<open>The browser's next animation frame runs the callbacks queued before it.\<close>

definition animation_frame :: "('k, 'f) telemetry_state \<Rightarrow> ('k, 'f) telemetry_state" where
  "animation_frame s = (flush ^^ rafQueue s) (s\<lparr>rafQueue := 0\<rparr>)"

datatype ('k, 'f) telemetry_event = Push 'k 'f | PushObject | Reset 'k | Frame

fun telemetry_step ::
  "('k, 'f) telemetry_state \<Rightarrow> ('k, 'f) telemetry_event \<Rightarrow> ('k, 'f) telemetry_state" where
  "telemetry_step s (Push k f) = telemetry_push k f s"
| "telemetry_step s PushObject = telemetry_push_object s"
| "telemetry_step s (Reset k) = telemetry_reset k s"
| "telemetry_step s Frame = animation_frame s"

subsection \<open>A family of bounded logs\<close>

text \<open>
  What the store does with any bounded log: look a key up, create a log on the first push,
  push, forget a key.  The abstract family maps a key to the items pushed since it was last
  forgotten; \<open>family_step\<close> is that description, and the locale shows that looking a key up
  gives the last \<open>cap\<close> of its items.
\<close>

fun family_step :: "('k \<rightharpoonup> 'f list) \<Rightarrow> ('k, 'f) telemetry_event \<Rightarrow> ('k \<rightharpoonup> 'f list)" where
  "family_step m (Push k f) = m(k \<mapsto> (case m k of None \<Rightarrow> [] | Some fs \<Rightarrow> fs) @ [f])"
| "family_step m PushObject = m"
| "family_step m (Reset k) = m(k := None)"
| "family_step m Frame = m"

locale log_family = bounded_log empty push items inv cap
  for empty :: "'b" and push :: "'f \<Rightarrow> 'b \<Rightarrow> 'b" and items :: "'b \<Rightarrow> 'f list"
    and inv :: "'b \<Rightarrow> bool" and cap :: nat +
  fixes find :: "'s \<Rightarrow> 'k \<Rightarrow> 'b option"
    and step :: "'s \<Rightarrow> ('k, 'f) telemetry_event \<Rightarrow> 's"
  assumes find_push: "find (step s (Push k f)) k'
      = (if k' = k then Some (push f (case find s k of None \<Rightarrow> empty | Some b \<Rightarrow> b)) else find s k')"
    and find_reset: "find (step s (Reset k)) k' = (if k' = k then None else find s k')"
    and find_frame: "find (step s Frame) k' = find s k'" "find (step s PushObject) k' = find s k'"
begin

definition represents :: "'s \<Rightarrow> ('k \<rightharpoonup> 'f list) \<Rightarrow> bool" where
  "represents s m \<longleftrightarrow>
     (\<forall>k. rel_option (\<lambda>b fs. inv b \<and> items b = last_n cap fs) (find s k) (m k))"

lemma represents_step:
  assumes "represents s m"
  shows "represents (step s e) (family_step m e)"
proof (cases e)
  case (Push k f)
  have "inv (push f (case find s k of None \<Rightarrow> empty | Some b \<Rightarrow> b)) \<and>
        items (push f (case find s k of None \<Rightarrow> empty | Some b \<Rightarrow> b))
          = last_n cap ((case m k of None \<Rightarrow> [] | Some fs \<Rightarrow> fs) @ [f])"
    using assms [unfolded represents_def, rule_format, of k]
    by (cases "find s k"; cases "m k")
      (auto simp: inv_push inv_empty items_push items_empty last_n_append_last_n)
  then show ?thesis
    using assms Push by (simp add: represents_def find_push)
qed (use assms in \<open>simp_all add: represents_def find_reset find_frame\<close>)

lemma represents_run:
  "represents s m \<Longrightarrow> represents (foldl step s es) (foldl family_step m es)"
  by (induction es arbitrary: s m) (auto intro: represents_step)

lemma find_run:
  assumes "\<And>k. find s k = None"
  shows "rel_option (\<lambda>b fs. inv b \<and> items b = last_n cap fs)
           (find (foldl step s es) k) (foldl family_step Map.empty es k)"
proof -
  have "represents s Map.empty"
    using assms by (simp add: represents_def)
  from represents_run [OF this, of es] show ?thesis
    by (simp add: represents_def)
qed

end

subsection \<open>The invariant\<close>

definition telemetry_inv :: "('k, 'f) telemetry_state \<Rightarrow> bool" where
  "telemetry_inv s \<longleftrightarrow>
     rafQueue s = (if rafScheduled s then 1 else 0) \<and>
     (dirty s \<longrightarrow> rafScheduled s) \<and>
     (\<forall>b \<in> ran (buffers s). cb_inv CAPACITY b)"

lemma buffers_scheduleFlush [simp]: "buffers (scheduleFlush s) = buffers s"
  by (simp add: scheduleFlush_def)

lemma buffers_flush [simp]: "buffers (flush s) = buffers s"
  by (simp add: flush_def Let_def)

lemma buffers_flushes [simp]: "buffers ((flush ^^ n) s) = buffers s"
  by (induction n) simp_all

lemma buffers_frame [simp]: "buffers (animation_frame s) = buffers s"
  by (simp add: animation_frame_def)

lemma buffers_push:
  "buffers (telemetry_push k f s)
     = (buffers s)(k \<mapsto> cb_push f (case buffers s k of None \<Rightarrow> mk_CircularBuffer CAPACITY
                                                     | Some b \<Rightarrow> b))"
  by (simp add: telemetry_push_def Let_def)

lemma buffers_push_object [simp]: "buffers (telemetry_push_object s) = buffers s"
  by (simp add: telemetry_push_object_def)

lemma frame_pending:
  "rafQueue s = 1 \<Longrightarrow> animation_frame s =
     (if dirty s then s\<lparr>rafQueue := 0, rafScheduled := False, dirty := False,
                       generation := generation s + 1\<rparr>
      else s\<lparr>rafQueue := 0, rafScheduled := False\<rparr>)"
  by (simp add: animation_frame_def flush_def Let_def)

lemma frame_idle: "rafQueue s = 0 \<Longrightarrow> animation_frame s = s"
  by (simp add: animation_frame_def)

lemma push_flags [simp]:
  "dirty (telemetry_push k f s)"
  "rafScheduled (telemetry_push k f s)"
  "generation (telemetry_push k f s) = generation s"
  "rafQueue (telemetry_push k f s) = (if rafScheduled s then rafQueue s else rafQueue s + 1)"
  by (simp_all add: telemetry_push_def scheduleFlush_def Let_def)

lemma push_object_flags [simp]:
  "dirty (telemetry_push_object s)"
  "rafScheduled (telemetry_push_object s)"
  "generation (telemetry_push_object s) = generation s"
  "rafQueue (telemetry_push_object s) = (if rafScheduled s then rafQueue s else rafQueue s + 1)"
  by (simp_all add: telemetry_push_object_def scheduleFlush_def)

lemma push_object_inv [inv_intros]: "telemetry_inv s \<Longrightarrow> telemetry_inv (telemetry_push_object s)"
  by (simp add: telemetry_inv_def split: if_splits)

lemma push_inv [inv_intros]:
  assumes "telemetry_inv s"
  shows "telemetry_inv (telemetry_push k f s)"
proof -
  have "cb_inv CAPACITY (case buffers s k of None \<Rightarrow> mk_CircularBuffer CAPACITY | Some b \<Rightarrow> b)"
    using assms by (auto simp: telemetry_inv_def ran_def CAPACITY_def cb_inv_mk split: option.split)
  then have "\<forall>b \<in> ran (buffers (telemetry_push k f s)). cb_inv CAPACITY b"
    using assms by (auto simp: buffers_push ran_def telemetry_inv_def cb_inv_push)
  then show ?thesis
    using assms by (simp add: telemetry_inv_def split: if_splits)
qed

lemma reset_inv [inv_intros]: "telemetry_inv s \<Longrightarrow> telemetry_inv (telemetry_reset k s)"
  by (auto simp: telemetry_inv_def telemetry_reset_def ran_def)

lemma frame_inv [inv_intros]: "telemetry_inv s \<Longrightarrow> telemetry_inv (animation_frame s)"
  by (cases "rafQueue s = 0")
    (simp_all add: frame_idle, simp add: telemetry_inv_def frame_pending split: if_splits)

interpretation telemetry: event_machine telemetry_init telemetry_step telemetry_inv
proof unfold_locales
  show "telemetry_inv telemetry_init"
    by (simp add: telemetry_inv_def telemetry_init_def)
  show "telemetry_inv s \<Longrightarrow> telemetry_inv (telemetry_step s e)" for s e
    by (cases e) (simp_all add: inv_intros)
qed

interpretation telemetry_logs: log_family
  "mk_CircularBuffer CAPACITY" cb_push cb_items "cb_inv CAPACITY" CAPACITY getBuffer telemetry_step
  by unfold_locales
    (simp_all add: inv_intros cb_items_push getBuffer_def buffers_push telemetry_reset_def CAPACITY_def)

subsection \<open>When the pages are notified\<close>

text \<open>
  What a page can observe of the store's scheduling is a counter and whether a change is
  pending: the two module variables and the browser's queue refine this two-field machine.
\<close>

fun notify_step :: "nat \<times> bool \<Rightarrow> ('k, 'f) telemetry_event \<Rightarrow> nat \<times> bool" where
  "notify_step (g, p) (Push k f) = (g, True)"
| "notify_step (g, p) PushObject = (g, True)"
| "notify_step (g, p) (Reset k) = (g + 1, p)"
| "notify_step (g, p) Frame = (if p then g + 1 else g, False)"

definition notify_abs :: "('k, 'f) telemetry_state \<Rightarrow> nat \<times> bool" where
  "notify_abs s = (generation s, dirty s)"

interpretation telemetry_notify: refined_machine telemetry_init telemetry_step telemetry_inv
  notify_abs notify_step
proof unfold_locales
  fix s :: "('k, 'f) telemetry_state" and e
  assume "telemetry_inv s"
  then show "notify_abs (telemetry_step s e) = notify_step (notify_abs s) e"
    by (cases e; cases "rafQueue s = 0")
      (auto simp: notify_abs_def telemetry_reset_def frame_idle frame_pending telemetry_inv_def
        split: if_splits)
qed

lemma notify_mono: "fst a \<le> fst (foldl notify_step a es)"
proof (induction es arbitrary: a)
  case (Cons e es)
  have "fst a \<le> fst (notify_step a e)"
    by (cases a; cases e) auto
  with Cons [of "notify_step a e"] show ?case by simp
qed simp

lemma notify_pending: "g < fst (foldl notify_step (g, True) (es @ [Frame]))"
proof (induction es arbitrary: g)
  case Nil
  then show ?case by simp
next
  case (Cons e es)
  show ?case
  proof (cases e)
    case (Push k f)
    with Cons show ?thesis by simp
  next
    case PushObject
    with Cons show ?thesis by simp
  next
    case (Reset k)
    with Cons [of "g + 1"] show ?thesis by simp
  next
    case Frame
    with notify_mono [of "(g + 1, False)" "es @ [Frame]"] show ?thesis by simp
  qed
qed

lemma notify_pushes:
  "foldl notify_step (g, p) (map (\<lambda>(k, f). Push k f) ps) = (g, p \<or> ps \<noteq> [])"
  by (induction ps arbitrary: p) auto

lemma notify_abs_init [simp]: "notify_abs telemetry_init = (0, False)"
  by (simp add: notify_abs_def telemetry_init_def)

lemma generation_run:
  "generation (foldl telemetry_step telemetry_init es) = fst (foldl notify_step (0, False) es)"
  by (metis fst_conv notify_abs_def notify_abs_init telemetry_notify.abs_fold)

lemma buffer_contents:
  "case foldl family_step Map.empty es k of
     None \<Rightarrow> getBuffer (foldl telemetry_step telemetry_init es) k = None
   | Some fs \<Rightarrow> \<exists>b. getBuffer (foldl telemetry_step telemetry_init es) k = Some b \<and>
                  cb_snapshot b = map Some (last_n CAPACITY fs)"
proof -
  have "rel_option (\<lambda>b fs. cb_inv CAPACITY b \<and> cb_items b = last_n CAPACITY fs)
          (getBuffer (foldl telemetry_step telemetry_init es) k) (foldl family_step Map.empty es k)"
    by (rule telemetry_logs.find_run) (simp add: getBuffer_def telemetry_init_def)
  then show ?thesis
    by (auto simp: cb_snapshot_items split: option.splits elim: option.rel_cases)
qed

subsection \<open>Properties\<close>

text \<open>
  C23: whatever is pushed, reset and flushed, in any order (frames whose key is a new object,
  which no vehicle has, among them), the buffer of a vehicle exists
  exactly when a frame was pushed for it since its last reset, and then its snapshot is the
  last 1000 of those frames in arrival order.
\<close>

theorem store_keeps_last_frames:
  "case foldl family_step Map.empty es k of
     None \<Rightarrow> getBuffer (foldl telemetry_step telemetry_init es) k = None
   | Some fs \<Rightarrow> \<exists>b. getBuffer (foldl telemetry_step telemetry_init es) k = Some b \<and>
                  cb_snapshot b = map Some (last_n 1000 fs)"
  using buffer_contents [of es k] unfolding CAPACITY_def .

text \<open>
  C24: in every reachable state at most one flush is queued with the browser, a pending
  change has one, and every buffer is well formed with capacity 1000; the generation counter
  is the one of the two-field notification machine.
\<close>

theorem store_scheduling_invariant:
  "telemetry_inv (foldl telemetry_step telemetry_init es) \<and>
   notify_abs (foldl telemetry_step telemetry_init es) = foldl notify_step (0, False) es"
  using telemetry.inv_fold [of es] telemetry_notify.abs_fold [of es] by simp

text \<open>
  A push is never lost to the pages: whatever happens between a push and the next
  animation frame, the generation after that frame is greater than before the push.
\<close>

theorem push_is_noticed:
  "generation (foldl telemetry_step telemetry_init es)
     < generation (foldl telemetry_step telemetry_init (es @ Push k f # fs @ [Frame]))"
proof -
  obtain g p where gp: "foldl notify_step (0, False) es = (g, p)"
    by (cases "foldl notify_step (0, False) es")
  then show ?thesis
    using notify_pending [of g fs] unfolding generation_run by simp
qed

text \<open>
  Updates are coalesced: between two animation frames any number of pushes raises the
  generation by exactly one, and none at all leaves it.
\<close>

theorem pushes_coalesced:
  "generation (foldl telemetry_step telemetry_init
                 (es @ [Frame] @ map (\<lambda>(k, f). Push k f) ps @ [Frame]))
     = generation (foldl telemetry_step telemetry_init (es @ [Frame])) + (if ps = [] then 0 else 1)"
proof -
  obtain g where "foldl notify_step (0, False) (es @ [Frame]) = (g, False)"
    by (cases "foldl notify_step (0, False) es") auto
  then show ?thesis
    unfolding generation_run by (simp add: notify_pushes)
qed

end
