(* ===== verification/AlertStore.thy ===== *)
theory AlertStore
  imports Js_Values
begin

section \<open>The alert store (server/dashboard/src/store/alertStore.ts)\<close>

text \<open>
  The zustand store of alerts: the newest first, at most \<open>MAX_ALERTS\<close> of them.  The type
  of an alert is a parameter: the store never looks inside one.
\<close>

definition MAX_ALERTS :: nat where
  "MAX_ALERTS = 200"

record 'a alert_state =
  alerts :: "'a list"

definition alert_init :: "'a alert_state" where
  "alert_init = \<lparr>alerts = []\<rparr>"

definition alert_push :: "'a \<Rightarrow> 'a alert_state \<Rightarrow> 'a alert_state" where
  "alert_push alert s = s\<lparr>alerts := take MAX_ALERTS (alert # alerts s)\<rparr>"

definition alert_clear :: "'a alert_state \<Rightarrow> 'a alert_state" where
  "alert_clear s = s\<lparr>alerts := []\<rparr>"

datatype 'a alert_event = AlertPush 'a | AlertClear

fun alert_step :: "'a alert_state \<Rightarrow> 'a alert_event \<Rightarrow> 'a alert_state" where
  "alert_step s (AlertPush a) = alert_push a s"
| "alert_step s AlertClear = alert_clear s"

definition alert_inv :: "'a alert_state \<Rightarrow> bool" where
  "alert_inv s \<longleftrightarrow> length (alerts s) \<le> MAX_ALERTS"

text \<open>The alerts received since the last \<open>clear\<close>, oldest first.\<close>

fun since_clear :: "'a list \<Rightarrow> 'a alert_event \<Rightarrow> 'a list" where
  "since_clear xs (AlertPush a) = xs @ [a]"
| "since_clear xs AlertClear = []"

interpretation alert: event_machine alert_init alert_step alert_inv
proof unfold_locales
  show "alert_inv alert_init"
    by (simp add: alert_inv_def alert_init_def)
  show "alert_inv (alert_step s e)" if "alert_inv s" for s :: "'a alert_state" and e
    using that by (cases e) (simp_all add: alert_inv_def alert_push_def alert_clear_def)
qed

lemma alerts_run:
  "alerts (foldl alert_step alert_init es) = take MAX_ALERTS (rev (foldl since_clear [] es))"
proof (induction es rule: rev_induct)
  case Nil
  then show ?case by (simp add: alert_init_def)
next
  case (snoc e es)
  have "take MAX_ALERTS (a # take MAX_ALERTS xs) = take MAX_ALERTS (a # xs)" for a :: 'a and xs
    by (simp add: take_Cons' min_def)
  with snoc show ?case
    by (cases e) (simp_all add: alert_push_def alert_clear_def)
qed

text \<open>
  After any pushes and clears the store holds the newest 200 alerts received since the
  last clear, newest first.
\<close>

theorem alerts_newest_first:
  "alerts (foldl alert_step alert_init es) = take 200 (rev (foldl since_clear [] es)) \<and>
   length (alerts (foldl alert_step alert_init es)) \<le> 200"
  using alert.inv_fold [of es] by (simp add: alerts_run alert_inv_def MAX_ALERTS_def)

end
