(* ===== verification/WsManager.thy ===== *)
theory WsManager
  imports TelemetryStore AlertStore AuthStore
begin

section \<open>The WebSocket manager (server/dashboard/src/ws/WsManager.ts)\<close>

text \<open>
  The class \<open>WsManager\<close> and the part of the browser it drives.  \<open>ws_manager\<close> has the
  fields of the class; \<open>world\<close> adds the browser's sockets and timers, the notifications
  delivered to status listeners, the exceptions no handler caught, and the three stores the
  class reads and writes.  A socket is named by its position in \<open>sockets\<close>; a socket
  whose \<open>onclose\<close> field is false has had that handler set to \<open>null\<close>.  The handlers
  \<open>onopen\<close>, \<open>onmessage\<close> and \<open>onerror\<close> are never removed.

  \<open>ws_step\<close> is the environment: which call, socket event or timer comes next is not
  determined, but a socket opens only from \<open>CONNECTING\<close>, delivers messages only while
  \<open>OPEN\<close>, and closes once; a timer fires once, unless it was cleared.  The gateway's
  address and \<open>JSON.parse\<close> are the fields of \<open>ws_config\<close>; what is proved here holds for any of
  them, and \<open>GatewayText\<close> puts in the language's parser.
\<close>

datatype ws_status = Disconnected | Connecting | Connected

datatype ready_state = CONNECTING | OPEN | CLOSING | CLOSED

record socket =
  sock_url :: string
  readyState :: ready_state
  onclose :: bool
  sent :: "json list"

record ws_config =
  wsGatewayUrl :: string
  JSON_parse :: "string \<Rightarrow> json option"

record ws_manager =
  ws :: "nat option"
  subscribedIds :: "string list"
  streams :: "string list"
  retryDelay :: nat
  retryTimer :: "nat option"
  destroyed :: bool
  status :: ws_status
  listeners :: "nat list"

record world = ws_manager +
  sockets :: "socket list"
  timers :: "(nat \<times> nat) list"
  nextTimer :: nat
  notified :: "(nat \<times> ws_status) list"
  uncaught :: "js_error list"
  store_auth :: auth_state
  store_telemetry :: "(json option, json) telemetry_state"
  store_alerts :: "json alert_state"

definition world_init :: world where
  "world_init =
     \<lparr>ws = None, subscribedIds = [], streams = [''telemetry'', ''event'', ''alert'', ''assistance''],
      retryDelay = 1000, retryTimer = None, destroyed = False, status = Disconnected,
      listeners = [], sockets = [], timers = [], nextTimer = 1, notified = [], uncaught = [],
      store_auth = auth_init, store_telemetry = telemetry_init, store_alerts = alert_init\<rparr>"

subsection \<open>The browser\<close>

definition ready :: "world \<Rightarrow> nat \<Rightarrow> ready_state" where
  "ready w i = readyState (sockets w ! i)"

definition set_ready :: "nat \<Rightarrow> ready_state \<Rightarrow> world \<Rightarrow> world" where
  "set_ready i r w = w\<lparr>sockets := (sockets w)[i := (sockets w ! i)\<lparr>readyState := r\<rparr>]\<rparr>"

definition null_onclose :: "nat \<Rightarrow> world \<Rightarrow> world" where
  "null_onclose i w = w\<lparr>sockets := (sockets w)[i := (sockets w ! i)\<lparr>onclose := False\<rparr>]\<rparr>"

text \<open>\<open>close()\<close> starts the closing handshake; on a closing or closed socket it does nothing.\<close>

definition ws_close :: "nat \<Rightarrow> world \<Rightarrow> world" where
  "ws_close i w = (if ready w i \<in> {CONNECTING, OPEN} then set_ready i CLOSING w else w)"

definition raise_uncaught :: "js_error \<Rightarrow> world \<Rightarrow> world" where
  "raise_uncaught e w = w\<lparr>uncaught := uncaught w @ [e]\<rparr>"

text \<open>\<open>send()\<close> raises while connecting and discards the data once the socket is closing.\<close>

definition ws_send :: "nat \<Rightarrow> json \<Rightarrow> world \<Rightarrow> world" where
  "ws_send i m w =
     (case ready w i of
        CONNECTING \<Rightarrow> raise_uncaught InvalidStateError w
      | OPEN \<Rightarrow> w\<lparr>sockets := (sockets w)[i := (sockets w ! i)\<lparr>sent := sent (sockets w ! i) @ [m]\<rparr>]\<rparr>
      | _ \<Rightarrow> w)"

definition clear_timer :: "nat \<Rightarrow> world \<Rightarrow> world" where
  "clear_timer t w = w\<lparr>timers := filter (\<lambda>(i, d). i \<noteq> t) (timers w)\<rparr>"

subsection \<open>The class\<close>

definition onStatusChange :: "nat \<Rightarrow> world \<Rightarrow> world" where
  "onStatusChange fn w = w\<lparr>listeners := set_add fn (listeners w)\<rparr>"

definition offStatusChange :: "nat \<Rightarrow> world \<Rightarrow> world" where
  "offStatusChange fn w = w\<lparr>listeners := set_delete fn (listeners w)\<rparr>"

definition setStatus :: "ws_status \<Rightarrow> world \<Rightarrow> world" where
  "setStatus s w =
     (if status w = s then w
      else w\<lparr>status := s, notified := notified w @ map (\<lambda>fn. (fn, s)) (listeners w)\<rparr>)"

definition clearRetryTimer :: "world \<Rightarrow> world" where
  "clearRetryTimer w =
     (case retryTimer w of None \<Rightarrow> w | Some t \<Rightarrow> (clear_timer t w)\<lparr>retryTimer := None\<rparr>)"

definition drop_socket :: "nat \<Rightarrow> world \<Rightarrow> world" where
  "drop_socket i w = (ws_close i (null_onclose i w))\<lparr>ws := None\<rparr>"

definition teardown :: "world \<Rightarrow> world" where
  "teardown w =
     (let w1 = clearRetryTimer (w\<lparr>destroyed := True, retryDelay := 1000\<rparr>);
          w2 = (case ws w1 of None \<Rightarrow> w1 | Some i \<Rightarrow> drop_socket i w1)
      in setStatus Disconnected w2)"

definition ws_url :: "ws_config \<Rightarrow> world \<Rightarrow> string" where
  "ws_url c w =
     wsGatewayUrl c @ ''/ws?token='' @
       (case auth_token (store_auth w) of None \<Rightarrow> '''' | Some t \<Rightarrow> t)"

definition open_socket :: "ws_config \<Rightarrow> world \<Rightarrow> world" where
  "open_socket c w =
     (if destroyed w \<or> subscribedIds w = [] then w
      else let w1 = setStatus Connecting w
           in w1\<lparr>ws := Some (length (sockets w1)),
                 sockets := sockets w1 @ [\<lparr>sock_url = ws_url c w1, readyState = CONNECTING,
                                           onclose = True, sent = []\<rparr>]\<rparr>)"

definition detach :: "world \<Rightarrow> world" where
  "detach w =
     (let w1 = clearRetryTimer w
      in case ws w1 of
           None \<Rightarrow> w1
         | Some i \<Rightarrow> if ready w1 i \<noteq> CLOSED then drop_socket i w1 else w1)"

definition reconnect :: "ws_config \<Rightarrow> world \<Rightarrow> world" where
  "reconnect c w = open_socket c (detach w)"

definition subscribe :: "ws_config \<Rightarrow> string \<Rightarrow> world \<Rightarrow> world" where
  "subscribe c vehicleId w =
     (if vehicleId \<in> set (subscribedIds w) then w
      else reconnect c (w\<lparr>subscribedIds := set_add vehicleId (subscribedIds w),
                          destroyed := False\<rparr>))"

definition unsubscribe :: "ws_config \<Rightarrow> string \<Rightarrow> world \<Rightarrow> world" where
  "unsubscribe c vehicleId w =
     (if vehicleId \<notin> set (subscribedIds w) then w
      else let w1 = w\<lparr>subscribedIds := set_delete vehicleId (subscribedIds w)\<rparr>
           in if subscribedIds w1 = [] then teardown w1 else reconnect c w1)"

definition scheduleReconnect :: "world \<Rightarrow> world" where
  "scheduleReconnect w =
     (if destroyed w \<or> subscribedIds w = [] then w
      else let w1 = setStatus Connecting w
           in w1\<lparr>retryTimer := Some (nextTimer w1),
                 timers := timers w1 @ [(nextTimer w1, retryDelay w1)],
                 nextTimer := nextTimer w1 + 1\<rparr>)"

definition retry_fired :: "ws_config \<Rightarrow> world \<Rightarrow> world" where
  "retry_fired c w = open_socket c (w\<lparr>retryDelay := min (retryDelay w * 2) 30000\<rparr>)"

subsection \<open>The socket's handlers\<close>

definition subscription_message :: "world \<Rightarrow> json" where
  "subscription_message w =
     JObj [(''vehicle_ids'', JArr (map JStr (subscribedIds w))),
           (''streams'', JArr (map JStr (streams w))),
           (''format'', JStr ''json'')]"

definition handle_open :: "world \<Rightarrow> world" where
  "handle_open w =
     (let w1 = setStatus Connected (w\<lparr>retryDelay := 1000\<rparr>)
      in case ws w1 of None \<Rightarrow> w1 | Some i \<Rightarrow> ws_send i (subscription_message w1) w1)"

datatype msg_data = Text string | Binary

text \<open>The alert made from a request for assistance; an absent device stays absent.\<close>

definition assistance_alert :: "json \<Rightarrow> js_error + json" where
  "assistance_alert frame =
     and_then (template_text (field frame ''reason'')) (\<lambda>reason.
       Inr (JObj ([(''type'', JStr ''alert'')] @
                  (case field frame ''device'' of None \<Rightarrow> [] | Some d \<Rightarrow> [(''device'', d)]) @
                  [(''level'', JStr ''warning''),
                   (''message'', JStr (''Assistance requested: '' @ reason))])))"

text \<open>
  The push of a telemetry frame.  An object or an array parsed with the frame is a new object,
  which the store's map finds again under no key.
\<close>

definition by_identity :: "json option \<Rightarrow> bool" where
  "by_identity v = (case v of Some (JArr vs) \<Rightarrow> True | Some (JObj kvs) \<Rightarrow> True | _ \<Rightarrow> False)"

lemma by_identity_simps [simp]:
  "\<not> by_identity None" "\<not> by_identity (Some (JStr s))" "\<not> by_identity (Some (JNum x))"
  by (simp_all add: by_identity_def)

definition push_frame :: "json \<Rightarrow> (json option, json) telemetry_state \<Rightarrow> (json option, json) telemetry_state" where
  "push_frame frame s =
     (if by_identity (field frame ''vehicle_id'') then telemetry_push_object s
      else telemetry_push (field frame ''vehicle_id'') frame s)"

definition handle_message :: "ws_config \<Rightarrow> msg_data \<Rightarrow> world \<Rightarrow> world" where
  "handle_message c data w =
     (case data of
        Binary \<Rightarrow> w
      | Text s \<Rightarrow>
          (case JSON_parse c s of
             None \<Rightarrow> w
           | Some frame \<Rightarrow>
               (case get_prop (Some frame) ''type'' of
                  Inl e \<Rightarrow> raise_uncaught e w
                | Inr t \<Rightarrow>
                    if is_string t ''telemetry'' then
                      w\<lparr>store_telemetry := push_frame frame (store_telemetry w)\<rparr>
                    else if is_string t ''alert'' then
                      w\<lparr>store_alerts := alert_push frame (store_alerts w)\<rparr>
                    else if is_string t ''assistance_request'' then
                      (case assistance_alert frame of
                         Inl e \<Rightarrow> raise_uncaught e w
                       | Inr a \<Rightarrow> w\<lparr>store_alerts := alert_push a (store_alerts w)\<rparr>)
                    else w)))"

definition handle_close :: "world \<Rightarrow> world" where
  "handle_close w = scheduleReconnect (setStatus Disconnected w)"

subsection \<open>The environment\<close>

datatype ws_event =
    Subscribe string
  | Unsubscribe string
  | Listen nat
  | Unlisten nat
  | SocketOpen nat
  | SocketMessage nat msg_data
  | SocketError nat
  | SocketClosing nat
  | SocketClosed nat
  | TimerFired nat
  | AuthEvent auth_event
  | TelemetryReset "json option"
  | AnimationFrame
  | AlertsCleared

definition socket_closed :: "nat \<Rightarrow> world \<Rightarrow> world" where
  "socket_closed i w =
     (let w1 = set_ready i CLOSED w
      in if onclose (sockets w1 ! i) then handle_close w1 else w1)"

inductive ws_step :: "ws_config \<Rightarrow> world \<Rightarrow> ws_event \<Rightarrow> world \<Rightarrow> bool"
  for c :: ws_config
where
  step_subscribe: "ws_step c w (Subscribe v) (subscribe c v w)"
| step_unsubscribe: "ws_step c w (Unsubscribe v) (unsubscribe c v w)"
| step_listen: "ws_step c w (Listen fn) (onStatusChange fn w)"
| step_unlisten: "ws_step c w (Unlisten fn) (offStatusChange fn w)"
| step_open: "i < length (sockets w) \<Longrightarrow> ready w i = CONNECTING \<Longrightarrow>
    ws_step c w (SocketOpen i) (handle_open (set_ready i OPEN w))"
| step_message: "i < length (sockets w) \<Longrightarrow> ready w i = OPEN \<Longrightarrow>
    ws_step c w (SocketMessage i d) (handle_message c d w)"
| step_error: "i < length (sockets w) \<Longrightarrow> ready w i \<noteq> CLOSED \<Longrightarrow>
    ws_step c w (SocketError i) w"
| step_closing: "i < length (sockets w) \<Longrightarrow> ready w i \<in> {CONNECTING, OPEN} \<Longrightarrow>
    ws_step c w (SocketClosing i) (set_ready i CLOSING w)"
| step_closed: "i < length (sockets w) \<Longrightarrow> ready w i \<noteq> CLOSED \<Longrightarrow>
    ws_step c w (SocketClosed i) (socket_closed i w)"
| step_timer: "(t, d) \<in> set (timers w) \<Longrightarrow>
    ws_step c w (TimerFired t) (retry_fired c (clear_timer t w))"
| step_auth: "ws_step c w (AuthEvent e) (w\<lparr>store_auth := auth_step (store_auth w) e\<rparr>)"
| step_reset: "ws_step c w (TelemetryReset k)
    (w\<lparr>store_telemetry := telemetry_reset k (store_telemetry w)\<rparr>)"
| step_frame: "ws_step c w AnimationFrame
    (w\<lparr>store_telemetry := animation_frame (store_telemetry w)\<rparr>)"
| step_clear: "ws_step c w AlertsCleared (w\<lparr>store_alerts := alert_clear (store_alerts w)\<rparr>)"

inductive_simps ws_step_subscribe [simp]: "ws_step c w (Subscribe v) w'"
inductive_simps ws_step_unsubscribe [simp]: "ws_step c w (Unsubscribe v) w'"
inductive_simps ws_step_open: "ws_step c w (SocketOpen i) w'"
inductive_simps ws_step_closed: "ws_step c w (SocketClosed i) w'"
inductive_simps ws_step_timer: "ws_step c w (TimerFired t) w'"
inductive_simps ws_step_message: "ws_step c w (SocketMessage i d) w'"
inductive_cases ws_stepE: "ws_step c w e w'"

end
