(* ===== verification/WsInvariant.thy ===== *)
theory WsInvariant
  imports WsManager
begin

section \<open>The invariant of the WebSocket manager\<close>

text \<open>
  The invariant every reachable state of the manager has.  It has two parts: \<open>base_inv\<close>
  says that every socket but the current one is silent and that at most one retry timer is
  pending, the one the class remembers; \<open>conn_inv\<close> ties the status, the current socket and
  the pending timer to the set of subscribed vehicles.  Each operation of the class and each
  socket or timer event keeps it.
\<close>

definition silent :: "socket \<Rightarrow> bool" where
  "silent k \<longleftrightarrow> readyState k = CLOSED \<or> (readyState k = CLOSING \<and> \<not> onclose k)"

definition others_silent :: "world \<Rightarrow> bool" where
  "others_silent w \<longleftrightarrow> (\<forall>j < length (sockets w). ws w \<noteq> Some j \<longrightarrow> silent (sockets w ! j))"

definition all_silent :: "world \<Rightarrow> bool" where
  "all_silent w \<longleftrightarrow> (\<forall>j < length (sockets w). silent (sockets w ! j))"

definition timer_ok :: "world \<Rightarrow> bool" where
  "timer_ok w \<longleftrightarrow>
     (timers w = [] \<or> (\<exists>t. timers w = [(t, retryDelay w)] \<and> retryTimer w = Some t)) \<and>
     (\<forall>t. retryTimer w = Some t \<longrightarrow> t < nextTimer w)"

definition base_inv :: "world \<Rightarrow> bool" where
  "base_inv w \<longleftrightarrow>
     distinct (subscribedIds w) \<and> 1000 \<le> retryDelay w \<and> retryDelay w \<le> 30000 \<and>
     (\<forall>i. ws w = Some i \<longrightarrow> i < length (sockets w)) \<and>
     others_silent w \<and> timer_ok w \<and> InvalidStateError \<notin> set (uncaught w)"

definition link_ok :: "socket \<Rightarrow> world \<Rightarrow> bool" where
  "link_ok k w \<longleftrightarrow>
     (case readyState k of
        CONNECTING \<Rightarrow> onclose k \<and> timers w = [] \<and> status w = Connecting \<and> sent k = []
      | OPEN \<Rightarrow> onclose k \<and> timers w = [] \<and> status w = Connected \<and>
                sent k = [subscription_message w] \<and> retryDelay w = 1000
      | CLOSING \<Rightarrow> onclose k \<and> timers w = [] \<and> status w \<noteq> Disconnected
      | CLOSED \<Rightarrow> timers w \<noteq> [] \<and> status w = Connecting)"

definition conn_inv :: "world \<Rightarrow> bool" where
  "conn_inv w \<longleftrightarrow>
     (if subscribedIds w = [] then ws w = None \<and> timers w = [] \<and> status w = Disconnected
      else \<not> destroyed w \<and> (\<exists>i. ws w = Some i \<and> link_ok (sockets w ! i) w))"

definition ws_inv :: "world \<Rightarrow> bool" where
  "ws_inv w \<longleftrightarrow> base_inv w \<and> conn_inv w"

lemmas ws_inv_defs = ws_inv_def base_inv_def conn_inv_def others_silent_def timer_ok_def

subsection \<open>What each helper leaves alone\<close>

lemma setStatus_frame [simp]:
  "ws (setStatus s w) = ws w" "subscribedIds (setStatus s w) = subscribedIds w"
  "streams (setStatus s w) = streams w" "retryDelay (setStatus s w) = retryDelay w"
  "retryTimer (setStatus s w) = retryTimer w" "destroyed (setStatus s w) = destroyed w"
  "listeners (setStatus s w) = listeners w" "sockets (setStatus s w) = sockets w"
  "timers (setStatus s w) = timers w" "nextTimer (setStatus s w) = nextTimer w"
  "uncaught (setStatus s w) = uncaught w" "store_auth (setStatus s w) = store_auth w"
  "store_telemetry (setStatus s w) = store_telemetry w"
  "store_alerts (setStatus s w) = store_alerts w" "status (setStatus s w) = s"
  by (simp_all add: setStatus_def)

lemma clearRetryTimer_frame [simp]:
  "ws (clearRetryTimer w) = ws w" "subscribedIds (clearRetryTimer w) = subscribedIds w"
  "streams (clearRetryTimer w) = streams w" "retryDelay (clearRetryTimer w) = retryDelay w"
  "retryTimer (clearRetryTimer w) = None" "destroyed (clearRetryTimer w) = destroyed w"
  "listeners (clearRetryTimer w) = listeners w" "sockets (clearRetryTimer w) = sockets w"
  "nextTimer (clearRetryTimer w) = nextTimer w" "status (clearRetryTimer w) = status w"
  "notified (clearRetryTimer w) = notified w"
  "uncaught (clearRetryTimer w) = uncaught w" "store_auth (clearRetryTimer w) = store_auth w"
  "store_telemetry (clearRetryTimer w) = store_telemetry w"
  "store_alerts (clearRetryTimer w) = store_alerts w"
  by (simp_all add: clearRetryTimer_def clear_timer_def split: option.split)

lemma clearRetryTimer_timers: "timer_ok w \<Longrightarrow> timers (clearRetryTimer w) = []"
  by (auto simp: timer_ok_def clearRetryTimer_def clear_timer_def split: option.split)

lemma drop_socket_frame [simp]:
  "ws (drop_socket i w) = None" "subscribedIds (drop_socket i w) = subscribedIds w"
  "streams (drop_socket i w) = streams w" "retryDelay (drop_socket i w) = retryDelay w"
  "retryTimer (drop_socket i w) = retryTimer w" "destroyed (drop_socket i w) = destroyed w"
  "listeners (drop_socket i w) = listeners w" "timers (drop_socket i w) = timers w"
  "length (sockets (drop_socket i w)) = length (sockets w)"
  "nextTimer (drop_socket i w) = nextTimer w" "status (drop_socket i w) = status w"
  "notified (drop_socket i w) = notified w"
  "uncaught (drop_socket i w) = uncaught w" "store_auth (drop_socket i w) = store_auth w"
  "store_telemetry (drop_socket i w) = store_telemetry w"
  "store_alerts (drop_socket i w) = store_alerts w"
  by (simp_all add: drop_socket_def ws_close_def null_onclose_def set_ready_def)

lemma drop_socket_sockets:
  assumes "i < length (sockets w)"
  shows "\<exists>k. sockets (drop_socket i w) = (sockets w)[i := k] \<and> silent k"
proof -
  let ?k = "(sockets w ! i)\<lparr>onclose := False\<rparr>"
  have "sockets (drop_socket i w)
      = (sockets w)[i := (if readyState (sockets w ! i) \<in> {CONNECTING, OPEN}
                          then ?k\<lparr>readyState := CLOSING\<rparr> else ?k)]"
    using assms by (simp add: drop_socket_def ws_close_def null_onclose_def set_ready_def ready_def)
  moreover have "silent (if readyState (sockets w ! i) \<in> {CONNECTING, OPEN}
                         then ?k\<lparr>readyState := CLOSING\<rparr> else ?k)"
    by (cases "readyState (sockets w ! i)") (simp_all add: silent_def)
  ultimately show ?thesis by blast
qed

lemma drop_socket_silent:
  assumes "others_silent w" and "ws w = Some i" and "i < length (sockets w)"
  shows "all_silent (drop_socket i w)"
  using assms drop_socket_sockets [OF assms(3)]
  by (auto simp: all_silent_def others_silent_def nth_list_update)

lemma detach_frame [simp]:
  "subscribedIds (detach w) = subscribedIds w"
  "streams (detach w) = streams w" "retryDelay (detach w) = retryDelay w"
  "retryTimer (detach w) = None" "destroyed (detach w) = destroyed w"
  "listeners (detach w) = listeners w"
  "length (sockets (detach w)) = length (sockets w)"
  "nextTimer (detach w) = nextTimer w" "status (detach w) = status w"
  "notified (detach w) = notified w"
  "uncaught (detach w) = uncaught w" "store_auth (detach w) = store_auth w"
  "store_telemetry (detach w) = store_telemetry w"
  "store_alerts (detach w) = store_alerts w"
  by (simp_all add: detach_def Let_def split: option.split)

lemma detach_timers: "timer_ok w \<Longrightarrow> timers (detach w) = []"
  by (simp add: detach_def Let_def clearRetryTimer_timers split: option.split)

lemma detach_silent:
  assumes "others_silent w" and "\<And>i. ws w = Some i \<Longrightarrow> i < length (sockets w)"
  shows "all_silent (detach w)"
proof -
  have "others_silent (clearRetryTimer w)"
    using assms by (simp add: others_silent_def)
  then show ?thesis
    using drop_socket_silent [of "clearRetryTimer w"] assms(2)
    by (auto simp: detach_def Let_def ready_def others_silent_def all_silent_def silent_def
        split: option.split)
qed

subsection \<open>The operations keep the invariant\<close>

text \<open>Opening a socket when every earlier one is silent and no timer is pending.\<close>

lemma open_socket_inv:
  assumes "all_silent w" and "timers w = []" and "subscribedIds w \<noteq> []" and "\<not> destroyed w"
    and "distinct (subscribedIds w)" and "1000 \<le> retryDelay w" and "retryDelay w \<le> 30000"
    and "\<forall>t. retryTimer w = Some t \<longrightarrow> t < nextTimer w"
    and "InvalidStateError \<notin> set (uncaught w)"
  shows "ws_inv (open_socket c w)"
  using assms
  by (auto simp: ws_inv_defs open_socket_def Let_def all_silent_def link_ok_def nth_append less_Suc_eq)

lemma reconnect_inv:
  assumes "base_inv w" and "subscribedIds w \<noteq> []" and "\<not> destroyed w"
  shows "ws_inv (reconnect c w)"
  unfolding reconnect_def
  using assms
  by (intro open_socket_inv) (auto simp: detach_silent detach_timers base_inv_def)

lemma subscribe_inv [inv_intros]:
  assumes "ws_inv w"
  shows "ws_inv (subscribe c v w)"
proof (cases "v \<in> set (subscribedIds w)")
  case True
  with assms show ?thesis by (simp add: subscribe_def)
next
  case False
  have "ws_inv (reconnect c (w\<lparr>subscribedIds := set_add v (subscribedIds w), destroyed := False\<rparr>))"
    using assms False
    by (intro reconnect_inv)
      (auto simp: ws_inv_def base_inv_def others_silent_def timer_ok_def set_add_def)
  with False show ?thesis by (simp add: subscribe_def)
qed

lemma teardown_inv:
  assumes "base_inv w" and "subscribedIds w = []"
  shows "ws_inv (teardown w)"
proof -
  let ?w = "clearRetryTimer (w\<lparr>destroyed := True, retryDelay := 1000\<rparr>)"
  have timers: "timers ?w = []"
    using assms by (auto simp: base_inv_def timer_ok_def clearRetryTimer_def clear_timer_def split: option.split)
  have "others_silent ?w"
    using assms by (simp add: base_inv_def others_silent_def)
  then show ?thesis
    using assms timers drop_socket_silent [of ?w]
    by (auto simp: teardown_def Let_def ws_inv_defs all_silent_def split: option.split)
qed

lemma unsubscribe_inv [inv_intros]:
  assumes "ws_inv w"
  shows "ws_inv (unsubscribe c v w)"
proof -
  let ?w = "w\<lparr>subscribedIds := set_delete v (subscribedIds w)\<rparr>"
  have base: "base_inv ?w"
    using assms by (auto simp: ws_inv_def base_inv_def others_silent_def timer_ok_def)
  consider "v \<notin> set (subscribedIds w)" | "v \<in> set (subscribedIds w)" "subscribedIds ?w = []"
    | "v \<in> set (subscribedIds w)" "subscribedIds ?w \<noteq> []" by blast
  then show ?thesis
  proof cases
    case 1
    with assms show ?thesis by (simp add: unsubscribe_def)
  next
    case 2
    with teardown_inv [OF base] show ?thesis by (simp add: unsubscribe_def Let_def)
  next
    case 3
    then have "\<not> destroyed w"
      using assms by (auto simp: ws_inv_def conn_inv_def split: if_splits)
    then have "ws_inv (reconnect c ?w)"
      using 3 base by (intro reconnect_inv) auto
    with 3 show ?thesis by (simp add: unsubscribe_def Let_def)
  qed
qed

subsection \<open>The socket and timer events keep the invariant\<close>

text \<open>A socket that is not silent is the current one, and the link to it is in order.\<close>

lemma current_socket:
  assumes "ws_inv w" and "i < length (sockets w)" and "\<not> silent (sockets w ! i)"
  shows "ws w = Some i \<and> subscribedIds w \<noteq> [] \<and> \<not> destroyed w \<and> link_ok (sockets w ! i) w"
  using assms by (auto simp: ws_inv_defs split: if_splits)

lemma subscription_message_cong:
  "subscribedIds w' = subscribedIds w \<Longrightarrow> streams w' = streams w \<Longrightarrow>
     subscription_message w' = subscription_message w"
  by (simp add: subscription_message_def)

lemma handle_open_inv [inv_intros]:
  assumes inv: "ws_inv w" and i: "i < length (sockets w)" and ready: "ready w i = CONNECTING"
  shows "ws_inv (handle_open (set_ready i OPEN w))"
proof -
  have "\<not> silent (sockets w ! i)"
    using ready by (simp add: silent_def ready_def)
  with inv i have cur: "ws w = Some i" "subscribedIds w \<noteq> []" "\<not> destroyed w"
      "link_ok (sockets w ! i) w"
    using current_socket by blast+
  then have link: "onclose (sockets w ! i)" "timers w = []" "sent (sockets w ! i) = []"
    using ready by (simp_all add: link_ok_def ready_def)
  let ?w = "setStatus Connected ((set_ready i OPEN w)\<lparr>retryDelay := 1000\<rparr>)"
  have step: "handle_open (set_ready i OPEN w)
      = ?w\<lparr>sockets := (sockets ?w)[i := (sockets ?w ! i)\<lparr>sent := [subscription_message ?w]\<rparr>]\<rparr>"
    using cur i link by (simp add: handle_open_def Let_def ws_send_def ready_def set_ready_def)
  show ?thesis
    unfolding step
    using inv cur i link
    by (auto simp: ws_inv_defs link_ok_def set_ready_def subscription_message_def nth_list_update)
qed

lemma socket_closing_inv [inv_intros]:
  assumes inv: "ws_inv w" and i: "i < length (sockets w)" and ready: "ready w i \<in> {CONNECTING, OPEN}"
  shows "ws_inv (set_ready i CLOSING w)"
proof -
  have "\<not> silent (sockets w ! i)"
    using ready by (auto simp: silent_def ready_def)
  with inv i have cur: "ws w = Some i" "subscribedIds w \<noteq> []" "\<not> destroyed w"
      "link_ok (sockets w ! i) w"
    using current_socket by blast+
  with inv i ready show ?thesis
    by (auto simp: ws_inv_defs link_ok_def set_ready_def ready_def nth_list_update)
qed

lemma socket_closed_current:
  assumes inv: "ws_inv w" and i: "i < length (sockets w)" and ready: "ready w i \<noteq> CLOSED"
    and cur: "ws w = Some i"
  shows "socket_closed i w = handle_close (set_ready i CLOSED w) \<and>
         subscribedIds w \<noteq> [] \<and> \<not> destroyed w \<and> timers w = []"
proof -
  have "subscribedIds w \<noteq> []" "\<not> destroyed w" "link_ok (sockets w ! i) w"
    using inv cur by (auto simp: ws_inv_def conn_inv_def split: if_splits)
  moreover from this ready have "onclose (sockets w ! i)" "timers w = []"
    by (auto simp: link_ok_def ready_def split: ready_state.splits)
  ultimately show ?thesis
    using i by (simp add: socket_closed_def Let_def set_ready_def)
qed

lemma socket_closed_inv [inv_intros]:
  assumes inv: "ws_inv w" and i: "i < length (sockets w)" and ready: "ready w i \<noteq> CLOSED"
  shows "ws_inv (socket_closed i w)"
proof (cases "ws w = Some i")
  case True
  with socket_closed_current [OF inv i ready] inv i show ?thesis
    by (auto simp: ws_inv_defs link_ok_def handle_close_def scheduleReconnect_def Let_def set_ready_def
        nth_list_update)
next
  case False
  then have "silent (sockets w ! i)"
    using inv i by (auto simp: ws_inv_defs)
  with ready have "\<not> onclose (sockets w ! i)"
    by (auto simp: silent_def ready_def)
  then have "socket_closed i w = set_ready i CLOSED w"
    using i by (simp add: socket_closed_def Let_def set_ready_def)
  then show ?thesis
    using inv i False
    by (auto simp: ws_inv_defs link_ok_def set_ready_def silent_def nth_list_update
        subscription_message_def split: if_splits ready_state.splits)
qed

lemma pending_timer:
  assumes "ws_inv w" and "(t, d) \<in> set (timers w)"
  shows "timers w = [(t, retryDelay w)] \<and> d = retryDelay w \<and> retryTimer w = Some t \<and>
         subscribedIds w \<noteq> [] \<and> \<not> destroyed w \<and> all_silent w"
proof -
  have t: "timers w = [(t, retryDelay w)]" "d = retryDelay w" "retryTimer w = Some t"
    using assms by (auto simp: ws_inv_defs)
  then obtain i where "subscribedIds w \<noteq> []" "\<not> destroyed w" "ws w = Some i" "link_ok (sockets w ! i) w"
    using assms by (auto simp: ws_inv_def conn_inv_def split: if_splits)
  moreover from this t have "silent (sockets w ! i)"
    by (auto simp: link_ok_def silent_def split: ready_state.splits)
  ultimately show ?thesis
    using assms(1) t by (auto simp: ws_inv_defs all_silent_def)
qed

lemma timer_inv [inv_intros]:
  assumes "ws_inv w" and "(t, d) \<in> set (timers w)"
  shows "ws_inv (retry_fired c (clear_timer t w))"
  unfolding retry_fired_def
  using assms pending_timer [OF assms]
  by (intro open_socket_inv) (auto simp: ws_inv_defs clear_timer_def all_silent_def)

lemma get_prop_error: "get_prop v k = Inl e \<Longrightarrow> e = TypeError"
  by (cases "(v, k)" rule: get_prop.cases) auto

text \<open>A message touches a store or records an exception; the connection is left alone.\<close>

lemma ws_inv_cong:
  assumes "ws w' = ws w" "subscribedIds w' = subscribedIds w" "streams w' = streams w"
    "retryDelay w' = retryDelay w" "retryTimer w' = retryTimer w" "destroyed w' = destroyed w"
    "status w' = status w" "sockets w' = sockets w" "timers w' = timers w"
    "nextTimer w' = nextTimer w" "InvalidStateError \<notin> set (uncaught w') - set (uncaught w)"
  shows "ws_inv w \<Longrightarrow> ws_inv w'"
  using assms subscription_message_cong [of w' w]
  by (auto simp: ws_inv_defs link_ok_def cong: ready_state.case_cong)

lemma store_update_inv [inv_intros]:
  "ws_inv w \<Longrightarrow> ws_inv (w\<lparr>store_telemetry := st\<rparr>)"
  "ws_inv w \<Longrightarrow> ws_inv (w\<lparr>store_alerts := sa\<rparr>)"
  "ws_inv w \<Longrightarrow> ws_inv (w\<lparr>store_auth := a\<rparr>)"
  "ws_inv w \<Longrightarrow> ws_inv (w\<lparr>listeners := ls\<rparr>)"
  by (erule ws_inv_cong [rotated -1]; simp)+

lemma raise_type_error_inv [inv_intros]: "ws_inv w \<Longrightarrow> ws_inv (raise_uncaught TypeError w)"
  by (erule ws_inv_cong [rotated -1]) (simp_all add: raise_uncaught_def)

lemma assistance_error: "assistance_alert f = Inl e \<Longrightarrow> e = TypeError"
  by (auto simp: assistance_alert_def and_then_def template_text_error split: sum.splits)

lemma handle_message_inv [inv_intros]: "ws_inv w \<Longrightarrow> ws_inv (handle_message c d w)"
  by (auto simp: handle_message_def inv_intros dest!: get_prop_error assistance_error
      split: msg_data.split option.split sum.split)

lemma world_init_inv: "ws_inv world_init"
  by (simp add: ws_inv_defs world_init_def)

lemma ws_step_inv:
  assumes "ws_inv w" and "ws_step c w e w'"
  shows "ws_inv w'"
  using assms(2,1)
  by (cases rule: ws_step.cases)
    (simp_all add: inv_intros onStatusChange_def offStatusChange_def)

interpretation ws_manager: transition_system "\<lambda>w. w = world_init" "ws_step c" ws_inv for c
  by unfold_locales (auto simp: world_init_inv intro: ws_step_inv)

end
