(* ===== verification/WsBehaviour.thy ===== *)
theory WsBehaviour
  imports WsInvariant
begin

section \<open>What the WebSocket manager guarantees\<close>

text \<open>
  The properties of \<open>WsManager\<close> over all runs of the environment, from the invariant: one
  live connection, a truthful status, recovery from every state, the back-off schedule, the
  meaning of the subscription set, silence after the last vehicle leaves, and the routing of
  frames into the stores.
\<close>

abbreviation ws_runs :: "ws_config \<Rightarrow> ws_event list \<Rightarrow> world \<Rightarrow> bool" where
  "ws_runs c es w \<equiv> runs (ws_step c) world_init es w"

lemma runs_inv: "ws_runs c es w \<Longrightarrow> ws_inv w"
  by (rule ws_manager.inv_runs [OF refl])

subsection \<open>A run to apply the properties to\<close>

definition bad_request :: json where
  "bad_request = JObj [(''type'', JStr ''assistance_request''), (''reason'', JObj [(''toString'', JNum 1)])]"

definition bad_request_text :: string where
  "bad_request_text = ''{\"type\":\"assistance_request\",\"reason\":{\"toString\":1}}''"

definition demo_config :: ws_config where
  "demo_config = \<lparr>wsGatewayUrl = ''ws://gw'',
     JSON_parse = (\<lambda>s. if s = ''null'' then Some JNull
       else if s = bad_request_text then Some bad_request else None)\<rparr>"

definition demo_connecting :: world where
  "demo_connecting = subscribe demo_config ''v1'' world_init"

definition demo_open :: world where
  "demo_open = handle_open (set_ready 0 OPEN demo_connecting)"

lemmas ws_ops = subscribe_def reconnect_def detach_def open_socket_def clearRetryTimer_def
  setStatus_def handle_open_def ws_send_def set_ready_def ready_def set_add_def Let_def

lemma demo_connecting_state:
  "sockets demo_connecting = [\<lparr>sock_url = ''ws://gw/ws?token='', readyState = CONNECTING,
                               onclose = True, sent = []\<rparr>]"
  "ws demo_connecting = Some 0" "subscribedIds demo_connecting = [''v1'']"
  "status demo_connecting = Connecting" "retryDelay demo_connecting = 1000"
  "nextTimer demo_connecting = 1"
  by (simp_all add: demo_connecting_def world_init_def ws_ops ws_url_def demo_config_def auth_init_def)

lemma demo_connecting_run: "ws_runs demo_config [Subscribe ''v1''] demo_connecting"
  by (simp add: runs_Cons_iff demo_connecting_def)

lemma demo_open_run: "ws_runs demo_config [Subscribe ''v1'', SocketOpen 0] demo_open"
proof -
  have "ws_step demo_config demo_connecting (SocketOpen 0) demo_open"
    unfolding demo_open_def
    by (rule step_open) (simp_all add: demo_connecting_state ready_def)
  from runs_snocI [OF demo_connecting_run this] show ?thesis by simp
qed

lemma handle_message_sockets: "sockets (handle_message c d w) = sockets w"
  by (simp add: handle_message_def raise_uncaught_def split: msg_data.split option.split sum.split)

lemma handle_message_ready: "ready (handle_message c d w) i = ready w i"
  by (simp add: ready_def handle_message_sockets)

lemma demo_open_state:
  "length (sockets demo_open) = 1" "ready demo_open 0 = OPEN" "subscribedIds demo_open = [''v1'']"
  by (simp_all add: demo_open_def ws_ops demo_connecting_state)

subsection \<open>Connections, status and timers\<close>

lemma not_silent_live: "ready w i \<in> {CONNECTING, OPEN} \<Longrightarrow> \<not> silent (sockets w ! i)"
  by (auto simp: silent_def ready_def)

lemma link_status:
  "link_ok k w \<Longrightarrow> status w \<noteq> Disconnected"
  "link_ok k w \<Longrightarrow> status w = Connected \<Longrightarrow> readyState k \<in> {OPEN, CLOSING}"
  by (cases "readyState k"; simp add: link_ok_def)+

text \<open>
  C7: in every reachable state at most one socket is connecting or open, it is the current
  one, and while it lives no retry timer is pending; never are two timers pending.
\<close>

theorem one_live_connection:
  assumes "ws_runs c es w"
  shows "(\<forall>i < length (sockets w). ready w i \<in> {CONNECTING, OPEN} \<longrightarrow> ws w = Some i \<and> timers w = []) \<and>
         length (timers w) \<le> 1"
proof -
  from assms have inv: "ws_inv w" by (rule runs_inv)
  have "ws w = Some i \<and> timers w = []" if "i < length (sockets w)" "ready w i \<in> {CONNECTING, OPEN}" for i
    using current_socket [OF inv that(1) not_silent_live [OF that(2)]] that(2)
    by (auto simp: link_ok_def ready_def)
  moreover have "length (timers w) \<le> 1"
    using inv by (auto simp: ws_inv_defs)
  ultimately show ?thesis by blast
qed

theorem one_live_connection_witness:
  "ws demo_open = Some 0 \<and> timers demo_open = []"
  using one_live_connection [OF demo_open_run] by (simp add: demo_open_state)

text \<open>
  C8: the status never lies: it is \<open>disconnected\<close> exactly when no vehicle is subscribed,
  \<open>connected\<close> only when the current socket is open or closing, and an open socket has been
  sent exactly one subscription, naming exactly the vehicles now subscribed.
\<close>

theorem status_tells_the_truth:
  assumes "ws_runs c es w"
  shows "(status w = Disconnected \<longleftrightarrow> subscribedIds w = []) \<and>
         (status w = Connected \<longrightarrow> (\<exists>i. ws w = Some i \<and> ready w i \<in> {OPEN, CLOSING})) \<and>
         (\<forall>i < length (sockets w). ready w i = OPEN \<longrightarrow>
            status w = Connected \<and> sent (sockets w ! i) = [subscription_message w])"
proof -
  from assms have inv: "ws_inv w" by (rule runs_inv)
  have "status w = Connected \<and> sent (sockets w ! i) = [subscription_message w]"
    if "i < length (sockets w)" "ready w i = OPEN" for i
    using current_socket [OF inv that(1) not_silent_live] that(2)
    by (auto simp: link_ok_def ready_def)
  moreover have "status w = Disconnected \<longleftrightarrow> subscribedIds w = []"
    using inv by (auto simp: ws_inv_def conn_inv_def dest: link_status(1) split: if_splits)
  moreover have "\<exists>i. ws w = Some i \<and> ready w i \<in> {OPEN, CLOSING}" if "status w = Connected"
    using inv that by (auto simp: ws_inv_def conn_inv_def ready_def dest: link_status(2)
        split: if_splits)
  ultimately show ?thesis by blast
qed

theorem status_tells_the_truth_witness:
  "status demo_open = Connected \<and> sent (sockets demo_open ! 0) = [subscription_message demo_open]"
  using status_tells_the_truth [OF demo_open_run] by (simp add: demo_open_state)

subsection \<open>Recovery\<close>

text \<open>The three events by which a cooperating network brings a connection up.\<close>

fun network_event :: "ws_event \<Rightarrow> bool" where
  "network_event (SocketOpen i) = True"
| "network_event (SocketClosed i) = True"
| "network_event (TimerFired t) = True"
| "network_event e = False"

definition up :: "world \<Rightarrow> bool" where
  "up w \<longleftrightarrow> status w = Connected \<and> (\<exists>i. ws w = Some i \<and> ready w i = OPEN)"

lemma open_socket_connecting:
  assumes "subscribedIds w \<noteq> []" and "\<not> destroyed w"
  shows "ws (open_socket c w) = Some (length (sockets w)) \<and>
         length (sockets (open_socket c w)) = Suc (length (sockets w)) \<and>
         ready (open_socket c w) (length (sockets w)) = CONNECTING \<and>
         subscribedIds (open_socket c w) = subscribedIds w \<and>
         retryDelay (open_socket c w) = retryDelay w \<and>
         nextTimer (open_socket c w) = nextTimer w"
  using assms by (simp add: open_socket_def Let_def ready_def)

lemma connecting_comes_up:
  assumes inv: "ws_inv w" and cur: "ws w = Some i" and ready: "ready w i = CONNECTING"
  shows "\<exists>w'. ws_step c w (SocketOpen i) w' \<and> up w' \<and> subscribedIds w' = subscribedIds w"
proof -
  have i: "i < length (sockets w)"
    using inv cur by (auto simp: ws_inv_defs)
  have "ws_step c w (SocketOpen i) (handle_open (set_ready i OPEN w))"
    using i ready by (rule step_open)
  moreover have "up (handle_open (set_ready i OPEN w)) \<and>
      subscribedIds (handle_open (set_ready i OPEN w)) = subscribedIds w"
    using i cur by (simp add: up_def handle_open_def Let_def ws_send_def ready_def set_ready_def)
  ultimately show ?thesis by blast
qed

lemma waiting_comes_up:
  assumes inv: "ws_inv w" and wait: "timers w \<noteq> []"
  shows "\<exists>fs w'. length fs = 2 \<and> (\<forall>f \<in> set fs. network_event f) \<and> runs (ws_step c) w fs w' \<and>
           up w' \<and> subscribedIds w' = subscribedIds w"
proof -
  from wait obtain t d where td: "(t, d) \<in> set (timers w)" by (cases "timers w") auto
  let ?w = "retry_fired c (clear_timer t w)"
  have inv': "ws_inv ?w" and step: "ws_step c w (TimerFired t) ?w"
    using timer_inv [OF inv td] td by (auto intro: step_timer)
  obtain i where "ws ?w = Some i" "ready ?w i = CONNECTING" and ids: "subscribedIds ?w = subscribedIds w"
    using pending_timer [OF inv td] open_socket_connecting [of "(clear_timer t w)\<lparr>retryDelay := _\<rparr>"]
    by (simp add: retry_fired_def clear_timer_def)
  then obtain w' where "ws_step c ?w (SocketOpen i) w'" "up w'" "subscribedIds w' = subscribedIds ?w"
    using connecting_comes_up [OF inv'] by blast
  then show ?thesis
    using step ids by (intro exI [of _ "[TimerFired t, SocketOpen i]"] exI [of _ w'])
      (auto simp: runs_Cons_iff)
qed

lemma closed_waits:
  assumes inv: "ws_inv w" and cur: "ws w = Some i" and ready: "ready w i \<noteq> CLOSED"
  shows "ws_step c w (SocketClosed i) (socket_closed i w) \<and>
         timers (socket_closed i w) = [(nextTimer w, retryDelay w)] \<and>
         subscribedIds (socket_closed i w) = subscribedIds w \<and>
         retryDelay (socket_closed i w) = retryDelay w \<and>
         length (sockets (socket_closed i w)) = length (sockets w)"
proof -
  have i: "i < length (sockets w)"
    using inv cur by (auto simp: ws_inv_defs)
  show ?thesis
    using socket_closed_current [OF inv i ready cur] step_closed [OF i ready, of c]
    by (simp add: handle_close_def scheduleReconnect_def Let_def set_ready_def)
qed

text \<open>
  C9: the manager is never stuck: from every reachable state with a subscribed vehicle,
  three or fewer events of a cooperating network (the socket closes, the retry timer fires,
  the new socket opens) lead to a connected state with the same subscriptions.
\<close>

theorem always_recovers:
  assumes "ws_runs c es w" and "subscribedIds w \<noteq> []"
  shows "\<exists>fs w'. length fs \<le> 3 \<and> (\<forall>f \<in> set fs. network_event f) \<and>
           runs (ws_step c) w fs w' \<and> up w' \<and> subscribedIds w' = subscribedIds w"
proof -
  have inv: "ws_inv w" using assms(1) by (rule runs_inv)
  with assms(2) obtain i where cur: "ws w = Some i" and link: "link_ok (sockets w ! i) w"
    by (auto simp: ws_inv_def conn_inv_def)
  show ?thesis
  proof (cases "ready w i")
    case CONNECTING
    then obtain w' where "ws_step c w (SocketOpen i) w'" "up w'" "subscribedIds w' = subscribedIds w"
      using connecting_comes_up [OF inv cur] by blast
    then show ?thesis
      by (intro exI [of _ "[SocketOpen i]"] exI [of _ w']) (simp add: runs_Cons_iff)
  next
    case OPEN
    then have "up w" using cur link by (simp add: up_def link_ok_def ready_def)
    then show ?thesis by (intro exI [of _ "[]"] exI [of _ w]) simp
  next
    case CLOSING
    let ?w = "socket_closed i w"
    have step: "ws_step c w (SocketClosed i) ?w" and "timers ?w \<noteq> []"
      and ids: "subscribedIds ?w = subscribedIds w"
      using closed_waits [OF inv cur] CLOSING by simp_all
    then obtain fs w' where "length fs = 2" "\<forall>f \<in> set fs. network_event f" "runs (ws_step c) ?w fs w'"
      "up w'" "subscribedIds w' = subscribedIds ?w"
      using waiting_comes_up [OF ws_step_inv [OF inv step]] by blast
    then show ?thesis
      using step ids by (intro exI [of _ "SocketClosed i # fs"] exI [of _ w']) (auto simp: runs_Cons_iff)
  next
    case CLOSED
    then have "timers w \<noteq> []" using link by (simp add: link_ok_def ready_def)
    then obtain fs w' where "length fs = 2" "\<forall>f \<in> set fs. network_event f" "runs (ws_step c) w fs w'"
      "up w'" "subscribedIds w' = subscribedIds w"
      using waiting_comes_up [OF inv] by blast
    then show ?thesis by (intro exI [of _ fs] exI [of _ w']) simp
  qed
qed

theorem always_recovers_witness:
  "\<exists>fs w'. length fs \<le> 3 \<and> runs (ws_step demo_config) demo_connecting fs w' \<and> up w'"
  using always_recovers [OF demo_connecting_run] by (auto simp: demo_connecting_state)

subsection \<open>Back-off\<close>

text \<open>One failed attempt: the current socket closes, and the timer that this set fires.\<close>

definition fail_cycle :: "ws_config \<Rightarrow> world \<Rightarrow> world" where
  "fail_cycle c w =
     (case ws w of
        None \<Rightarrow> w
      | Some i \<Rightarrow> retry_fired c (clear_timer (nextTimer w) (socket_closed i w)))"

definition attempting :: "world \<Rightarrow> bool" where
  "attempting w \<longleftrightarrow> (\<exists>i. ws w = Some i \<and> ready w i \<noteq> CLOSED)"

lemma fail_cycle_step:
  assumes inv: "ws_inv w" and att: "attempting w"
  shows "(\<exists>fs. length fs = 2 \<and> runs (ws_step c) w fs (fail_cycle c w)) \<and>
         attempting (fail_cycle c w) \<and>
         retryDelay (fail_cycle c w) = min (retryDelay w * 2) 30000"
proof -
  from att obtain i where cur: "ws w = Some i" and ready: "ready w i \<noteq> CLOSED"
    by (auto simp: attempting_def)
  let ?w1 = "socket_closed i w"
  have close: "ws_step c w (SocketClosed i) ?w1" "timers ?w1 = [(nextTimer w, retryDelay w)]"
    "retryDelay ?w1 = retryDelay w"
    using closed_waits [OF inv cur ready, of c] by simp_all
  have inv1: "ws_inv ?w1" using ws_step_inv [OF inv close(1)] .
  have pend: "subscribedIds ?w1 \<noteq> []" "\<not> destroyed ?w1"
    using pending_timer [OF inv1, of "nextTimer w" "retryDelay w"] close(2) by simp_all
  have fire: "ws_step c ?w1 (TimerFired (nextTimer w)) (fail_cycle c w)"
    using step_timer [of "nextTimer w" "retryDelay w" ?w1 c] close(2) cur by (simp add: fail_cycle_def)
  have "runs (ws_step c) w [SocketClosed i, TimerFired (nextTimer w)] (fail_cycle c w)"
    using close(1) fire by (auto simp: runs_Cons_iff)
  moreover have "attempting (fail_cycle c w) \<and> retryDelay (fail_cycle c w) = min (retryDelay w * 2) 30000"
    using pend cur close(3)
      open_socket_connecting [of "(clear_timer (nextTimer w) ?w1)\<lparr>retryDelay := min (retryDelay w * 2) 30000\<rparr>" c]
    by (simp add: fail_cycle_def retry_fired_def attempting_def clear_timer_def)
  ultimately show ?thesis
    by (metis length_Cons list.size(3) numeral_2_eq_2)
qed

lemma min_double: "min (min (2 ^ n * d) m * 2) m = min (2 ^ Suc n * d) (m :: nat)"
  by (simp add: min_def)

lemma fail_cycles:
  assumes "ws_inv w" and "attempting w"
  shows "(\<exists>fs. length fs = 2 * n \<and> runs (ws_step c) w fs ((fail_cycle c ^^ n) w)) \<and>
         attempting ((fail_cycle c ^^ n) w) \<and> ws_inv ((fail_cycle c ^^ n) w) \<and>
         retryDelay ((fail_cycle c ^^ n) w) = min (2 ^ n * retryDelay w) 30000"
proof (induction n)
  case 0
  have "retryDelay w \<le> 30000" using assms(1) by (simp add: ws_inv_def base_inv_def)
  then show ?case using assms by simp
next
  case (Suc n)
  let ?w = "(fail_cycle c ^^ n) w"
  from Suc obtain fs where fs: "length fs = 2 * n" "runs (ws_step c) w fs ?w"
    and inv: "ws_inv ?w" and att: "attempting ?w"
    and delay: "retryDelay ?w = min (2 ^ n * retryDelay w) 30000" by blast
  from fail_cycle_step [OF inv att, of c] obtain gs
    where gs: "length gs = 2" "runs (ws_step c) ?w gs (fail_cycle c ?w)"
      and att': "attempting (fail_cycle c ?w)"
      and delay': "retryDelay (fail_cycle c ?w) = min (retryDelay ?w * 2) 30000" by blast
  have "runs (ws_step c) w (fs @ gs) (fail_cycle c ?w)" and "length (fs @ gs) = 2 * Suc n"
    using fs gs by (auto simp: runs_append)
  then have "\<exists>hs. length hs = 2 * Suc n \<and> runs (ws_step c) w hs (fail_cycle c ?w)"
    by blast
  moreover have "ws_inv (fail_cycle c ?w)"
    using ws_manager.inv_runs_from [OF gs(2) inv] .
  ultimately show ?case
    using att' delay delay' min_double [of n "retryDelay w" 30000] by (auto simp del: power_Suc)
qed

text \<open>
  C26: exponential back-off: when a connection attempt fails \<open>n\<close> times in a row the delay of
  the next retry is \<open>2^n\<close> times the present one, capped at 30 seconds; each failure takes the
  two events of the cycle, and the next attempt is always made.
\<close>

theorem backoff_doubles_to_cap:
  assumes "ws_runs c es w" and "attempting w"
  shows "(\<exists>fs. length fs = 2 * n \<and> runs (ws_step c) w fs ((fail_cycle c ^^ n) w)) \<and>
         attempting ((fail_cycle c ^^ n) w) \<and>
         retryDelay ((fail_cycle c ^^ n) w) = min (2 ^ n * retryDelay w) 30000"
  using fail_cycles [OF runs_inv [OF assms(1)] assms(2)] by blast

theorem backoff_doubles_to_cap_witness:
  "retryDelay ((fail_cycle demo_config ^^ 4) demo_connecting) = 16000 \<and>
   retryDelay ((fail_cycle demo_config ^^ 5) demo_connecting) = 30000"
proof -
  have "attempting demo_connecting"
    by (simp add: attempting_def demo_connecting_state ready_def)
  then show ?thesis
    using backoff_doubles_to_cap [OF demo_connecting_run, of 4]
      backoff_doubles_to_cap [OF demo_connecting_run, of 5]
    by (simp add: demo_connecting_state)
qed

subsection \<open>The subscription set\<close>

text \<open>The vehicles wanted after some calls: a set, so repeated calls do not count.\<close>

fun wanted_step :: "string set \<Rightarrow> ws_event \<Rightarrow> string set" where
  "wanted_step V (Subscribe v) = insert v V"
| "wanted_step V (Unsubscribe v) = V - {v}"
| "wanted_step V e = V"

lemma open_socket_ids [simp]: "subscribedIds (open_socket c w) = subscribedIds w"
  by (simp add: open_socket_def Let_def)

lemma teardown_ids [simp]: "subscribedIds (teardown w) = subscribedIds w"
  by (simp add: teardown_def Let_def split: option.split)

lemma reconnect_ids [simp]: "subscribedIds (reconnect c w) = subscribedIds w"
  by (simp add: reconnect_def)

lemma subscribe_ids: "subscribedIds (subscribe c v w) = set_add v (subscribedIds w)"
  by (simp add: subscribe_def set_add_def)

lemma unsubscribe_ids: "subscribedIds (unsubscribe c v w) = set_delete v (subscribedIds w)"
  by (cases "v \<in> set (subscribedIds w)") (simp_all add: unsubscribe_def Let_def set_delete_absent)

lemma set_ready_ids [simp]: "subscribedIds (set_ready i r w) = subscribedIds w"
  by (simp add: set_ready_def)

lemma handle_open_ids [simp]: "subscribedIds (handle_open w) = subscribedIds w"
  by (auto simp: handle_open_def Let_def ws_send_def raise_uncaught_def
      split: option.split ready_state.split)

lemma handle_message_ids [simp]: "subscribedIds (handle_message c d w) = subscribedIds w"
  by (auto simp: handle_message_def raise_uncaught_def split: msg_data.split option.split sum.split)

lemma socket_closed_ids [simp]: "subscribedIds (socket_closed i w) = subscribedIds w"
  by (simp add: socket_closed_def handle_close_def scheduleReconnect_def Let_def)

lemma retry_fired_ids [simp]: "subscribedIds (retry_fired c (clear_timer t w)) = subscribedIds w"
  by (simp add: retry_fired_def clear_timer_def)

lemma wanted_step_ids:
  "ws_step c w e w' \<Longrightarrow> set (subscribedIds w') = wanted_step (set (subscribedIds w)) e"
  by (cases rule: ws_step.cases, assumption)
    (simp_all add: subscribe_ids unsubscribe_ids onStatusChange_def offStatusChange_def)

lemma wanted_runs:
  "runs (ws_step c) w es w' \<Longrightarrow> set (subscribedIds w') = foldl wanted_step (set (subscribedIds w)) es"
  by (induction rule: runs.induct) (simp_all add: wanted_step_ids)

text \<open>
  C27: the subscribed vehicles after any run are those the calls ask for as a set: subscribing
  twice is subscribing once.  In particular the class does not count references: one
  \<open>unsubscribe\<close> removes a vehicle however often it was subscribed.
\<close>

theorem subscriptions_are_a_set:
  assumes "ws_runs c es w"
  shows "set (subscribedIds w) = foldl wanted_step {} es \<and> distinct (subscribedIds w) \<and>
         subscribe c v (subscribe c v w) = subscribe c v w \<and>
         v \<notin> set (subscribedIds (unsubscribe c v (subscribe c v (subscribe c v w))))"
proof -
  have "set (subscribedIds w) = foldl wanted_step {} es"
    using wanted_runs [OF assms] by (simp add: world_init_def)
  moreover have "distinct (subscribedIds w)"
    using runs_inv [OF assms] by (simp add: ws_inv_def base_inv_def)
  moreover have "v \<in> set (subscribedIds (subscribe c v w))"
    by (simp add: subscribe_ids)
  then have "subscribe c v (subscribe c v w) = subscribe c v w"
    by (simp add: subscribe_def [of c v "subscribe c v w"])
  ultimately show ?thesis
    by (simp add: unsubscribe_ids)
qed

theorem subscriptions_are_a_set_witness:
  "subscribedIds (unsubscribe demo_config ''v1''
     (subscribe demo_config ''v1'' (subscribe demo_config ''v1'' demo_open))) = []"
  using subscriptions_are_a_set [OF demo_open_run, of "''v1''"]
  by (simp add: unsubscribe_ids subscribe_ids demo_open_state set_add_def set_delete_def)

subsection \<open>After the last vehicle\<close>

lemma idle_step:
  assumes "ws_inv w" and "subscribedIds w = []" and "ws_step c w e w'" and "\<forall>v. e \<noteq> Subscribe v"
  shows "subscribedIds w' = [] \<and> length (sockets w') = length (sockets w)"
proof -
  have ids: "subscribedIds w' = []"
    using wanted_step_ids [OF assms(3)] assms(2,4) by (cases e) auto
  have "ws w = None" "timers w = []"
    using assms(1,2) by (simp_all add: ws_inv_def conn_inv_def)
  with assms(3,2,4) have "length (sockets w') = length (sockets w)"
    by (cases rule: ws_step.cases)
      (auto simp: unsubscribe_def onStatusChange_def offStatusChange_def handle_open_def set_ready_def
        Let_def handle_message_def raise_uncaught_def socket_closed_def handle_close_def
        scheduleReconnect_def split: msg_data.split option.split sum.split)
  with ids show ?thesis by simp
qed

text \<open>
  C25: once no vehicle is subscribed no socket is opened until the next \<open>subscribe\<close>: whatever
  else happens the manager stays disconnected, with no timer pending.
\<close>

theorem silence_after_last_vehicle:
  assumes "ws_runs c es w" and "subscribedIds w = []" and "runs (ws_step c) w fs w'"
    and "\<forall>f \<in> set fs. \<forall>v. f \<noteq> Subscribe v"
  shows "length (sockets w') = length (sockets w) \<and> status w' = Disconnected \<and> timers w' = []"
proof -
  from assms(3) have "ws_inv w \<Longrightarrow> subscribedIds w = [] \<Longrightarrow> \<forall>f \<in> set fs. \<forall>v. f \<noteq> Subscribe v \<Longrightarrow>
      length (sockets w') = length (sockets w) \<and> ws_inv w' \<and> subscribedIds w' = []"
  proof (induction rule: runs.induct)
    case (runs_Cons w e t es u)
    then show ?case
      using idle_step [of w c e t] ws_step_inv [of w c e t] by simp
  qed simp
  then have "length (sockets w') = length (sockets w)" "ws_inv w'" "subscribedIds w' = []"
    using runs_inv [OF assms(1)] assms(2,4) by auto
  then show ?thesis
    by (simp add: ws_inv_def conn_inv_def)
qed

theorem silence_after_last_vehicle_witness:
  "\<exists>w. ws_runs demo_config [Subscribe ''v1'', SocketOpen 0, Unsubscribe ''v1''] w \<and>
       (\<forall>w'. ws_step demo_config w (SocketClosed 0) w' \<longrightarrow> status w' = Disconnected \<and> timers w' = [])"
proof -
  let ?w = "unsubscribe demo_config ''v1'' demo_open"
  have run: "ws_runs demo_config [Subscribe ''v1'', SocketOpen 0, Unsubscribe ''v1''] ?w"
    using runs_snocI [OF demo_open_run step_unsubscribe] by simp
  have "subscribedIds ?w = []"
    by (simp add: unsubscribe_ids demo_open_state set_delete_def)
  then have "status w' = Disconnected \<and> timers w' = []"
    if "ws_step demo_config ?w (SocketClosed 0) w'" for w'
    using silence_after_last_vehicle [OF run, of "[SocketClosed 0]" w'] that
    by (auto simp: runs_Cons_iff)
  then have "\<forall>w'. ws_step demo_config ?w (SocketClosed 0) w' \<longrightarrow> status w' = Disconnected \<and> timers w' = []"
    by blast
  with run show ?thesis by (intro exI [of _ ?w]) simp
qed

subsection \<open>From the socket to the stores\<close>

text \<open>What each event means for the telemetry store, the alert store and the error console.\<close>

definition frame_of :: "ws_config \<Rightarrow> ws_event \<Rightarrow> json option" where
  "frame_of c e = (case e of SocketMessage i (Text s) \<Rightarrow> JSON_parse c s | _ \<Rightarrow> None)"

definition telemetry_events :: "ws_config \<Rightarrow> ws_event \<Rightarrow> (json option, json) telemetry_event list" where
  "telemetry_events c e =
     (case e of
        TelemetryReset k \<Rightarrow> [Reset k]
      | AnimationFrame \<Rightarrow> [Frame]
      | _ \<Rightarrow> (case frame_of c e of
                Some f \<Rightarrow> if is_string (field f ''type'') ''telemetry''
                          then [if by_identity (field f ''vehicle_id'') then PushObject
                                else Push (field f ''vehicle_id'') f] else []
              | None \<Rightarrow> []))"

definition alert_events :: "ws_config \<Rightarrow> ws_event \<Rightarrow> json alert_event list" where
  "alert_events c e =
     (case e of
        AlertsCleared \<Rightarrow> [AlertClear]
      | _ \<Rightarrow> (case frame_of c e of
                Some f \<Rightarrow> if is_string (field f ''type'') ''alert'' then [AlertPush f]
                          else if is_string (field f ''type'') ''assistance_request''
                          then (case assistance_alert f of Inl e \<Rightarrow> [] | Inr a \<Rightarrow> [AlertPush a]) else []
              | None \<Rightarrow> []))"

text \<open>The frames that make the handler of messages throw.\<close>

definition throws :: "json \<Rightarrow> bool" where
  "throws f \<longleftrightarrow>
     f = JNull \<or>
     (is_string (field f ''type'') ''assistance_request'' \<and>
      (\<exists>j. field f ''reason'' = Some j \<and> \<not> convertible j))"

definition console_errors :: "ws_config \<Rightarrow> ws_event \<Rightarrow> js_error list" where
  "console_errors c e = (case frame_of c e of Some f \<Rightarrow> if throws f then [TypeError] else [] | None \<Rightarrow> [])"

lemma get_prop_field:
  "get_prop (Some f) k = (if f = JNull then Inl TypeError else Inr (field f k))"
  by (cases f) (simp_all add: field_def)

lemma open_socket_frame [simp]:
  "store_telemetry (open_socket c w) = store_telemetry w"
  "store_alerts (open_socket c w) = store_alerts w" "uncaught (open_socket c w) = uncaught w"
  by (simp_all add: open_socket_def Let_def)

lemma teardown_frame [simp]:
  "store_telemetry (teardown w) = store_telemetry w"
  "store_alerts (teardown w) = store_alerts w" "uncaught (teardown w) = uncaught w"
  by (simp_all add: teardown_def Let_def split: option.split)

lemma calls_frame [simp]:
  "store_telemetry (subscribe c v w) = store_telemetry w"
  "store_alerts (subscribe c v w) = store_alerts w" "uncaught (subscribe c v w) = uncaught w"
  "store_telemetry (unsubscribe c v w) = store_telemetry w"
  "store_alerts (unsubscribe c v w) = store_alerts w" "uncaught (unsubscribe c v w) = uncaught w"
  by (simp_all add: subscribe_def unsubscribe_def reconnect_def Let_def)

lemma socket_events_frame [simp]:
  "store_telemetry (set_ready i r w) = store_telemetry w"
  "store_alerts (set_ready i r w) = store_alerts w" "uncaught (set_ready i r w) = uncaught w"
  "store_telemetry (socket_closed i w) = store_telemetry w"
  "store_alerts (socket_closed i w) = store_alerts w" "uncaught (socket_closed i w) = uncaught w"
  "store_telemetry (retry_fired c (clear_timer t w)) = store_telemetry w"
  "store_alerts (retry_fired c (clear_timer t w)) = store_alerts w"
  "uncaught (retry_fired c (clear_timer t w)) = uncaught w"
  by (simp_all add: set_ready_def socket_closed_def handle_close_def scheduleReconnect_def
      retry_fired_def clear_timer_def Let_def)

lemma handle_open_frame:
  assumes "ws_inv w" and "i < length (sockets w)" and "ready w i = CONNECTING"
  shows "store_telemetry (handle_open (set_ready i OPEN w)) = store_telemetry w \<and>
         store_alerts (handle_open (set_ready i OPEN w)) = store_alerts w \<and>
         uncaught (handle_open (set_ready i OPEN w)) = uncaught w"
proof -
  have "ws w = Some i"
    using current_socket [OF assms(1,2) not_silent_live] assms(3) by simp
  then show ?thesis
    using assms(2) by (simp add: handle_open_def ws_send_def ready_def set_ready_def Let_def)
qed

lemma assistance_throws:
  "assistance_alert f = Inl e \<longleftrightarrow> e = TypeError \<and> (\<exists>j. field f ''reason'' = Some j \<and> \<not> convertible j)"
  unfolding template_text_error [symmetric]
  by (cases "template_text (field f ''reason'')") (simp_all add: assistance_alert_def)

lemma message_effect:
  assumes "frame_of c (SocketMessage i d) = Some f"
  shows "store_telemetry (handle_message c d w) = foldl telemetry_step (store_telemetry w) (telemetry_events c (SocketMessage i d)) \<and>
         store_alerts (handle_message c d w) = foldl alert_step (store_alerts w) (alert_events c (SocketMessage i d)) \<and>
         uncaught (handle_message c d w) = uncaught w @ console_errors c (SocketMessage i d)"
proof -
  obtain s where s: "d = Text s" "JSON_parse c s = Some f"
    using assms by (cases d) (simp_all add: frame_of_def)
  consider "f = JNull" | "is_string (field f ''type'') ''telemetry''" "f \<noteq> JNull"
    | "is_string (field f ''type'') ''alert''" "f \<noteq> JNull"
    | "is_string (field f ''type'') ''assistance_request''" "f \<noteq> JNull"
    | "f \<noteq> JNull" "\<not> is_string (field f ''type'') ''telemetry''" "\<not> is_string (field f ''type'') ''alert''"
      "\<not> is_string (field f ''type'') ''assistance_request''"
    by blast
  then show ?thesis
  proof cases
    case 4
    then show ?thesis
      using assistance_throws [of f]
      by (cases "assistance_alert f") (auto simp: s telemetry_events_def alert_events_def console_errors_def throws_def
          frame_of_def handle_message_def get_prop_field raise_uncaught_def is_string_def)
  qed (auto simp: s push_frame_def telemetry_events_def alert_events_def console_errors_def throws_def frame_of_def
      handle_message_def get_prop_field raise_uncaught_def is_string_def field_def)
qed

lemma stores_step:
  assumes "ws_inv w" and "ws_step c w e w'"
  shows "store_telemetry w' = foldl telemetry_step (store_telemetry w) (telemetry_events c e) \<and>
         store_alerts w' = foldl alert_step (store_alerts w) (alert_events c e) \<and>
         uncaught w' = uncaught w @ console_errors c e"
  using assms(2,1)
proof cases
  case (step_message i d)
  show ?thesis
  proof (cases "frame_of c e")
    case None
    then show ?thesis
      using step_message by (cases d) (simp_all add: telemetry_events_def alert_events_def console_errors_def
          frame_of_def handle_message_def)
  next
    case (Some f)
    then show ?thesis
      using message_effect step_message by simp
  qed
qed (simp_all add: telemetry_events_def alert_events_def console_errors_def frame_of_def
    onStatusChange_def offStatusChange_def handle_open_frame)

lemma stores_runs:
  assumes "runs (ws_step c) w es w'" and "ws_inv w"
  shows "store_telemetry w' = foldl telemetry_step (store_telemetry w) (concat (map (telemetry_events c) es)) \<and>
         store_alerts w' = foldl alert_step (store_alerts w) (concat (map (alert_events c) es)) \<and>
         uncaught w' = uncaught w @ concat (map (console_errors c) es)"
  using assms
proof (induction rule: runs.induct)
  case (runs_Cons w e t es u)
  then show ?case
    using stores_step [of w c e t] ws_step_inv [of w c e t] by simp
qed simp

text \<open>
  C11: every frame the socket delivers reaches its store, in order, and nothing else does: a
  vehicle's buffer shows the last 1000 telemetry frames received for it, and the alert store
  the newest 200 alerts and requests for assistance, whatever connections came and went.
\<close>

theorem frames_reach_stores:
  assumes "ws_runs c es w"
  shows "(case foldl family_step Map.empty (concat (map (telemetry_events c) es)) k of
            None \<Rightarrow> getBuffer (store_telemetry w) k = None
          | Some fs \<Rightarrow> \<exists>b. getBuffer (store_telemetry w) k = Some b \<and>
                         cb_snapshot b = map Some (last_n 1000 fs)) \<and>
         alerts (store_alerts w)
           = take 200 (rev (foldl since_clear [] (concat (map (alert_events c) es))))"
proof -
  have st: "store_telemetry w = foldl telemetry_step telemetry_init (concat (map (telemetry_events c) es))"
    and sa: "store_alerts w = foldl alert_step alert_init (concat (map (alert_events c) es))"
    using stores_runs [OF assms world_init_inv] by (simp_all add: world_init_def)
  show ?thesis
    using buffer_contents [of "concat (map (telemetry_events c) es)" k]
    unfolding st sa alerts_run MAX_ALERTS_def CAPACITY_def by blast
qed

definition alarm :: json where
  "alarm = JObj [(''type'', JStr ''alert''), (''device'', JStr ''v1'')]"

definition alarm_config :: ws_config where
  "alarm_config = \<lparr>wsGatewayUrl = ''ws://gw'', JSON_parse = (\<lambda>s. Some alarm)\<rparr>"

lemma alarm_run:
  "\<exists>w. ws_runs alarm_config [Subscribe ''v1'', SocketOpen 0, SocketMessage 0 (Text ''x'')] w"
proof -
  let ?w1 = "subscribe alarm_config ''v1'' world_init"
  let ?w2 = "handle_open (set_ready 0 OPEN ?w1)"
  have "length (sockets ?w1) = 1" "ready ?w1 0 = CONNECTING"
    "length (sockets ?w2) = 1" "ready ?w2 0 = OPEN"
    by (simp_all add: world_init_def ws_ops)
  then have "ws_step alarm_config ?w1 (SocketOpen 0) ?w2"
    "ws_step alarm_config ?w2 (SocketMessage 0 (Text ''x'')) (handle_message alarm_config (Text ''x'') ?w2)"
    by (auto intro: step_open step_message)
  then show ?thesis
    using step_subscribe [of alarm_config world_init "''v1''"] by (auto simp: runs_Cons_iff)
qed

theorem frames_reach_stores_witness:
  "\<exists>w. ws_runs alarm_config [Subscribe ''v1'', SocketOpen 0, SocketMessage 0 (Text ''x'')] w \<and>
       alerts (store_alerts w) = [alarm]"
proof -
  obtain w where run: "ws_runs alarm_config [Subscribe ''v1'', SocketOpen 0, SocketMessage 0 (Text ''x'')] w"
    using alarm_run by (elim exE)
  have "alerts (store_alerts w) = [alarm]"
    using frames_reach_stores [OF run]
    by (simp add: alert_events_def frame_of_def alarm_config_def alarm_def field_def is_string_def)
  with run show ?thesis by (intro exI conjI)
qed

text \<open>
  C38: the manager's handlers throw on exactly two kinds of input, a text message that is the
  JSON value \<open>null\<close> and a request for assistance whose reason cannot become a text (an object
  with a property \<open>toString\<close>, or an array with one inside): one uncaught \<open>TypeError\<close> each, and
  never an \<open>InvalidStateError\<close> from sending on a socket that is not open.
\<close>

theorem handlers_throw_exactly:
  assumes "ws_runs c es w"
  shows "uncaught w = replicate (length (filter (\<lambda>e. \<exists>f. frame_of c e = Some f \<and>
           (f = JNull \<or> is_string (field f ''type'') ''assistance_request'' \<and>
             (\<exists>j. field f ''reason'' = Some j \<and> \<not> convertible j))) es)) TypeError"
proof -
  have "concat (map (console_errors c) es)
      = replicate (length (filter (\<lambda>e. \<exists>f. frame_of c e = Some f \<and> throws f) es)) TypeError"
    by (induction es) (auto simp: console_errors_def split: option.split)
  note errors = this [unfolded throws_def]
  show ?thesis
    using stores_runs [OF assms world_init_inv] unfolding errors by (simp add: world_init_def)
qed

theorem handlers_throw_exactly_witness:
  "\<exists>w. ws_runs demo_config [Subscribe ''v1'', SocketOpen 0, SocketMessage 0 (Text ''null''),
         SocketMessage 0 (Text ''frame''), SocketMessage 0 (Text bad_request_text)] w \<and>
       uncaught w = [TypeError, TypeError]"
proof -
  let ?w = "handle_message demo_config (Text ''null'') demo_open"
  let ?v = "handle_message demo_config (Text ''frame'') ?w"
  let ?es = "[Subscribe ''v1'', SocketOpen 0, SocketMessage 0 (Text ''null''),
         SocketMessage 0 (Text ''frame''), SocketMessage 0 (Text bad_request_text)]"
  have "ws_runs demo_config [Subscribe ''v1'', SocketOpen 0, SocketMessage 0 (Text ''null'')] ?w"
    using runs_snocI [OF demo_open_run step_message] by (simp add: demo_open_state)
  from runs_snocI [OF this step_message]
  have "ws_runs demo_config [Subscribe ''v1'', SocketOpen 0, SocketMessage 0 (Text ''null''),
      SocketMessage 0 (Text ''frame'')] ?v"
    by (simp add: demo_open_state handle_message_ready handle_message_sockets)
  from runs_snocI [OF this step_message]
  have run: "ws_runs demo_config ?es (handle_message demo_config (Text bad_request_text) ?v)"
    by (simp add: demo_open_state handle_message_ready handle_message_sockets)
  have texts: "bad_request_text \<noteq> ''null''" "bad_request_text \<noteq> ''frame''"
    by (simp_all add: bad_request_text_def)
  have "uncaught (handle_message demo_config (Text bad_request_text) ?v) = [TypeError, TypeError]"
    using handlers_throw_exactly [OF run] texts
    by (simp add: frame_of_def demo_config_def bad_request_def field_def is_string_def numeral_2_eq_2)
  with run show ?thesis by (intro exI conjI)
qed

end
