(* ===== verification/ProjectFeed.thy ===== *)
theory ProjectFeed
  imports WsBehaviour "HOL-Library.Multiset"
begin

section \<open>The telemetry feed of a project page (server/dashboard/src/pages/Project)\<close>

text \<open>
  What one tick of the project page's animation loop computes: the frames of the project's
  devices, merged, the newest first, cut to the first 500.  A frame is the JSON value the
  gateway sent; its \<open>ts\<close> is read as the subtraction in the comparator reads it, and a \<open>ts\<close> that
  cannot be converted makes the tick raise.
\<close>

definition MAX_FEED_ROWS :: nat where
  "MAX_FEED_ROWS = 500"

definition frame_ts :: "json \<Rightarrow> rat option" where
  "frame_ts f = (case primitive (field f ''ts'') of Inl e \<Rightarrow> None | Inr v \<Rightarrow> to_number v)"

text \<open>
  \<open>(a, b) => b.ts - a.ts\<close>: the subtraction converts \<open>b.ts\<close> and then \<open>a.ts\<close> to a number, which
  raises for an object that cannot be converted.
\<close>

definition newest_first :: "json \<Rightarrow> json \<Rightarrow> js_error + rat option" where
  "newest_first a b =
     and_then (primitive (field b ''ts'')) (\<lambda>v. and_then (primitive (field a ''ts'')) (\<lambda>u.
       Inr (case (to_number v, to_number u) of (Some y, Some x) \<Rightarrow> Some (y - x) | _ \<Rightarrow> None)))"

definition unconvertible_ts :: "json \<Rightarrow> bool" where
  "unconvertible_ts f \<longleftrightarrow> (\<exists>j. field f ''ts'' = Some j \<and> \<not> convertible j)"

lemma newest_first_raises: "(\<exists>e. newest_first a b = Inl e) \<longleftrightarrow> unconvertible_ts a \<or> unconvertible_ts b"
  by (auto simp: newest_first_def primitive_def unconvertible_ts_def split: option.splits)

lemma newest_first_error: "newest_first a b = Inl e \<Longrightarrow> e = TypeError"
  by (auto simp: newest_first_def primitive_def split: option.splits if_splits)

lemma newest_first_numbers:
  assumes "frame_ts a = Some x" and "frame_ts b = Some y"
  shows "newest_first a b = Inr (Some (y - x))"
  using assms by (simp add: newest_first_def frame_ts_def split: sum.splits)

text \<open>
  The difference is exact here, while the language rounds it to a double, or to an infinity:
  for the sorting only its sign counts, which is the same.
\<close>

lemma newest_first_rounded:
  assumes "frame_ts a = Some x" and "frame_ts b = Some y" and "is_double x" and "is_double y"
  shows "\<exists>r. newest_first a b = Inr r \<and> (not_after r \<longleftrightarrow> round_double (y - x) \<le> 0)"
  using round_double_sign [OF assms(4,3)] newest_first_numbers [OF assms(1,2)] by (simp add: not_after_def)

text \<open>A snapshot has no holes, so its items are the buffer's.\<close>

definition device_frames :: "(json option, json) telemetry_state \<Rightarrow> string \<Rightarrow> json list" where
  "device_frames st i =
     (case getBuffer st (Some (JStr i)) of None \<Rightarrow> [] | Some buf \<Rightarrow> map the (cb_snapshot buf))"

definition merge_feed :: "(json option, json) telemetry_state \<Rightarrow> string list \<Rightarrow> js_error + json list" where
  "merge_feed st ids =
     and_then (js_sort newest_first (concat (map (device_frames st) ids))) (\<lambda>allFrames.
       Inr (take MAX_FEED_ROWS allFrames))"

lemma merge_feed_elements:
  "merge_feed st ids = Inr rows \<Longrightarrow>
     length rows \<le> MAX_FEED_ROWS \<and> set rows \<subseteq> set (concat (map (device_frames st) ids))"
  by (auto simp: merge_feed_def and_then_Inr dest!: js_sort_elements in_set_takeD)

text \<open>One frame whose time cannot become a number is enough for the merging of two or more to raise.\<close>

lemma merge_feed_raises:
  "(\<exists>e. merge_feed st ids = Inl e) \<longleftrightarrow>
     2 \<le> length (concat (map (device_frames st) ids)) \<and>
     (\<exists>f \<in> set (concat (map (device_frames st) ids)). unconvertible_ts f)"
  unfolding js_sort_raises [of newest_first unconvertible_ts, OF newest_first_raises, symmetric]
  by (simp add: merge_feed_def and_then_Inl)

text \<open>The frames of a device that a history of the store holds.\<close>

definition logged :: "(json option, json) telemetry_event list \<Rightarrow> string \<Rightarrow> json list" where
  "logged es i =
     (case foldl family_step Map.empty es (Some (JStr i)) of
        None \<Rightarrow> [] | Some fs \<Rightarrow> last_n CAPACITY fs)"

lemma device_frames_logged:
  "device_frames (foldl telemetry_step telemetry_init es) i = logged es i"
  using buffer_contents [of es "Some (JStr i)"]
  by (auto simp: device_frames_def logged_def comp_def split: option.splits)

definition numeric_ts :: "json list \<Rightarrow> bool" where
  "numeric_ts fs \<longleftrightarrow> list_all (\<lambda>f. frame_ts f \<noteq> None) fs"

definition feed_key :: "json \<Rightarrow> rat" where
  "feed_key f = - the (frame_ts f)"

lemma merge_feed_sorted:
  assumes "numeric_ts (concat (map (device_frames st) ids))"
  shows "merge_feed st ids
     = Inr (take MAX_FEED_ROWS (sort_key feed_key (concat (map (device_frames st) ids))))"
proof -
  let ?held = "concat (map (device_frames st) ids)"
  have "newest_first x y = Inr (Some (feed_key x - feed_key y))" if "x \<in> set ?held" "y \<in> set ?held" for x y
  proof -
    have "frame_ts x \<noteq> None" "frame_ts y \<noteq> None"
      using assms that unfolding numeric_ts_def list_all_iff by blast+
    then show ?thesis using newest_first_numbers by (auto simp: feed_key_def)
  qed
  from js_sort_key [of ?held newest_first feed_key, OF this] show ?thesis
    by (simp add: merge_feed_def)
qed

lemma take_sorted_best:
  assumes "sorted (map f xs)" and "x \<in> set (drop n xs)" and "y \<in> set (take n xs)"
  shows "f y \<le> f x"
proof -
  have "sorted (map f (take n xs) @ map f (drop n xs))"
    using assms(1) by (metis append_take_drop_id map_append)
  then show ?thesis
    using assms(2,3) by (auto simp: sorted_append)
qed

lemma mset_take_drop: "mset xs - mset (take n xs) = mset (drop n xs)"
  by (metis add_diff_cancel_left' append_take_drop_id mset_append)

lemma newest_of_sorted:
  fixes key :: "'a \<Rightarrow> rat" and n :: nat
  defines "feed xs \<equiv> take n (sort_key key xs)"
  shows "length (feed xs) = min n (length xs) \<and> mset (feed xs) \<subseteq># mset xs \<and>
         sorted (map key (feed xs)) \<and>
         (\<forall>x \<in># mset xs - mset (feed xs). \<forall>y \<in> set (feed xs). key y \<le> key x)"
proof -
  have "mset xs = mset (sort_key key xs)" by simp
  then have left: "mset xs - mset (feed xs) = mset (drop n (sort_key key xs))"
    unfolding feed_def by (simp only: mset_take_drop)
  have "mset (feed xs) \<subseteq># mset (sort_key key xs)"
    unfolding feed_def by (metis append_take_drop_id mset_append mset_subset_eq_add_left)
  moreover have "sorted (map key (feed xs))"
    unfolding feed_def take_map [symmetric] by simp
  moreover have "key y \<le> key x" if "x \<in># mset xs - mset (feed xs)" and "y \<in> set (feed xs)" for x y
    using take_sorted_best [of key "sort_key key xs" x n y] that left by (simp add: feed_def)
  ultimately show ?thesis
    by (auto simp: feed_def min.commute)
qed

text \<open>
  The feed over the frames held: as many as fit, all of them held, the newest first, and none
  left out newer than one shown.
\<close>

definition newest_feed :: "json list \<Rightarrow> json list \<Rightarrow> bool" where
  "newest_feed held rows \<longleftrightarrow>
     length rows = min 500 (length held) \<and> mset rows \<subseteq># mset held \<and>
     sorted (map feed_key rows) \<and>
     (\<forall>x \<in># mset held - mset rows. \<forall>y \<in> set rows. the (frame_ts x) \<le> the (frame_ts y))"

lemma newest_feed_merge:
  "numeric_ts (concat (map (device_frames st) ids)) \<Longrightarrow>
     \<exists>rows. merge_feed st ids = Inr rows \<and> newest_feed (concat (map (device_frames st) ids)) rows"
  using newest_of_sorted [of 500 "feed_key" "concat (map (device_frames st) ids)"]
  unfolding merge_feed_sorted newest_feed_def MAX_FEED_ROWS_def feed_key_def neg_le_iff_le by blast

end
