(* ===== verification/Promises.thy ===== *)
theory Promises
  imports Prelude
begin

section \<open>Pages with promises in flight\<close>

text \<open>
  What the pages of the dashboard have in common: requests in flight that settle in any order,
  and flags (a spinner, a disabled button) that wait for one.  The locale \<open>promise_page\<close> is the
  contract: every flag that is set has a promise in flight that serves it, with a rank, the
  number of further requests its continuation may send before it clears the flag.  A page
  proves the laws of its own operations and gets that no flag stays set: some promise in flight
  clears it when it and its successors settle, whatever their answers.
\<close>

definition remove_nth :: "nat \<Rightarrow> 'a list \<Rightarrow> 'a list" where
  "remove_nth i xs = take i xs @ drop (Suc i) xs"

lemma in_remove_nth: "i < length xs \<Longrightarrow> set xs = insert (xs ! i) (set (remove_nth i xs))"
  unfolding remove_nth_def
  by (metis Cons_nth_drop_Suc append_take_drop_id list.simps(15) set_append Un_insert_right)

lemma remove_nth_simps [simp]:
  "remove_nth 0 (x # xs) = xs" "remove_nth (Suc i) (x # xs) = x # remove_nth i xs"
  by (simp_all add: remove_nth_def)

text \<open>
  \<open>settling\<close> says which events settle a promise: the one with this index, with this answer.
  The flag is down within \<open>n\<close> settlings: it is down, or some promise can settle now and
  however it settles the flag is down within one less.
\<close>

definition settles ::
  "('e \<Rightarrow> (nat \<times> 'r) option) \<Rightarrow> ('s \<Rightarrow> 'e \<Rightarrow> 's \<Rightarrow> bool) \<Rightarrow> 's \<Rightarrow> nat \<Rightarrow> 's \<Rightarrow> bool" where
  "settles settling step s i s' \<longleftrightarrow> (\<exists>e r. settling e = Some (i, r) \<and> step s e s')"

primrec down_within :: "nat \<Rightarrow> ('s \<Rightarrow> 'i \<Rightarrow> 's \<Rightarrow> bool) \<Rightarrow> ('s \<Rightarrow> bool) \<Rightarrow> 's \<Rightarrow> bool" where
  "down_within 0 st flag s = (\<not> flag s)"
| "down_within (Suc n) st flag s =
     (\<not> flag s \<or> (\<exists>i. (\<exists>s'. st s i s') \<and> (\<forall>s'. st s i s' \<longrightarrow> down_within n st flag s')))"

lemma down_within_down: "\<not> flag s \<Longrightarrow> down_within n st flag s"
  by (cases n) simp_all

lemma down_within_one:
  "\<exists>s'. st s i s' \<Longrightarrow> (\<And>s'. st s i s' \<Longrightarrow> \<not> flag s') \<Longrightarrow> down_within (Suc n) st flag s"
  using down_within_down [of flag _ n st] by auto

text \<open>
  A page inside a larger machine: when the page's settlings are the machine's, what is down
  within \<open>n\<close> settlings of the page is down within \<open>n\<close> of the machine.
\<close>

lemma down_within_simulated:
  assumes flag: "\<And>s d. R s d \<Longrightarrow> g d = f s"
    and can: "\<And>s d i s'. R s d \<Longrightarrow> st s i s' \<Longrightarrow> \<exists>d'. dt d (k i) d'"
    and sim: "\<And>s d i d'. R s d \<Longrightarrow> dt d (k i) d' \<Longrightarrow> \<exists>s'. st s i s' \<and> R s' d'"
  shows "R s d \<Longrightarrow> down_within n st f s \<Longrightarrow> down_within n dt g d"
proof (induction n arbitrary: s d)
  case 0
  then show ?case using flag by simp
next
  case (Suc n)
  show ?case
  proof (cases "g d")
    case True
    then obtain i s' where i: "st s i s'" "\<forall>u. st s i u \<longrightarrow> down_within n st f u"
      using Suc.prems flag by auto
    have "down_within n dt g d'" if "dt d (k i) d'" for d'
      using sim [OF Suc.prems(1) that] i(2) Suc.IH by blast
    then show ?thesis
      using can [OF Suc.prems(1) i(1)] by auto
  qed simp
qed

locale promise_page =
  fixes step :: "'s \<Rightarrow> 'e \<Rightarrow> 's \<Rightarrow> bool"
    and settling :: "'e \<Rightarrow> (nat \<times> 'r) option"
    and flights :: "'s \<Rightarrow> 'p list"
    and without :: "nat \<Rightarrow> 's \<Rightarrow> 's"
    and answers :: "'p \<Rightarrow> 'r \<Rightarrow> bool"
    and settle :: "'p \<Rightarrow> 'r \<Rightarrow> 's \<Rightarrow> 's"
    and ok :: "'s \<Rightarrow> bool"
    and waiting :: "'w \<Rightarrow> 's \<Rightarrow> bool"
    and serves :: "'p \<Rightarrow> 'w \<Rightarrow> nat option"
  assumes settle_event: "\<exists>e. settling e = Some (i, r)"
    and settle_step: "settling e = Some (i, r) \<Longrightarrow> step s e s' \<longleftrightarrow>
          i < length (flights s) \<and> answers (flights s ! i) r \<and> s' = settle (flights s ! i) r (without i s)"
    and answerable: "\<exists>r. answers p r"
    and flights_without: "flights (without i s) = remove_nth i (flights s)"
    and waiting_without: "waiting w (without i s) = waiting w s"
    and ok_without: "ok s \<Longrightarrow> ok (without i s)"
    and ok_settle: "ok s \<Longrightarrow> ok (settle p r s)"
    and ok_other: "settling e = None \<Longrightarrow> ok s \<Longrightarrow> step s e s' \<Longrightarrow> ok s'"
    and settle_keeps: "set (flights s) \<subseteq> set (flights (settle p r s))"
    and other_keeps: "settling e = None \<Longrightarrow> step s e s' \<Longrightarrow> set (flights s) \<subseteq> set (flights s')"
    and settle_waiting: "waiting w (settle p r s) \<Longrightarrow> waiting w s"
    and other_waiting: "settling e = None \<Longrightarrow> ok s \<Longrightarrow> step s e s' \<Longrightarrow> waiting w s' \<Longrightarrow>
          waiting w s \<or> (\<exists>p \<in> set (flights s'). serves p w \<noteq> None)"
    and settle_serves: "ok s \<Longrightarrow> answers p r \<Longrightarrow> serves p w = Some n \<Longrightarrow> waiting w (settle p r s) \<Longrightarrow>
          \<exists>q \<in> set (flights (settle p r s)). \<exists>m < n. serves q w = Some m"
begin

definition served :: "'s \<Rightarrow> bool" where
  "served s \<longleftrightarrow> ok s \<and> (\<forall>w. waiting w s \<longrightarrow> (\<exists>p \<in> set (flights s). serves p w \<noteq> None))"

lemma served_other: "settling e = None \<Longrightarrow> served s \<Longrightarrow> step s e s' \<Longrightarrow> served s'"
  using other_waiting other_keeps ok_other unfolding served_def by blast

lemma served_settle:
  assumes "served s" and "i < length (flights s)" and "answers (flights s ! i) r"
  shows "served (settle (flights s ! i) r (without i s))"
proof -
  let ?p = "flights s ! i" and ?s = "without i s"
  have ok: "ok ?s" using assms(1) by (simp add: served_def ok_without)
  have "\<exists>q \<in> set (flights (settle ?p r ?s)). serves q w \<noteq> None" if wait: "waiting w (settle ?p r ?s)" for w
  proof -
    have "waiting w s"
      using settle_waiting [OF wait] by (simp add: waiting_without)
    then obtain q where q: "q \<in> set (flights s)" "serves q w \<noteq> None"
      using assms(1) by (auto simp: served_def)
    show ?thesis
    proof (cases "q = ?p")
      case True
      with q obtain n where "serves ?p w = Some n" by auto
      then show ?thesis using settle_serves [OF ok assms(3) _ wait] by fastforce
    next
      case False
      then have "q \<in> set (flights ?s)"
        using q(1) in_remove_nth [OF assms(2)] by (simp add: flights_without)
      then show ?thesis using q(2) settle_keeps by blast
    qed
  qed
  then show ?thesis
    using ok by (simp add: served_def ok_settle)
qed

lemma served_step: "served s \<Longrightarrow> step s e s' \<Longrightarrow> served s'"
proof (cases "settling e")
  case (Some ir)
  assume "served s" "step s e s'"
  then show ?thesis
    using Some settle_step [of e "fst ir" "snd ir" s s'] served_settle [of s] by auto
qed (rule served_other)

lemma served_runs: "runs step s es s' \<Longrightarrow> served s \<Longrightarrow> served s'"
  by (induction rule: runs.induct) (blast intro: served_step)+

lemma nothing_left: "served s \<Longrightarrow> flights s = [] \<Longrightarrow> \<not> waiting w s"
  by (auto simp: served_def)

lemma settles_iff:
  "settles settling step s i s' \<longleftrightarrow>
     (\<exists>r. i < length (flights s) \<and> answers (flights s ! i) r \<and> s' = settle (flights s ! i) r (without i s))"
  unfolding settles_def using settle_step settle_event by metis

lemma serving_clears:
  "ok s \<Longrightarrow> p \<in> set (flights s) \<Longrightarrow> serves p w = Some m \<Longrightarrow> m < n \<Longrightarrow>
     down_within n (settles settling step) (waiting w) s"
proof (induction n arbitrary: p m s)
  case (Suc n)
  obtain i where i: "i < length (flights s)" "flights s ! i = p"
    using Suc.prems(2) by (auto simp: in_set_conv_nth)
  have ok: "ok (without i s)" using Suc.prems(1) by (rule ok_without)
  have "down_within n (settles settling step) (waiting w) (settle p r (without i s))" if ans: "answers p r" for r
  proof (cases "waiting w (settle p r (without i s))")
    case True
    obtain q k where "q \<in> set (flights (settle p r (without i s)))" "serves q w = Some k" "k < m"
      using settle_serves [OF ok ans Suc.prems(3) True] by auto
    then show ?thesis
      using Suc.IH [OF ok_settle [OF ok]] Suc.prems(4) by simp
  qed (rule down_within_down)
  moreover have "\<exists>s'. settles settling step s i s'"
    using i answerable by (auto simp: settles_iff)
  ultimately have "(\<exists>s'. settles settling step s i s') \<and> (\<forall>s'. settles settling step s i s' \<longrightarrow>
      down_within n (settles settling step) (waiting w) s')"
    using i by (auto simp: settles_iff)
  then show ?case by auto
qed simp

lemma served_clears:
  assumes "served s" and "\<And>p m. serves p w = Some m \<Longrightarrow> m < n"
  shows "down_within n (settles settling step) (waiting w) s"
proof (cases "waiting w s")
  case True
  with assms(1) obtain p m where "p \<in> set (flights s)" "serves p w = Some m"
    by (auto simp: served_def)
  then show ?thesis
    using serving_clears assms by (simp add: served_def)
qed (rule down_within_down)

end

end
