(* ===== verification/ProjectPage.thy ===== *)
theory ProjectPage
  imports ProjectFeed ApiClient Promises Jsx
begin

section \<open>The project page (server/dashboard/src/pages/Project)\<close>

text \<open>
  The state of one mounted project page and everything that can happen to it: its effects, the
  animation loop that copies the telemetry store into the feed, the settling of its requests
  and the actions of its user.  \<open>project_page\<close> has the component's React state and references;
  \<open>page_world\<close> adds the WebSocket manager's world the page subscribes with, the browser's
  queue of animation callbacks (each a handle with the device ids its closure captured), the
  exceptions of those callbacks, and the page's requests with the promises still in flight.

  A state update that changes \<open>devices\<close> is followed, as React does it, by the clean-up of the
  last subscription effect and by the new effect.  A promise settles with a result or an
  error; promises in flight settle in any order.
\<close>

datatype tab = DataTab | AlertsTab

record project_page =
  devices :: "vehicle list"
  loading :: bool
  shown_tab :: tab
  showAdd :: bool
  devName :: string
  devType :: string
  devRegion :: string
  adding :: bool
  feedRows :: "json list"
  feedRef :: "json list"
  rafRef :: nat
  genRef :: nat
  load_error :: string

text \<open>
  \<open>Loading b\<close> is \<open>loadDevices\<close> awaiting its list, called by \<open>handleAddDevice\<close> if \<open>b\<close>;
  \<open>Provisioning n\<close> is \<open>handleAddDevice\<close> of a render with the name \<open>n\<close> awaiting its answer.
\<close>

datatype promise = Loading bool | Provisioning string

record page_world = project_page +
  page_name :: "string option"
  net :: world
  frames :: "(nat \<times> string list) list"
  nextFrame :: nat
  page_errors :: "js_error list"
  pending :: "promise list"
  requests :: "request list"
  navigated :: "string list"

subsection \<open>Subscribing and the animation loop\<close>

abbreviation ids_of :: "page_world \<Rightarrow> string list" where
  "ids_of s \<equiv> map v_id (devices s)"

definition request_frame :: "string list \<Rightarrow> page_world \<Rightarrow> page_world" where
  "request_frame ids s =
     s\<lparr>rafRef := nextFrame s, frames := frames s @ [(nextFrame s, ids)], nextFrame := nextFrame s + 1\<rparr>"

definition cancel_frame :: "nat \<Rightarrow> page_world \<Rightarrow> page_world" where
  "cancel_frame h s = s\<lparr>frames := filter (\<lambda>(i, ids). i \<noteq> h) (frames s)\<rparr>"

text \<open>An exception of the comparator ends the tick before it requests the next one.\<close>

definition tick :: "string list \<Rightarrow> page_world \<Rightarrow> page_world" where
  "tick ids s =
     (let store = store_telemetry (net s)
      in if generation store \<noteq> genRef s
         then let s1 = s\<lparr>genRef := generation store\<rparr>
              in case merge_feed store ids of
                   Inl e \<Rightarrow> s1\<lparr>page_errors := page_errors s1 @ [e]\<rparr>
                 | Inr trimmed \<Rightarrow> request_frame ids (s1\<lparr>feedRef := trimmed, feedRows := trimmed\<rparr>)
         else request_frame ids s)"

definition subscribe_all :: "ws_config \<Rightarrow> string list \<Rightarrow> world \<Rightarrow> world" where
  "subscribe_all c ids w = foldl (\<lambda>w i. subscribe c i w) w ids"

definition unsubscribe_all :: "ws_config \<Rightarrow> string list \<Rightarrow> world \<Rightarrow> world" where
  "unsubscribe_all c ids w = foldl (\<lambda>w i. unsubscribe c i w) w ids"

definition feed_effect :: "ws_config \<Rightarrow> page_world \<Rightarrow> page_world" where
  "feed_effect c s =
     (if length (devices s) = 0 then s
      else let ids = map v_id (devices s)
           in request_frame ids (s\<lparr>net := subscribe_all c ids (net s)\<rparr>))"

text \<open>The clean-up of the effect that ran for the devices now in the state.\<close>

definition feed_cleanup :: "ws_config \<Rightarrow> page_world \<Rightarrow> page_world" where
  "feed_cleanup c s =
     (if length (devices s) = 0 then s
      else let ids = map v_id (devices s); s1 = cancel_frame (rafRef s) s
           in s1\<lparr>net := unsubscribe_all c ids (net s1)\<rparr>)"

definition set_devices :: "ws_config \<Rightarrow> vehicle list \<Rightarrow> page_world \<Rightarrow> page_world" where
  "set_devices c ds s = feed_effect c ((feed_cleanup c s)\<lparr>devices := ds\<rparr>)"

subsection \<open>Loading and adding devices\<close>

text \<open>\<open>name\<close> is the parameter of the render whose \<open>loadDevices\<close> is called.\<close>

definition loadDevices :: "string option \<Rightarrow> bool \<Rightarrow> page_world \<Rightarrow> page_world" where
  "loadDevices name after_add s =
     (if \<not> truthy_str name then (if after_add then s\<lparr>adding := False\<rparr> else s)
      else s\<lparr>requests := requests s @ [listProjectDevices (the name)],
             pending := pending s @ [Loading after_add]\<rparr>)"

text \<open>The rest of \<open>loadDevices\<close>; an answer without \<open>devices\<close> counts as an empty list.\<close>

definition devices_settled ::
  "ws_config \<Rightarrow> bool \<Rightarrow> js_error + vehicle list option \<Rightarrow> page_world \<Rightarrow> page_world" where
  "devices_settled c after_add r s =
     (let s1 = (case r of
                  Inr d \<Rightarrow> set_devices c (case d of None \<Rightarrow> [] | Some ds \<Rightarrow> ds) s
                | Inl e \<Rightarrow> set_devices c []
                    (s\<lparr>load_error := ''Failed to load devices. Check console for details.''\<rparr>));
          s2 = s1\<lparr>loading := False\<rparr>
      in if after_add then s2\<lparr>adding := False\<rparr> else s2)"

definition handleAddDevice :: "page_world \<Rightarrow> page_world" where
  "handleAddDevice s =
     (if \<not> truthy_str (page_name s) \<or> trim (devName s) = [] then s
      else s\<lparr>adding := True,
             requests := requests s @
               [provisionDevice (the (page_name s)) (trim (devName s))
                  (or_undefined (trim (devType s))) None (or_undefined (trim (devRegion s)))],
             pending := pending s @ [Provisioning (the (page_name s))]\<rparr>)"

text \<open>The rest of \<open>handleAddDevice\<close> loads the devices of the project its closure has captured.\<close>

definition provision_settled :: "string \<Rightarrow> js_error + unit \<Rightarrow> page_world \<Rightarrow> page_world" where
  "provision_settled name r s =
     (case r of
        Inl e \<Rightarrow> s\<lparr>adding := False\<rparr>
      | Inr _ \<Rightarrow> loadDevices (Some name) True
                    (s\<lparr>showAdd := False, devName := [], devType := [], devRegion := []\<rparr>))"

subsection \<open>What the page shows\<close>

text \<open>The alerts of the project's devices.\<close>

definition project_alerts :: "page_world \<Rightarrow> json list" where
  "project_alerts s =
     (let deviceIds = new_Set (map v_id (devices s))
      in filter (\<lambda>a. field a ''device'' \<in> Some ` JStr ` set deviceIds) (alerts (store_alerts (net s))))"

text \<open>What the page's selector returns: a new array at every call.\<close>

definition alerts_selection :: "page_world \<Rightarrow> json list selection" where
  "alerts_selection s = Fresh (project_alerts s)"

definition deviceNameMap :: "vehicle list \<Rightarrow> string \<rightharpoonup> string" where
  "deviceNameMap ds = new_Map (map (\<lambda>d. (v_id d, v_display_name d)) ds)"

definition levelColor :: "json option \<Rightarrow> string" where
  "levelColor level =
     (if is_string level ''critical'' \<or> is_string level ''error'' then ''red''
      else if is_string level ''warning'' then ''amber'' else ''blue'')"

subsection \<open>Mounting, unmounting and events\<close>

definition page_mount :: "string option \<Rightarrow> world \<Rightarrow> page_world" where
  "page_mount name w =
     loadDevices name False
       \<lparr>devices = [], loading = True, shown_tab = DataTab, showAdd = False, devName = [],
        devType = [], devRegion = [], adding = False, feedRows = [], feedRef = [], rafRef = 0,
        genRef = 0, load_error = [], page_name = name, net = w, frames = [], nextFrame = 1, page_errors = [],
        pending = [], requests = [], navigated = []\<rparr>"

definition page_unmount :: "ws_config \<Rightarrow> page_world \<Rightarrow> page_world" where
  "page_unmount c s = feed_cleanup c s"

datatype project_action =
    OpenAdd
  | CloseAdd
  | TypeName string
  | TypeType string
  | TypeRegion string
  | SubmitDevice
  | SelectTab tab
  | Retry
  | BackToProjects

fun project_dispatch :: "project_action \<Rightarrow> page_world \<Rightarrow> page_world" where
  "project_dispatch OpenAdd s = s\<lparr>showAdd := True\<rparr>"
| "project_dispatch CloseAdd s = s\<lparr>showAdd := False\<rparr>"
| "project_dispatch (TypeName t) s = s\<lparr>devName := t\<rparr>"
| "project_dispatch (TypeType t) s = s\<lparr>devType := t\<rparr>"
| "project_dispatch (TypeRegion t) s = s\<lparr>devRegion := t\<rparr>"
| "project_dispatch SubmitDevice s = handleAddDevice s"
| "project_dispatch (SelectTab t) s = s\<lparr>shown_tab := t\<rparr>"
| "project_dispatch Retry s = loadDevices (page_name s) False (s\<lparr>load_error := [], loading := True\<rparr>)"
| "project_dispatch BackToProjects s = s\<lparr>navigated := navigated s @ [''/'']\<rparr>"

datatype page_event =
    Env ws_event
  | FrameFired nat
  | Act project_action
  | ParamChanged string
  | Settle nat "js_error + vehicle list option"

text \<open>No one else subscribes: \<open>subscribe\<close> and \<open>unsubscribe\<close> are the page's own.\<close>

fun subscription_event :: "ws_event \<Rightarrow> bool" where
  "subscription_event (Subscribe v) = True"
| "subscription_event (Unsubscribe v) = True"
| "subscription_event e = False"

definition settled ::
  "ws_config \<Rightarrow> promise \<Rightarrow> js_error + vehicle list option \<Rightarrow> page_world \<Rightarrow> page_world" where
  "settled c p r s =
     (case p of
        Loading after_add \<Rightarrow> devices_settled c after_add r s
      | Provisioning name \<Rightarrow> provision_settled name (map_sum id (\<lambda>_. ()) r) s)"

inductive page_step :: "ws_config \<Rightarrow> page_world \<Rightarrow> page_event \<Rightarrow> page_world \<Rightarrow> bool"
  for c :: ws_config
where
  page_env: "ws_step c (net s) e w \<Longrightarrow> \<not> subscription_event e \<Longrightarrow>
    page_step c s (Env e) (s\<lparr>net := w\<rparr>)"
| page_frame: "(h, ids) \<in> set (frames s) \<Longrightarrow>
    page_step c s (FrameFired h) (tick ids (cancel_frame h s))"
| page_act: "page_step c s (Act a) (project_dispatch a s)"
| page_param: "n \<noteq> [] \<Longrightarrow> page_step c s (ParamChanged n) (loadDevices (Some n) False (s\<lparr>page_name := Some n\<rparr>))"
| page_settle: "i < length (pending s) \<Longrightarrow>
    page_step c s (Settle i r)
      (settled c (pending s ! i) r (s\<lparr>pending := remove_nth i (pending s)\<rparr>))"

inductive_simps page_step_act [simp]: "page_step c s (Act a) s'"
inductive_simps page_step_frame: "page_step c s (FrameFired h) s'"
inductive_simps page_step_settle: "page_step c s (Settle i r) s'"
inductive_cases page_stepE: "page_step c s e s'"

end
