(* ===== verification/ProjectBehaviour.thy ===== *)
theory ProjectBehaviour
  imports ProjectPage
begin

section \<open>What the project page guarantees\<close>

text \<open>
  The invariant of a mounted project page and its properties: the page subscribes to exactly
  the devices it shows and leaves nothing behind when it goes, its animation loop is one
  callback at a time, its spinners end, and its feed is the newest frames of its devices.
\<close>

definition reachable :: "ws_config \<Rightarrow> world \<Rightarrow> bool" where
  "reachable c w \<longleftrightarrow> (\<exists>es. ws_runs c es w)"

lemma reachable_inv: "reachable c w \<Longrightarrow> ws_inv w"
  by (auto simp: reachable_def intro: runs_inv)

lemma reachable_step: "reachable c w \<Longrightarrow> ws_step c w e w' \<Longrightarrow> reachable c w'"
  unfolding reachable_def by (blast intro: runs_snocI)

lemma reachable_telemetry:
  "reachable c w \<Longrightarrow> \<exists>es. store_telemetry w = foldl telemetry_step telemetry_init es"
  using stores_runs [OF _ world_init_inv] by (fastforce simp: reachable_def world_init_def)

subsection \<open>Subscribing to all devices\<close>

lemma subscribe_all_spec:
  "reachable c w \<Longrightarrow> reachable c (subscribe_all c ids w) \<and>
     set (subscribedIds (subscribe_all c ids w)) = set (subscribedIds w) \<union> set ids"
proof (induction ids arbitrary: w)
  case (Cons i ids)
  from Cons.IH [OF reachable_step [OF Cons.prems step_subscribe]] show ?case
    by (auto simp: subscribe_all_def subscribe_ids)
qed (simp add: subscribe_all_def)

lemma unsubscribe_all_spec:
  "reachable c w \<Longrightarrow> reachable c (unsubscribe_all c ids w) \<and>
     set (subscribedIds (unsubscribe_all c ids w)) = set (subscribedIds w) - set ids"
proof (induction ids arbitrary: w)
  case (Cons i ids)
  from Cons.IH [OF reachable_step [OF Cons.prems step_unsubscribe]] show ?case
    by (auto simp: unsubscribe_all_def unsubscribe_ids)
qed (simp add: unsubscribe_all_def)

subsection \<open>The invariant\<close>

text \<open>One callback is queued for the devices shown, unless there is none or a tick has raised.\<close>

definition loop_inv :: "page_world \<Rightarrow> bool" where
  "loop_inv s \<longleftrightarrow>
     frames s = [] \<and> (devices s = [] \<or> page_errors s \<noteq> []) \<or>
     devices s \<noteq> [] \<and> frames s = [(rafRef s, ids_of s)]"

definition feed_inv :: "ws_config \<Rightarrow> page_world \<Rightarrow> bool" where
  "feed_inv c s \<longleftrightarrow>
     reachable c (net s) \<and> set (subscribedIds (net s)) = set (ids_of s) \<and>
     loop_inv s \<and> set (page_errors s) \<subseteq> {TypeError} \<and>
     feedRows s = feedRef s \<and> length (feedRows s) \<le> MAX_FEED_ROWS"

definition busy_inv :: "page_world \<Rightarrow> bool" where
  "busy_inv s \<longleftrightarrow>
     truthy_str (page_name s) \<and>
     (loading s \<longrightarrow> (\<exists>b. Loading b \<in> set (pending s))) \<and>
     (adding s \<longrightarrow> (\<exists>n. Provisioning n \<in> set (pending s)) \<or> Loading True \<in> set (pending s))"

definition page_inv :: "ws_config \<Rightarrow> page_world \<Rightarrow> bool" where
  "page_inv c s \<longleftrightarrow> feed_inv c s \<and> busy_inv s"

definition page_start :: "ws_config \<Rightarrow> page_world \<Rightarrow> bool" where
  "page_start c s \<longleftrightarrow>
     (\<exists>name w. s = page_mount (Some name) w \<and> name \<noteq> [] \<and> reachable c w \<and> subscribedIds w = [])"

text \<open>The parts of the state each of the two invariants reads.\<close>

lemma feed_inv_cong:
  "net s' = net s \<Longrightarrow> devices s' = devices s \<Longrightarrow> frames s' = frames s \<Longrightarrow> rafRef s' = rafRef s \<Longrightarrow>
     feedRows s' = feedRows s \<Longrightarrow> feedRef s' = feedRef s \<Longrightarrow> page_errors s' = page_errors s \<Longrightarrow>
     feed_inv c s' = feed_inv c s"
  by (simp add: feed_inv_def loop_inv_def)

lemma loadDevices_frame [simp]:
  "net (loadDevices n b s) = net s" "devices (loadDevices n b s) = devices s"
  "frames (loadDevices n b s) = frames s" "rafRef (loadDevices n b s) = rafRef s"
  "feedRows (loadDevices n b s) = feedRows s" "feedRef (loadDevices n b s) = feedRef s"
  "page_name (loadDevices n b s) = page_name s" "loading (loadDevices n b s) = loading s"
  "page_errors (loadDevices n b s) = page_errors s"
  by (simp_all add: loadDevices_def)

lemma net_page_mount [simp]: "net (page_mount name w) = w"
  by (simp add: page_mount_def)

lemma handleAddDevice_frame [simp]:
  "net (handleAddDevice s) = net s" "devices (handleAddDevice s) = devices s"
  "frames (handleAddDevice s) = frames s" "rafRef (handleAddDevice s) = rafRef s"
  "feedRows (handleAddDevice s) = feedRows s" "feedRef (handleAddDevice s) = feedRef s"
  "page_errors (handleAddDevice s) = page_errors s"
  by (simp_all add: handleAddDevice_def)

lemma set_devices_frame [simp]:
  "pending (set_devices c ds s) = pending s" "page_name (set_devices c ds s) = page_name s"
  "adding (set_devices c ds s) = adding s" "devices (set_devices c ds s) = ds"
  "load_error (set_devices c ds s) = load_error s"
  by (simp_all add: set_devices_def feed_effect_def feed_cleanup_def request_frame_def
      cancel_frame_def Let_def)

lemma tick_frame [simp]:
  "pending (tick ids s) = pending s" "page_name (tick ids s) = page_name s"
  "adding (tick ids s) = adding s" "devices (tick ids s) = devices s"
  "loading (tick ids s) = loading s" "net (tick ids s) = net s" "navigated (tick ids s) = navigated s"
  by (simp_all add: tick_def request_frame_def Let_def split: sum.split)

lemma cancel_frame_frame [simp]:
  "pending (cancel_frame h s) = pending s" "page_name (cancel_frame h s) = page_name s"
  "adding (cancel_frame h s) = adding s" "devices (cancel_frame h s) = devices s"
  "loading (cancel_frame h s) = loading s" "net (cancel_frame h s) = net s"
  "navigated (cancel_frame h s) = navigated s"
  by (simp_all add: cancel_frame_def)

lemma cleanup_spec:
  assumes "feed_inv c s"
  shows "reachable c (net (feed_cleanup c s)) \<and> subscribedIds (net (feed_cleanup c s)) = [] \<and>
         frames (feed_cleanup c s) = [] \<and> feedRows (feed_cleanup c s) = feedRef (feed_cleanup c s) \<and>
         length (feedRows (feed_cleanup c s)) \<le> MAX_FEED_ROWS \<and>
         page_errors (feed_cleanup c s) = page_errors s"
  using assms unsubscribe_all_spec [of c "net s" "ids_of s"]
  by (auto simp: feed_inv_def loop_inv_def feed_cleanup_def cancel_frame_def Let_def)

lemma set_devices_inv: "feed_inv c s \<Longrightarrow> feed_inv c (set_devices c ds s)"
  using cleanup_spec [of c s] subscribe_all_spec [of c "net (feed_cleanup c s)" "map v_id ds"]
  by (auto simp: set_devices_def feed_effect_def request_frame_def feed_inv_def loop_inv_def Let_def)

lemma merge_feed_error: "merge_feed st ids = Inl e \<Longrightarrow> e = TypeError"
  by (auto simp: merge_feed_def and_then_Inl dest!: js_sort_error newest_first_error)

lemma tick_inv:
  assumes "feed_inv c s" and "(h, ids) \<in> set (frames s)"
  shows "feed_inv c (tick ids (cancel_frame h s)) \<and> ids = ids_of s \<and> devices s \<noteq> []"
proof -
  have s: "frames s = [(rafRef s, ids_of s)]" "devices s \<noteq> []" "h = rafRef s" "ids = ids_of s"
    using assms by (auto simp: feed_inv_def loop_inv_def)
  show ?thesis
  proof (cases "merge_feed (store_telemetry (net s)) (ids_of s)")
    case (Inl e)
    then show ?thesis
      using assms s merge_feed_error [OF Inl]
      by (auto simp: feed_inv_def loop_inv_def tick_def cancel_frame_def request_frame_def Let_def)
  next
    case (Inr rows)
    then show ?thesis
      using assms s merge_feed_elements [OF Inr]
      by (auto simp: feed_inv_def loop_inv_def tick_def cancel_frame_def request_frame_def Let_def)
  qed
qed

text \<open>What a tick for the devices of the page raises.\<close>

definition tick_errors :: "page_world \<Rightarrow> js_error list" where
  "tick_errors s =
     (let held = concat (map (device_frames (store_telemetry (net s))) (ids_of s))
      in if generation (store_telemetry (net s)) \<noteq> genRef s \<and> 2 \<le> length held \<and>
            (\<exists>f \<in> set held. unconvertible_ts f)
         then [TypeError] else [])"

lemma tick_raises: "page_errors (tick (ids_of s) (cancel_frame h s)) = page_errors s @ tick_errors s"
  using merge_feed_raises [of "store_telemetry (net s)" "ids_of s"]
    merge_feed_error [of "store_telemetry (net s)" "ids_of s"]
  by (cases "merge_feed (store_telemetry (net s)) (ids_of s)")
    (auto simp: tick_def cancel_frame_def request_frame_def tick_errors_def Let_def)

lemma env_inv:
  assumes "feed_inv c s" and "ws_step c (net s) e w" and "\<not> subscription_event e"
  shows "feed_inv c (s\<lparr>net := w\<rparr>)"
proof -
  have "set (subscribedIds w) = set (subscribedIds (net s))"
    using wanted_step_ids [OF assms(2)] assms(3) by (cases e) auto
  then show ?thesis
    using assms(1) reachable_step [OF _ assms(2)] by (auto simp: feed_inv_def loop_inv_def)
qed

lemma dispatch_inv [inv_intros]: "feed_inv c s \<Longrightarrow> feed_inv c (project_dispatch a s)"
  by (cases a) (auto intro: feed_inv_cong [THEN iffD2])

lemma settled_inv: "feed_inv c s \<Longrightarrow> feed_inv c (settled c p r s)"
proof (cases p)
  case (Loading b)
  let ?s1 = "s\<lparr>load_error := ''Failed to load devices. Check console for details.''\<rparr>"
  assume "feed_inv c s"
  moreover from this have "feed_inv c ?s1" by (auto intro: feed_inv_cong [THEN iffD2])
  ultimately have "feed_inv c (set_devices c ds s)" "feed_inv c (set_devices c ds ?s1)" for ds
    by (blast intro: set_devices_inv)+
  moreover have "feed_inv c (u\<lparr>loading := x\<rparr>) = feed_inv c u" "feed_inv c (u\<lparr>adding := x\<rparr>) = feed_inv c u"
    for u :: page_world and x
    by (simp_all add: feed_inv_def loop_inv_def)
  ultimately show ?thesis
    by (simp add: Loading settled_def devices_settled_def Let_def split: sum.split)
next
  case (Provisioning n)
  assume "feed_inv c s"
  then show ?thesis
    by (auto simp: Provisioning settled_def provision_settled_def intro: feed_inv_cong [THEN iffD2]
        split: sum.split)
qed

subsection \<open>The promises of the page\<close>

text \<open>What may be waiting, and the promise that serves it: the number of requests still to be sent.\<close>

datatype page_flag = Spinning | AddingDevice

fun page_waiting :: "page_flag \<Rightarrow> page_world \<Rightarrow> bool" where
  "page_waiting Spinning s = loading s"
| "page_waiting AddingDevice s = adding s"

fun page_serves :: "promise \<Rightarrow> page_flag \<Rightarrow> nat option" where
  "page_serves (Loading b) Spinning = Some 0"
| "page_serves (Loading b) AddingDevice = (if b then Some 0 else None)"
| "page_serves (Provisioning n) AddingDevice = Some 1"
| "page_serves (Provisioning n) Spinning = None"

fun page_settling :: "page_event \<Rightarrow> (nat \<times> (js_error + vehicle list option)) option" where
  "page_settling (Settle i r) = Some (i, r)"
| "page_settling e = None"

definition page_named :: "page_world \<Rightarrow> bool" where
  "page_named s \<longleftrightarrow> truthy_str (page_name s)"

lemma page_settlingE: "page_settling e = Some (i, r) \<Longrightarrow> e = Settle i r"
  by (cases e) simp_all

lemma settled_promises:
  "set (pending s) \<subseteq> set (pending (settled c p r s))"
  "page_name (settled c p r s) = page_name s"
  "page_waiting w (settled c p r s) \<Longrightarrow> page_waiting w s"
  by (cases p; cases w; auto simp: settled_def devices_settled_def provision_settled_def loadDevices_def
      Let_def split: sum.splits if_splits)+

lemma settled_serves:
  assumes "page_named s" and "page_serves p w = Some n" and "page_waiting w (settled c p r s)"
  shows "\<exists>q \<in> set (pending (settled c p r s)). \<exists>m < n. page_serves q w = Some m"
  using assms
  by (cases "(p, w)" rule: page_serves.cases)
    (auto simp: settled_def devices_settled_def provision_settled_def loadDevices_def page_named_def
      Let_def split: sum.splits if_splits)

lemma dispatched_promises:
  "set (pending s) \<subseteq> set (pending (project_dispatch a s))"
  "page_name (project_dispatch a s) = page_name s"
  "page_named s \<Longrightarrow> page_waiting w (project_dispatch a s) \<Longrightarrow>
     page_waiting w s \<or> (\<exists>p \<in> set (pending (project_dispatch a s)). page_serves p w \<noteq> None)"
  by (cases a; cases w; auto simp: loadDevices_def handleAddDevice_def page_named_def split: if_splits)+

lemma page_other:
  assumes "page_settling e = None" and "page_step c s e s'"
  shows "set (pending s) \<subseteq> set (pending s') \<and>
    (page_named s \<longrightarrow> page_named s' \<and> (\<forall>w. page_waiting w s' \<longrightarrow>
      page_waiting w s \<or> (\<exists>p \<in> set (pending s'). page_serves p w \<noteq> None)))"
proof (cases e)
  case (Env f)
  with assms(2) obtain w where "s' = s\<lparr>net := w\<rparr>" by (auto elim!: page_stepE)
  then have "page_waiting w s' = page_waiting w s" for w by (cases w) simp_all
  then show ?thesis using \<open>s' = s\<lparr>net := w\<rparr>\<close> by (simp add: page_named_def)
next
  case (FrameFired h)
  with assms(2) obtain ids where s': "s' = tick ids (cancel_frame h s)" by (auto elim!: page_stepE)
  then have "page_waiting w s' = page_waiting w s" for w by (cases w) simp_all
  then show ?thesis by (simp add: s' page_named_def)
next
  case (Act a)
  with assms(2) have "s' = project_dispatch a s" by simp
  then show ?thesis using dispatched_promises by (auto simp: page_named_def)
next
  case (ParamChanged n)
  with assms(2) have s': "s' = loadDevices (Some n) False (s\<lparr>page_name := Some n\<rparr>)" "n \<noteq> []"
    by (auto elim!: page_stepE)
  have "page_waiting w s' = page_waiting w s" for w
    using s'(2) by (cases w) (simp_all add: s'(1) loadDevices_def)
  then show ?thesis using s' by (auto simp: page_named_def truthy_str_def loadDevices_def)
next
  case (Settle i r)
  with assms(1) show ?thesis by simp
qed

interpretation project_promises: promise_page "page_step c" page_settling pending
    "\<lambda>i s. s\<lparr>pending := remove_nth i (pending s)\<rparr>" "\<lambda>p r. True" "settled c"
    page_named page_waiting page_serves
  rewrites "promise_page.served pending page_named page_waiting page_serves = busy_inv" for c
proof -
  show p: "promise_page (page_step c) page_settling pending
      (\<lambda>i s. s\<lparr>pending := remove_nth i (pending s)\<rparr>) (\<lambda>p r. True) (settled c)
      page_named page_waiting page_serves" for c
  proof unfold_locales
    show "\<exists>e. page_settling e = Some (i, r)" for i r
      by (rule exI [of _ "Settle i r"]) simp
    show "page_step c s e s' \<longleftrightarrow> i < length (pending s) \<and> True \<and>
        s' = settled c (pending s ! i) r (s\<lparr>pending := remove_nth i (pending s)\<rparr>)"
      if "page_settling e = Some (i, r)" for s e s' i r
      using page_settlingE [OF that] by (auto simp: page_step_settle)
    show "page_waiting w (s\<lparr>pending := remove_nth i (pending s)\<rparr>) = page_waiting w s" for w s i
      by (cases w) simp_all
  qed (use settled_promises page_other settled_serves in \<open>auto simp: page_named_def\<close>)
  show "promise_page.served pending page_named page_waiting page_serves = busy_inv"
  proof
    fix s
    have "(\<forall>w. page_waiting w s \<longrightarrow> P w) \<longleftrightarrow> (loading s \<longrightarrow> P Spinning) \<and> (adding s \<longrightarrow> P AddingDevice)" for P
      by (metis page_flag.exhaust page_waiting.simps)
    moreover have "(\<exists>p \<in> set (pending s). page_serves p Spinning \<noteq> None) \<longleftrightarrow> (\<exists>b. Loading b \<in> set (pending s))"
      by (metis option.distinct(1) page_serves.simps(1,4) promise.exhaust)
    moreover have "(\<exists>p \<in> set (pending s). page_serves p AddingDevice \<noteq> None)
        \<longleftrightarrow> (\<exists>n. Provisioning n \<in> set (pending s)) \<or> Loading True \<in> set (pending s)"
      by (metis (full_types) option.distinct(1) page_serves.simps(2,3) promise.exhaust)
    ultimately show "promise_page.served pending page_named page_waiting page_serves s = busy_inv s"
      by (simp add: promise_page.served_def [OF p] busy_inv_def page_named_def)
  qed
qed

lemma page_step_feed: "feed_inv c s \<Longrightarrow> page_step c s e s' \<Longrightarrow> feed_inv c s'"
proof (erule page_stepE)
  fix e w assume "feed_inv c s" "s' = s\<lparr>net := w\<rparr>" "ws_step c (net s) e w" "\<not> subscription_event e"
  then show "feed_inv c s'" by (simp add: env_inv)
next
  fix h ids assume "feed_inv c s" "s' = tick ids (cancel_frame h s)" "(h, ids) \<in> set (frames s)"
  then show "feed_inv c s'" using tick_inv by simp
next
  fix a assume "feed_inv c s" "s' = project_dispatch a s"
  then show "feed_inv c s'" by (simp add: inv_intros)
next
  fix n assume "feed_inv c s" "s' = loadDevices (Some n) False (s\<lparr>page_name := Some n\<rparr>)"
  then show "feed_inv c s'" by (auto intro: feed_inv_cong [THEN iffD2])
next
  fix i r assume "feed_inv c s" "s' = settled c (pending s ! i) r (s\<lparr>pending := remove_nth i (pending s)\<rparr>)"
  moreover from this have "feed_inv c (s\<lparr>pending := remove_nth i (pending s)\<rparr>)"
    by (auto intro: feed_inv_cong [THEN iffD2])
  ultimately show "feed_inv c s'" by (simp add: settled_inv)
qed

lemma page_step_inv: "page_inv c s \<Longrightarrow> page_step c s e s' \<Longrightarrow> page_inv c s'"
  unfolding page_inv_def using page_step_feed project_promises.served_step by blast

lemma page_start_inv: "page_start c s \<Longrightarrow> page_inv c s"
  by (auto simp: page_start_def page_mount_def page_inv_def feed_inv_def loop_inv_def busy_inv_def
      loadDevices_def truthy_str_def)

interpretation project: transition_system "page_start c" "page_step c" "page_inv c" for c
  by unfold_locales (blast intro: page_start_inv page_step_inv)+

subsection \<open>Strict mode\<close>

text \<open>
  In development \<open>StrictMode\<close> runs the effects of the first render twice: effects, clean-ups,
  effects.  The state after that is one the model reaches from the page as mounted, so what
  holds of runs holds in strict mode too.
\<close>

definition StrictMode_mount :: "ws_config \<Rightarrow> string option \<Rightarrow> world \<Rightarrow> page_world" where
  "StrictMode_mount c name w = loadDevices name False (feed_effect c (feed_cleanup c (page_mount name w)))"

lemma strict_mode_is_a_run:
  assumes "name \<noteq> []"
  shows "runs (page_step c) (page_mount (Some name) w) [ParamChanged name] (StrictMode_mount c (Some name) w)"
proof -
  have "StrictMode_mount c (Some name) w = loadDevices (Some name) False ((page_mount (Some name) w)\<lparr>page_name := Some name\<rparr>)"
    by (simp add: StrictMode_mount_def feed_effect_def feed_cleanup_def page_mount_def loadDevices_def)
  then show ?thesis
    using page_param [OF assms, of c "page_mount (Some name) w"] by (simp add: runs_Cons_iff)
qed

subsection \<open>A run to apply the properties to\<close>

definition sample_vehicle :: "string \<Rightarrow> vehicle" where
  "sample_vehicle i = \<lparr>v_id = i, v_org_id = ''o'', v_project_id = None, v_display_name = ''Drone '' @ i,
     v_vehicle_type = ''drone'', v_adapter_type = ''mavlink'', v_region = ''us'', v_created_at = [],
     v_updated_at = [], v_active = True\<rparr>"

definition demo_engine :: engine where
  "demo_engine = \<lparr>time_string = (\<lambda>t. ''t''), date_string = (\<lambda>s. ''d'')\<rparr>"

lemma world_init_reachable: "reachable c world_init"
  unfolding reachable_def by (rule exI [of _ "[]"]) simp

lemma page_mount_start: "name \<noteq> [] \<Longrightarrow> page_start c (page_mount (Some name) world_init)"
  unfolding page_start_def using world_init_reachable [of c]
  by (intro exI [of _ name] exI [of _ world_init]) (simp add: world_init_def)

lemma demo_start: "page_start c (page_mount (Some ''fleet'') world_init)"
  by (rule page_mount_start) simp

definition demo_page :: page_world where
  "demo_page = settled demo_config (Loading False) (Inr (Some [sample_vehicle ''v1'']))
     ((page_mount (Some ''fleet'') world_init)\<lparr>pending := []\<rparr>)"

lemma demo_page_run:
  "runs (page_step demo_config) (page_mount (Some ''fleet'') world_init)
     [Settle 0 (Inr (Some [sample_vehicle ''v1'']))] demo_page"
  by (simp add: runs_Cons_iff page_step_settle demo_page_def page_mount_def loadDevices_def
      truthy_str_def remove_nth_def)

lemma demo_page_state:
  "map v_id (devices demo_page) = [''v1'']" "frames demo_page = [(1, [''v1''])]" "genRef demo_page = 0"
  "page_name demo_page = Some ''fleet''" "loading demo_page = False" "load_error demo_page = []"
  "net demo_page = subscribe demo_config ''v1'' world_init" "feedRows demo_page = []"
  "showAdd demo_page = False" "pending demo_page = []" "shown_tab demo_page = DataTab"
  by (simp_all add: demo_page_def settled_def devices_settled_def set_devices_def feed_cleanup_def
      feed_effect_def request_frame_def page_mount_def loadDevices_def truthy_str_def sample_vehicle_def
      subscribe_all_def)

subsection \<open>Properties\<close>

text \<open>
  C10: in every state of a mounted page the manager's subscriptions are exactly the devices the
  page holds; one animation callback is queued, for those devices, or none, and none only if
  there is no device or a tick has raised a \<open>TypeError\<close>, which it does exactly when the store
  has changed, two or more frames are held and the time of one cannot be converted; unmounting
  at any moment leaves no subscription, no callback, no retry timer and no socket connecting or
  open.
\<close>

theorem page_cleans_up:
  assumes "page_start c s0" and "runs (page_step c) s0 es s"
  shows "set (subscribedIds (net s)) = set (ids_of s) \<and>
         (frames s = [] \<and> (devices s = [] \<or> page_errors s \<noteq> []) \<or>
          devices s \<noteq> [] \<and> frames s = [(rafRef s, ids_of s)]) \<and>
         (\<forall>h s'. page_step c s (FrameFired h) s' \<longrightarrow>
            page_errors s' = page_errors s @
              (let held = concat (map (device_frames (store_telemetry (net s))) (ids_of s))
               in if generation (store_telemetry (net s)) \<noteq> genRef s \<and> 2 \<le> length held \<and>
                     (\<exists>f \<in> set held. unconvertible_ts f)
                  then [TypeError] else [])) \<and>
         subscribedIds (net (page_unmount c s)) = [] \<and> frames (page_unmount c s) = [] \<and>
         status (net (page_unmount c s)) = Disconnected \<and> timers (net (page_unmount c s)) = [] \<and>
         (\<forall>i < length (sockets (net (page_unmount c s))).
            ready (net (page_unmount c s)) i \<notin> {CONNECTING, OPEN})"
proof -
  have feed: "feed_inv c s"
    using project.inv_runs [OF assms] by (simp add: page_inv_def)
  let ?gone = "net (page_unmount c s)"
  have left: "reachable c ?gone" "subscribedIds ?gone = []" "frames (page_unmount c s) = []"
    using cleanup_spec [OF feed] by (simp_all add: page_unmount_def)
  have idle: "ws ?gone = None" "timers ?gone = []" "status ?gone = Disconnected" "others_silent ?gone"
    using reachable_inv [OF left(1)] left(2) by (simp_all add: ws_inv_def conn_inv_def base_inv_def)
  have "ready ?gone i \<notin> {CONNECTING, OPEN}" if "i < length (sockets ?gone)" for i
    using idle(1,4) that not_silent_live [of ?gone i] by (auto simp: others_silent_def)
  moreover have "page_errors s' = page_errors s @ tick_errors s" if "page_step c s (FrameFired h) s'" for h s'
    using that tick_inv [OF feed] tick_raises by (auto simp: page_step_frame)
  ultimately show ?thesis
    using feed left idle unfolding feed_inv_def loop_inv_def tick_errors_def by simp
qed

theorem page_cleans_up_witness:
  "subscribedIds (net demo_page) = [''v1''] \<and> subscribedIds (net (page_unmount demo_config demo_page)) = []"
proof -
  have "subscribedIds (net demo_page) = [''v1'']"
    by (simp add: demo_page_state subscribe_ids world_init_def set_add_def)
  then show ?thesis
    using page_cleans_up [OF demo_start demo_page_run] by simp
qed

lemma settled_loading:
  "\<not> loading (settled c (Loading b) r u) \<and>
   (case r of Inr d \<Rightarrow> devices (settled c (Loading b) r u) = (case d of None \<Rightarrow> [] | Some ds \<Rightarrow> ds)
            | Inl e \<Rightarrow> devices (settled c (Loading b) r u) = [] \<and> load_error (settled c (Loading b) r u) \<noteq> [])"
  by (simp add: settled_def devices_settled_def Let_def split: sum.split)

lemma loading_ends:
  "busy_inv s \<Longrightarrow> loading s \<Longrightarrow> \<exists>i < length (pending s). \<forall>r s'. page_step c s (Settle i r) s' \<longrightarrow>
     \<not> loading s' \<and>
     (case r of Inr d \<Rightarrow> devices s' = (case d of None \<Rightarrow> [] | Some ds \<Rightarrow> ds)
              | Inl e \<Rightarrow> devices s' = [] \<and> load_error s' \<noteq> [])"
proof -
  assume "busy_inv s" "loading s"
  then obtain i b where "i < length (pending s)" "pending s ! i = Loading b"
    by (auto simp: busy_inv_def in_set_conv_nth)
  then show ?thesis
    by (intro exI [of _ i]) (simp add: page_step_settle settled_loading)
qed

text \<open>
  C29: no spinner stays: while the page shows its spinner a list of devices is in flight whose
  settling ends it: an answer leaves exactly the devices of that answer (an answer without
  devices none), for whichever name it was requested, and an error the message and no device;
  while a device is being added, at most two settlings, however they end, make the button
  available again; and when no request is in flight the page waits for nothing.
\<close>

theorem waiting_ends:
  assumes "page_start c s0" and "runs (page_step c) s0 es s"
  shows "(loading s \<longrightarrow> (\<exists>i < length (pending s). \<forall>r s'. page_step c s (Settle i r) s' \<longrightarrow>
            \<not> loading s' \<and>
            (case r of Inr d \<Rightarrow> devices s' = (case d of None \<Rightarrow> [] | Some ds \<Rightarrow> ds)
                     | Inl e \<Rightarrow> devices s' = [] \<and> load_error s' \<noteq> []))) \<and>
         down_within 2 (settles page_settling (page_step c)) adding s \<and>
         (pending s = [] \<longrightarrow> \<not> loading s \<and> \<not> adding s)"
proof -
  have busy: "busy_inv s"
    using project.inv_runs [OF assms] by (simp add: page_inv_def)
  have rank: "page_serves p AddingDevice = Some m \<Longrightarrow> m < 2" for p m
    by (cases p) (auto split: if_splits)
  have "page_waiting AddingDevice = adding"
    by (rule ext) simp
  moreover have "down_within 2 (settles page_settling (page_step c)) (page_waiting AddingDevice) s"
    using busy rank by (rule project_promises.served_clears)
  ultimately have "down_within 2 (settles page_settling (page_step c)) adding s"
    by simp
  then show ?thesis
    using loading_ends [OF busy, of c] project_promises.nothing_left [OF busy, of Spinning]
      project_promises.nothing_left [OF busy, of AddingDevice] by simp
qed

theorem waiting_ends_witness:
  "\<exists>i < length (pending (page_mount (Some ''fleet'') world_init)). \<forall>r s'.
     page_step demo_config (page_mount (Some ''fleet'') world_init) (Settle i r) s' \<longrightarrow>
       \<not> loading s'"
proof -
  have "loading (page_mount (Some ''fleet'') world_init)"
    by (simp add: page_mount_def)
  then show ?thesis
    using conjunct1 [OF waiting_ends [OF demo_start runs_Nil, of demo_config]] by blast
qed

lemma tick_feed:
  assumes feed: "feed_inv c s" and "page_step c s (FrameFired h) s'"
    and "numeric_ts (concat (map (device_frames (store_telemetry (net s))) (ids_of s)))"
  shows "\<exists>evs. store_telemetry (net s) = foldl telemetry_step telemetry_init evs \<and>
     (if generation (store_telemetry (net s)) = genRef s then feedRows s' = feedRows s
      else newest_feed (concat (map (logged evs) (ids_of s))) (feedRows s'))"
proof -
  obtain evs where evs: "store_telemetry (net s) = foldl telemetry_step telemetry_init evs"
    using reachable_telemetry feed unfolding feed_inv_def by blast
  let ?held = "concat (map (logged evs) (ids_of s))"
  have held: "concat (map (device_frames (store_telemetry (net s))) (ids_of s)) = ?held"
    unfolding evs device_frames_logged ..
  have s': "s' = tick (ids_of s) (cancel_frame h s)"
    using assms(2) tick_inv [OF feed] by (auto simp: page_step_frame)
  obtain rows where rows: "merge_feed (store_telemetry (net s)) (ids_of s) = Inr rows" "newest_feed ?held rows"
    using newest_feed_merge [OF assms(3)] unfolding held by blast
  have "feedRows s' = (if generation (store_telemetry (net s)) = genRef s then feedRows s else rows)"
    unfolding s' using rows(1) by (simp add: tick_def cancel_frame_def request_frame_def Let_def)
  then show ?thesis
    using evs rows(2) by (intro exI [of _ evs]) simp
qed

text \<open>
  C16: a tick after the store changed shows the newest frames: the feed is as many of the
  frames held for the page's devices (the last 1000 received for each) as fit into 500 rows,
  ordered with the newest first, and no frame left out is newer than one shown.  A tick with
  no change keeps the rows.  (Given that the frames' timestamps are numbers.)
\<close>

theorem feed_shows_newest:
  assumes "page_start c s0" and "runs (page_step c) s0 es s"
    and "page_step c s (FrameFired h) s'"
    and "numeric_ts (concat (map (device_frames (store_telemetry (net s))) (ids_of s)))"
  shows "\<exists>evs. store_telemetry (net s) = foldl telemetry_step telemetry_init evs \<and>
     (if generation (store_telemetry (net s)) = genRef s then feedRows s' = feedRows s
      else newest_feed (concat (map (logged evs) (ids_of s))) (feedRows s'))"
  using project.inv_runs [OF assms(1,2)] by (intro tick_feed [OF _ assms(3,4)]) (simp add: page_inv_def)

definition gps_frame :: json where
  "gps_frame = JObj [(''type'', JStr ''telemetry''), (''vehicle_id'', JStr ''v1''), (''ts'', JNum 5)]"

definition gps_config :: ws_config where
  "gps_config = demo_config\<lparr>JSON_parse := (\<lambda>s. Some gps_frame)\<rparr>"

definition gps_world :: world where
  "gps_world = handle_message gps_config (Text ''x'') demo_open"

definition gps_page :: page_world where
  "gps_page = demo_page\<lparr>net := gps_world\<lparr>store_telemetry := animation_frame (store_telemetry gps_world)\<rparr>\<rparr>"

lemma subscribe_gps: "subscribe gps_config v w = subscribe demo_config v w"
  by (simp add: subscribe_def reconnect_def open_socket_def ws_url_def gps_config_def demo_config_def)

lemma gps_page_steps:
  "page_step gps_config (page_mount (Some ''fleet'') world_init)
     (Settle 0 (Inr (Some [sample_vehicle ''v1'']))) demo_page"
  "page_step gps_config demo_page (Env (SocketOpen 0)) (demo_page\<lparr>net := demo_open\<rparr>)"
  "page_step gps_config (demo_page\<lparr>net := demo_open\<rparr>)
     (Env (SocketMessage 0 (Text ''x''))) (demo_page\<lparr>net := gps_world\<rparr>)"
  "page_step gps_config (demo_page\<lparr>net := gps_world\<rparr>) (Env AnimationFrame) gps_page"
proof -
  show "page_step gps_config (page_mount (Some ''fleet'') world_init)
      (Settle 0 (Inr (Some [sample_vehicle ''v1'']))) demo_page"
    by (simp add: page_step_settle demo_page_def page_mount_def loadDevices_def truthy_str_def remove_nth_def
        settled_def devices_settled_def set_devices_def feed_cleanup_def feed_effect_def
        subscribe_all_def subscribe_gps)
  have "ws_step gps_config demo_connecting (SocketOpen 0) demo_open"
    unfolding demo_open_def by (rule step_open) (simp_all add: demo_connecting_state ready_def)
  then show "page_step gps_config demo_page (Env (SocketOpen 0)) (demo_page\<lparr>net := demo_open\<rparr>)"
    by (intro page_env) (simp_all add: demo_page_state demo_connecting_def)
  have "ws_step gps_config demo_open (SocketMessage 0 (Text ''x'')) gps_world"
    unfolding gps_world_def by (rule step_message) (simp_all add: demo_open_state)
  then show "page_step gps_config (demo_page\<lparr>net := demo_open\<rparr>)
      (Env (SocketMessage 0 (Text ''x''))) (demo_page\<lparr>net := gps_world\<rparr>)"
    using page_env [of gps_config "demo_page\<lparr>net := demo_open\<rparr>"] by simp
  show "page_step gps_config (demo_page\<lparr>net := gps_world\<rparr>) (Env AnimationFrame) gps_page"
    using page_env [of gps_config "demo_page\<lparr>net := gps_world\<rparr>" AnimationFrame, OF step_frame]
    by (simp add: gps_page_def)
qed

lemma gps_page_run:
  "runs (page_step gps_config) (page_mount (Some ''fleet'') world_init)
     [Settle 0 (Inr (Some [sample_vehicle ''v1''])), Env (SocketOpen 0), Env (SocketMessage 0 (Text ''x'')),
      Env AnimationFrame] gps_page"
  unfolding runs_Cons_iff runs_Nil_iff using gps_page_steps by blast

lemma gps_page_state:
  "store_telemetry (net gps_page) = foldl telemetry_step telemetry_init [Push (Some (JStr ''v1'')) gps_frame, Frame]"
  "map v_id (devices gps_page) = [''v1'']" "frames gps_page = [(1, [''v1''])]" "genRef gps_page = 0"
  "feedRows gps_page = []"
proof -
  have "store_telemetry demo_open = telemetry_init"
    using stores_runs [OF demo_open_run world_init_inv]
    by (simp add: world_init_def telemetry_events_def frame_of_def)
  then show "store_telemetry (net gps_page)
      = foldl telemetry_step telemetry_init [Push (Some (JStr ''v1'')) gps_frame, Frame]"
    by (simp add: gps_page_def gps_world_def handle_message_def push_frame_def gps_config_def gps_frame_def field_def
        is_string_def)
qed (simp_all add: gps_page_def demo_page_state)

lemma gps_page_held:
  "concat (map (device_frames (store_telemetry (net gps_page))) (ids_of gps_page)) = [gps_frame]"
  unfolding gps_page_state device_frames_logged by (simp add: logged_def last_n_short CAPACITY_def)

lemma gps_frame_numeric: "numeric_ts [gps_frame]"
  by (simp add: numeric_ts_def frame_ts_def gps_frame_def field_def to_number_def primitive_def)

lemma gps_page_tick:
  "page_step gps_config gps_page (FrameFired 1)
     (tick [''v1''] (cancel_frame 1 gps_page))"
  by (rule page_frame) (simp add: gps_page_state)

theorem feed_shows_newest_witness:
  "\<exists>s'. page_step gps_config gps_page (FrameFired 1) s' \<and> feedRows s' = [gps_frame]"
proof -
  let ?s' = "tick [''v1''] (cancel_frame 1 gps_page)"
  have gen: "generation (store_telemetry (net gps_page)) \<noteq> genRef gps_page"
    unfolding gps_page_state generation_run by simp
  obtain evs where evs: "store_telemetry (net gps_page) = foldl telemetry_step telemetry_init evs"
    and new: "newest_feed (concat (map (logged evs) (ids_of gps_page))) (feedRows ?s')"
    using feed_shows_newest [OF demo_start gps_page_run gps_page_tick] gps_page_held gps_frame_numeric gen
    by auto
  have "concat (map (logged evs) (ids_of gps_page)) = [gps_frame]"
    using gps_page_held unfolding evs device_frames_logged .
  with new have "feedRows ?s' = [gps_frame]"
    by (cases "feedRows ?s'") (auto simp: newest_feed_def)
  with gps_page_tick show ?thesis by blast
qed

text \<open>
  C40: a list that comes late wins: when the project in the address changes while the first
  list is in flight and the lists settle in the opposite order, the page ends up under the
  second name with the devices of the first, subscribed to them.
\<close>

theorem late_list_wins:
  assumes "n1 \<noteq> []" and "n2 \<noteq> []" and "reachable c w" and "subscribedIds w = []"
  shows "\<exists>s. runs (page_step c) (page_mount (Some n1) w)
               [ParamChanged n2, Settle 1 (Inr (Some ds2)), Settle 0 (Inr (Some ds1))] s \<and>
             requests s = [listProjectDevices n1, listProjectDevices n2] \<and> pending s = [] \<and>
             page_name s = Some n2 \<and> devices s = ds1 \<and> set (subscribedIds (net s)) = set (map v_id ds1)"
proof -
  let ?s0 = "page_mount (Some n1) w"
  let ?s1 = "loadDevices (Some n2) False (?s0\<lparr>page_name := Some n2\<rparr>)"
  let ?s2 = "settled c (pending ?s1 ! 1) (Inr (Some ds2)) (?s1\<lparr>pending := remove_nth 1 (pending ?s1)\<rparr>)"
  let ?s3 = "settled c (pending ?s2 ! 0) (Inr (Some ds1)) (?s2\<lparr>pending := remove_nth 0 (pending ?s2)\<rparr>)"
  have p1: "pending ?s1 = [Loading False, Loading False]"
    "requests ?s1 = [listProjectDevices n1, listProjectDevices n2]" "page_name ?s1 = Some n2"
    using assms(1,2) by (simp_all add: page_mount_def loadDevices_def truthy_str_def)
  have frame: "requests (set_devices c ds u) = requests u" for ds u
    by (simp add: set_devices_def feed_effect_def feed_cleanup_def request_frame_def cancel_frame_def Let_def)
  have p2: "pending ?s2 = [Loading False]" "requests ?s2 = requests ?s1" "page_name ?s2 = Some n2"
    using p1 by (simp_all add: settled_def devices_settled_def Let_def remove_nth_def frame)
  have p3: "pending ?s3 = []" "requests ?s3 = requests ?s1" "page_name ?s3 = Some n2" "devices ?s3 = ds1"
    using p2 by (simp_all add: settled_def devices_settled_def Let_def remove_nth_def frame)
  have 1: "page_step c ?s0 (ParamChanged n2) ?s1"
    by (rule page_param [OF assms(2)])
  have 2: "page_step c ?s1 (Settle 1 (Inr (Some ds2))) ?s2"
    by (rule page_settle) (simp only: p1, simp)
  have 3: "page_step c ?s2 (Settle 0 (Inr (Some ds1))) ?s3"
    by (rule page_settle) (simp only: p2, simp)
  have run: "runs (page_step c) ?s0
      [ParamChanged n2, Settle 1 (Inr (Some ds2)), Settle 0 (Inr (Some ds1))] ?s3"
    unfolding runs_Cons_iff runs_Nil_iff using 1 2 3 by blast
  have "page_start c ?s0"
    using assms unfolding page_start_def by blast
  then have "page_inv c ?s3"
    using run by (rule project.inv_runs)
  then show ?thesis
    using run p1 p3 by (intro exI [of _ ?s3]) (simp add: page_inv_def feed_inv_def)
qed

theorem late_list_wins_witness:
  "\<exists>s :: page_world. page_name s = Some ''b'' \<and> set (subscribedIds (net s)) = {''v1''} \<and>
       requests s = [listProjectDevices ''a'', listProjectDevices ''b'']"
proof -
  have ids: "set (map v_id [sample_vehicle ''v1'']) = {''v1''}" and none: "subscribedIds world_init = []"
    and named: "''a'' \<noteq> []" "''b'' \<noteq> []"
    by (simp_all add: sample_vehicle_def world_init_def)
  show ?thesis
    using late_list_wins [OF named world_init_reachable [of demo_config] none,
        of "[]" "[sample_vehicle ''v1'']", unfolded ids]
    by (elim exE conjE) (intro exI conjI, assumption+)
qed

end
