(* ===== verification/ProjectView.thy ===== *)
theory ProjectView
  imports ProjectBehaviour Jsx
begin

section \<open>What the project page renders (server/dashboard/src/pages/Project)\<close>

text \<open>
  The elements of the project page.  Rows of the feed and of the alerts hold unchecked JSON
  values, so rendering may raise: \<open>toFixed\<close> exists on numbers only, \<open>slice\<close> on strings and
  arrays only, and an object is not a React child.  \<open>project_elements\<close> is what one call of the
  component returns, given the alerts its selector returned; \<open>ProjectPage_view\<close> is the component
  as mounted, with the hook that handles the selection: the selector makes a new array at every
  call.  \<open>elements_table\<close> says what the texts of the table tell of the frames.
\<close>

definition react_child :: "json option \<Rightarrow> js_error + string" where
  "react_child v = (case v of None \<Rightarrow> Inr [] | Some j \<Rightarrow> react_text j)"

text \<open>\<open>deviceNameMap.get(v) ?? v.slice(0, 8)\<close> as a child.\<close>

definition device_label :: "(string \<rightharpoonup> string) \<Rightarrow> json option \<Rightarrow> js_error + string" where
  "device_label names v =
     (case v of
        Some (JStr i) \<Rightarrow> Inr (case names i of Some n \<Rightarrow> n | None \<Rightarrow> take 8 i)
      | Some (JArr vs) \<Rightarrow> react_text (JArr (take 8 vs))
      | _ \<Rightarrow> Inl TypeError)"

definition fixed_text :: "nat \<Rightarrow> json option \<Rightarrow> js_error + string" where
  "fixed_text d v = (case v of Some (JNum r) \<Rightarrow> Inr (to_fixed d r) | _ \<Rightarrow> Inl TypeError)"

text \<open>The time of a frame, from nanoseconds to the milliseconds of a date.\<close>

definition formatTs :: "engine \<Rightarrow> json option \<Rightarrow> js_error + string" where
  "formatTs eng ns =
     and_then (primitive ns) (\<lambda>n.
       Inr (time_string eng (date_of (map_option (\<lambda>r. round_double (r / 1000000)) (to_number n)))))"

definition td :: "string \<Rightarrow> 'a node" where
  "td s = El ''td'' [] [Txt s]"

text \<open>
  The key of a row is not shown, but making its text may raise; the index of the row at its
  end, a number, never does and is left out.
\<close>

definition row_key :: "json option \<Rightarrow> json option \<Rightarrow> js_error + string" where
  "row_key vehicle ts =
     and_then (template_text vehicle) (\<lambda>v. and_then (template_text ts) (\<lambda>t. Inr (v @ ''-'' @ t)))"

definition feed_row :: "engine \<Rightarrow> (string \<rightharpoonup> string) \<Rightarrow> json \<Rightarrow> js_error + project_action node" where
  "feed_row eng names row =
     and_then (formatTs eng (field row ''ts'')) (\<lambda>time.
     and_then (device_label names (field row ''vehicle_id'')) (\<lambda>device.
     and_then (fixed_text 6 (field row ''lat'')) (\<lambda>lat.
     and_then (fixed_text 6 (field row ''lon'')) (\<lambda>lon.
     and_then (fixed_text 1 (field row ''alt'')) (\<lambda>alt.
     and_then (react_child (field row ''seq'')) (\<lambda>sq.
     and_then (row_key (field row ''vehicle_id'') (field row ''ts'')) (\<lambda>_.
       Inr (El ''tr'' [] [td time, td device, td lat, td lon, td alt, td sq]))))))))"

definition alert_row :: "(string \<rightharpoonup> string) \<Rightarrow> json \<Rightarrow> js_error + project_action node" where
  "alert_row names a =
     and_then (react_child (field a ''level'')) (\<lambda>level.
     and_then (device_label names (field a ''device'')) (\<lambda>device.
     and_then (react_child (field a ''message'')) (\<lambda>message.
       Inr (El ''div'' [Cls ''alertRow'']
         [El ''span'' [Cls (''alertLevel badge '' @ levelColor (field a ''level''))] [Txt level],
          El ''span'' [Cls ''alertDevice''] [Txt device],
          El ''span'' [Cls ''alertMessage''] [Txt message]]))))"

definition data_tab :: "engine \<Rightarrow> page_world \<Rightarrow> js_error + project_action node list" where
  "data_tab eng s =
     (if feedRows s = [] then
        Inr [El ''div'' [Cls ''emptyTab'']
          [Txt ''No telemetry data streaming yet. Connect devices to see live data.'']]
      else and_then (map_or_raise (feed_row eng (deviceNameMap (devices s))) (feedRows s)) (\<lambda>rows.
        Inr [El ''table'' [Cls ''dataTable'']
          [El ''thead'' [] [El ''tr'' [] (map (\<lambda>h. El ''th'' [] [Txt h])
             [''Time'', ''Device'', ''Lat'', ''Lon'', ''Alt (m)'', ''Seq''])],
           El ''tbody'' [] rows]]))"

definition alerts_tab :: "json list \<Rightarrow> page_world \<Rightarrow> js_error + project_action node list" where
  "alerts_tab shown s =
     (if shown = [] then
        Inr [El ''div'' [Cls ''emptyTab''] [Txt ''No alerts for this project.'']]
      else map_or_raise (alert_row (deviceNameMap (devices s))) shown)"

definition sidebar :: "bool \<Rightarrow> vehicle list \<Rightarrow> project_action node" where
  "sidebar admin ds =
     El ''aside'' [Cls ''sidebar'']
       [El ''div'' [Cls ''sidebarHeader'']
          (El ''h3'' [] [Txt ''Devices''] #
           show_if admin [El ''button'' [On ''click'' OpenAdd] [Txt ''+ Add'']]),
        El ''div'' [Cls ''deviceList'']
          (if length ds = 0 then [El ''div'' [Cls ''noDevices''] [Txt ''No devices provisioned yet.'']]
           else map (\<lambda>d. El ''div'' [Cls ''deviceRow'']
                  [El ''span'' [Cls ''deviceDot''] [],
                   El ''span'' [Cls ''deviceName''] [Txt (v_display_name d)],
                   El ''span'' [Cls ''deviceType''] [Txt (v_vehicle_type d)]]) ds)]"

definition tab_button :: "tab \<Rightarrow> tab \<Rightarrow> project_action node list \<Rightarrow> project_action node" where
  "tab_button current t label =
     El ''button'' [Cls (''tab '' @ (if current = t then ''tabActive'' else '''')), On ''click'' (SelectTab t)] label"

definition add_device_modal :: "page_world \<Rightarrow> project_action node list" where
  "add_device_modal s =
     Modal (showAdd s) CloseAdd ''Add Device''
       [El ''div'' [Cls ''formRow'']
          [El ''label'' [] [Txt ''Device Name''],
           El ''input'' [Attr ''placeholder'' ''drone-001'', Value (devName s), OnInput TypeName,
                         On ''enter'' SubmitDevice] []],
        El ''div'' [Cls ''formRow'']
          [El ''label'' [] [Txt ''Type (optional)''],
           El ''input'' [Attr ''placeholder'' ''drone, rover, camera...'', Value (devType s),
                         OnInput TypeType] []],
        El ''div'' [Cls ''formRow'']
          [El ''label'' [] [Txt ''Region (optional)''],
           El ''input'' [Attr ''placeholder'' ''us-east-1'', Value (devRegion s), OnInput TypeRegion] []],
        El ''div'' [Cls ''formActions'']
          [El ''button'' [On ''click'' CloseAdd] [Txt ''Cancel''],
           El ''button'' [Cls ''primary'', On ''click'' SubmitDevice,
                          Disabled (adding s \<or> trim (devName s) = [])]
             [Txt (if adding s then ''Adding...'' else ''Add Device'')]]]"

definition spinner_view :: "'a node" where
  "spinner_view = El ''div'' [Cls ''root''] [El ''div'' [] [El ''div'' [Cls ''spinner''] []]]"

definition error_view :: "string \<Rightarrow> project_action node" where
  "error_view msg =
     El ''div'' [Cls ''root'']
       [El ''div'' []
          [El ''span'' [] [Txt msg], El ''button'' [On ''click'' Retry] [Txt ''Retry'']]]"

definition project_elements ::
  "engine \<Rightarrow> bool \<Rightarrow> json list \<Rightarrow> page_world \<Rightarrow> js_error + project_action node" where
  "project_elements eng admin shown s =
     (if loading s then Inr spinner_view
      else if load_error s \<noteq> [] then Inr (error_view (load_error s))
      else and_then (case shown_tab s of DataTab \<Rightarrow> data_tab eng s | AlertsTab \<Rightarrow> alerts_tab shown s) (\<lambda>content.
        Inr (El ''div'' [Cls ''root'']
          ([sidebar admin (devices s),
            El ''div'' [Cls ''main'']
              [El ''div'' [Cls ''topBar'']
                 [El ''button'' [Cls ''backBtn'', On ''click'' BackToProjects] [Txt ''&larr; Projects''],
                  El ''span'' [Cls ''projectTitle'']
                    [Txt (case page_name s of None \<Rightarrow> [] | Some n \<Rightarrow> n)]],
               El ''div'' [Cls ''tabs'']
                 [tab_button (shown_tab s) DataTab [Txt ''Data Stream''],
                  tab_button (shown_tab s) AlertsTab
                    [Txt ''Alerts ('', Txt (number_string (rat_of_nat (length shown))), Txt '')'']],
               El ''div'' [Cls ''tabContent''] content]]
           @ add_device_modal s))))"

definition ProjectPage_view ::
  "store_hook \<Rightarrow> engine \<Rightarrow> bool \<Rightarrow> page_world \<Rightarrow> js_error + project_action node" where
  "ProjectPage_view hook eng admin s =
     and_then (useStore hook (alerts_selection s)) (\<lambda>shown. project_elements eng admin shown s)"

lemma ProjectPage_view_Inr:
  "ProjectPage_view hook eng admin s = Inr v \<longleftrightarrow>
     hook = None \<and> project_elements eng admin (project_alerts s) s = Inr v"
  by (cases hook) (simp_all add: ProjectPage_view_def alerts_selection_def)

subsection \<open>Properties\<close>

text \<open>The view once nothing is loading and no error is shown.\<close>

definition page_ready :: "page_world \<Rightarrow> bool" where
  "page_ready s \<longleftrightarrow> \<not> loading s \<and> load_error s = []"

definition displayable :: "json \<Rightarrow> bool" where
  "displayable row \<longleftrightarrow>
     (\<exists>i. field row ''vehicle_id'' = Some (JStr i)) \<and>
     (\<forall>j. field row ''ts'' = Some j \<longrightarrow> convertible j) \<and>
     (\<forall>key \<in> {''lat'', ''lon'', ''alt''}. \<exists>r. field row key = Some (JNum r)) \<and>
     (\<exists>t. react_child (field row ''seq'') = Inr t)"

lemma feed_row_displayable: "displayable row \<Longrightarrow> \<exists>n. feed_row eng names row = Inr n"
  by (cases "field row ''ts''")
    (auto simp: displayable_def feed_row_def device_label_def fixed_text_def formatTs_def row_key_def primitive_def
      template_text_def)

lemma feed_row_not_number:
  "key \<in> {''lat'', ''lon'', ''alt''} \<Longrightarrow> \<forall>r. field row key \<noteq> Some (JNum r) \<Longrightarrow>
     \<exists>e. feed_row eng names row = Inl e"
  by (auto simp: feed_row_def fixed_text_def and_then_def split: sum.split option.split json.split)

lemma elements_of_data_tab:
  "page_ready s \<Longrightarrow> shown_tab s = DataTab \<Longrightarrow>
     (\<exists>e. project_elements eng admin shown s = Inl e) = (\<exists>e. data_tab eng s = Inl e)"
  by (cases "data_tab eng s") (simp_all add: project_elements_def page_ready_def)

text \<open>
  C39: a call of the page's component with the data tab shown returns its elements when every
  frame of the feed has a device name, a time that can be converted, numeric coordinates and a
  printable sequence number, and raises when one frame has a latitude, longitude or altitude
  that is not a number (\<open>null\<close>, say); and with the store's hook as documented for its version
  the mounted page raises whatever the frames are, because its selector of alerts makes a new
  array at every call.
\<close>

theorem data_tab_needs_numbers:
  assumes "page_ready s" and "shown_tab s = DataTab"
  shows "(list_all (displayable) (feedRows s) \<longrightarrow> (\<exists>v. project_elements eng admin shown s = Inr v)) \<and>
         (\<forall>row \<in> set (feedRows s). \<forall>key \<in> {''lat'', ''lon'', ''alt''}.
            (\<exists>r. field row key = Some (JNum r)) \<or> (\<exists>e. project_elements eng admin shown s = Inl e)) \<and>
         (documented_hook hook \<longrightarrow> (\<exists>e. ProjectPage_view hook eng admin s = Inl e))"
proof -
  let ?row = "feed_row eng (deviceNameMap (devices s))"
  have "\<exists>v. project_elements eng admin shown s = Inr v" if "list_all (displayable) (feedRows s)"
  proof -
    have "\<forall>row \<in> set (feedRows s). \<exists>n. ?row row = Inr n"
      using that feed_row_displayable by (simp add: list_all_iff)
    then obtain f where f: "\<forall>row \<in> set (feedRows s). ?row row = Inr (f row)"
      by (rule bchoice [THEN exE])
    then have "map_or_raise ?row (feedRows s) = Inr (map f (feedRows s))"
      by (intro map_or_raise_Inr) simp
    then have "\<not> (\<exists>e. data_tab eng s = Inl e)"
      by (simp add: data_tab_def)
    then show ?thesis
      using elements_of_data_tab [OF assms, of eng admin shown]
      by (cases "project_elements eng admin shown s") auto
  qed
  moreover have "\<exists>e. project_elements eng admin shown s = Inl e"
    if row: "row \<in> set (feedRows s)" and key: "key \<in> {''lat'', ''lon'', ''alt''}"
      and bad: "\<forall>r. field row key \<noteq> Some (JNum r)" for row key
  proof -
    obtain e where "?row row = Inl e"
      using feed_row_not_number [OF key bad] by blast
    then obtain e' where "map_or_raise ?row (feedRows s) = Inl e'"
      using map_or_raise_Inl [OF row] by blast
    then have "\<exists>e. data_tab eng s = Inl e"
      using row by (auto simp: data_tab_def)
    then show ?thesis
      using elements_of_data_tab [OF assms] by blast
  qed
  moreover have "documented_hook hook \<longrightarrow> (\<exists>e. ProjectPage_view hook eng admin s = Inl e)"
    by (auto simp: documented_hook_def ProjectPage_view_def alerts_selection_def)
  ultimately show ?thesis by blast
qed

theorem data_tab_needs_numbers_witness:
  "(\<exists>e. project_elements demo_engine True []
      (demo_page\<lparr>feedRows := [JObj [(''vehicle_id'', JStr ''v1''), (''lat'', JNull)]]\<rparr>) = Inl e) \<and>
   (\<exists>e. ProjectPage_view (Some RenderError) demo_engine True demo_page = Inl e)"
proof -
  let ?row = "JObj [(''vehicle_id'', JStr ''v1''), (''lat'', JNull)]"
  let ?s = "demo_page\<lparr>feedRows := [?row]\<rparr>"
  have "page_ready ?s" "shown_tab ?s = DataTab" "page_ready demo_page" "shown_tab demo_page = DataTab"
    by (simp_all add: page_ready_def demo_page_state)
  with data_tab_needs_numbers [of ?s demo_engine True "[]"]
    data_tab_needs_numbers [of demo_page demo_engine True "[]" "Some RenderError"]
  show ?thesis
    by (simp add: field_def documented_hook_def)
qed

subsection \<open>The table of the data tab\<close>

text \<open>
  A decimal that is off a number by at most half a unit of its last digit; from \<open>10 ^ 21\<close> on
  \<open>toFixed\<close> prints another form.
\<close>

definition reads_near :: "nat \<Rightarrow> json option \<Rightarrow> string \<Rightarrow> bool" where
  "reads_near d v s \<longleftrightarrow>
     (\<exists>r. v = Some (JNum r) \<and>
        (\<bar>r\<bar> < 10 ^ 21 \<longrightarrow> (\<exists>x. read_decimal s = Some (x, []) \<and> \<bar>x - r\<bar> \<le> 1 / (2 * 10 ^ d))))"

text \<open>What the texts of a row say of the frame it stands for.\<close>

definition tells :: "engine \<Rightarrow> (string \<rightharpoonup> string) \<Rightarrow> json \<Rightarrow> string list \<Rightarrow> bool" where
  "tells eng names row cells \<longleftrightarrow>
     (\<exists>time device lat lon alt sq. cells = [time, device, lat, lon, alt, sq] \<and>
        formatTs eng (field row ''ts'') = Inr time \<and>
        (\<forall>i. field row ''vehicle_id'' = Some (JStr i) \<longrightarrow>
           device = (case names i of Some n \<Rightarrow> n | None \<Rightarrow> take 8 i)) \<and>
        reads_near 6 (field row ''lat'') lat \<and> reads_near 6 (field row ''lon'') lon \<and>
        reads_near 1 (field row ''alt'') alt \<and>
        (\<forall>r. field row ''seq'' = Some (JNum r) \<longrightarrow> is_double r \<longrightarrow> read_number sq = Some (r, [])))"

definition table_row :: "string list \<Rightarrow> 'a node" where
  "table_row cells = El ''tr'' [] (map td cells)"

lemma fixed_text_near: "fixed_text d v = Inr s \<Longrightarrow> reads_near d v s"
  using to_fixed_read [of _ "[]" d]
  by (fastforce simp: fixed_text_def reads_near_def ends_number_def split: option.splits json.splits)

lemma feed_row_tells:
  assumes "feed_row eng names row = Inr n"
  shows "\<exists>cells. n = table_row cells \<and> tells eng names row cells"
proof -
  obtain time device lat lon alt sq where
    time: "formatTs eng (field row ''ts'') = Inr time" and
    device: "device_label names (field row ''vehicle_id'') = Inr device" and
    near: "fixed_text 6 (field row ''lat'') = Inr lat" "fixed_text 6 (field row ''lon'') = Inr lon"
      "fixed_text 1 (field row ''alt'') = Inr alt" and
    sq: "react_child (field row ''seq'') = Inr sq" and
    n: "n = table_row [time, device, lat, lon, alt, sq]"
    using assms by (auto simp: feed_row_def and_then_def table_row_def split: sum.splits)
  have "read_number sq = Some (r, [])" if "field row ''seq'' = Some (JNum r)" "is_double r" for r
    using sq that number_string_read [of r "[]"] by (simp add: react_child_def ends_number_def)
  then have "tells eng names row [time, device, lat, lon, alt, sq]"
    using time device near [THEN fixed_text_near] by (auto simp: tells_def device_label_def)
  then show ?thesis
    using n by blast
qed

lemma elements_table:
  assumes "page_ready s" and "shown_tab s = DataTab" and "feedRows s \<noteq> []"
    and "project_elements eng admin shown s = Inr v"
  shows "\<exists>rows. El ''tbody'' [] (map table_row rows) \<in> set (descendants v) \<and>
           list_all2 (tells eng (deviceNameMap (devices s))) (feedRows s) rows"
proof -
  let ?names = "deviceNameMap (devices s)"
  obtain ns where ns: "map_or_raise (feed_row eng ?names) (feedRows s) = Inr ns"
    and body: "El ''tbody'' [] ns \<in> set (descendants v)"
    using assms by (auto simp: project_elements_def page_ready_def data_tab_def and_then_def split: sum.splits)
  from map_or_raise_rows [OF ns]
  have "\<exists>rows. ns = map table_row rows \<and> list_all2 (tells eng ?names) (feedRows s) rows"
  proof (induction rule: list_all2_induct)
    case (Cons x xs y ys)
    then obtain rows cells where "ys = map table_row rows" "list_all2 (tells eng ?names) xs rows"
      and "y = table_row cells" "tells eng ?names x cells"
      using feed_row_tells by blast
    then show ?case
      by (intro exI [of _ "cells # rows"]) simp
  qed simp
  then show ?thesis
    using body by blast
qed

text \<open>
  An alert the socket delivers for one of the project's devices is at the top of the
  alerts tab at once, and one for another device does not appear; what was shown stays in its
  order behind it as far as the store of 200 alerts holds it.
\<close>

theorem alert_reaches_page:
  assumes "page_step c s (Env (SocketMessage i (Text txt))) s'"
    and "JSON_parse c txt = Some f" and "is_string (field f ''type'') ''alert''"
    and "field f ''device'' = Some (JStr d)"
  shows "project_alerts s' =
      (if d \<in> set (ids_of s) then [f] else []) @
      filter (\<lambda>a. field a ''device'' \<in> Some ` JStr ` set (ids_of s)) (take 199 (alerts (store_alerts (net s))))"
proof -
  obtain w where s': "s' = s\<lparr>net := w\<rparr>" and w: "ws_step c (net s) (SocketMessage i (Text txt)) w"
    using assms(1) by (auto elim: page_stepE)
  have "f \<noteq> JNull"
    using assms(4) by (auto simp: field_def)
  then have "alerts (store_alerts w) = f # take 199 (alerts (store_alerts (net s)))"
    using w assms(2,3) by (simp add: ws_step_message handle_message_def get_prop_field is_string_def
        alert_push_def MAX_ALERTS_def)
  moreover have "field f ''device'' \<in> Some ` JStr ` set (ids_of s) \<longleftrightarrow> d \<in> set (ids_of s)"
    using assms(4) by auto
  ultimately show ?thesis
    by (simp add: s' project_alerts_def Let_def image_image)
qed

theorem alert_reaches_page_witness:
  "\<exists>s'. page_step alarm_config (demo_page\<lparr>net := demo_open\<rparr>)
          (Env (SocketMessage 0 (Text ''x''))) s' \<and> project_alerts s' = [alarm]"
proof -
  let ?s = "demo_page\<lparr>net := demo_open\<rparr>"
  let ?s' = "?s\<lparr>net := handle_message alarm_config (Text ''x'') demo_open\<rparr>"
  have "ws_step alarm_config (net ?s) (SocketMessage 0 (Text ''x'')) (handle_message alarm_config (Text ''x'') demo_open)"
    by (simp add: ws_step_message demo_open_state)
  then have step: "page_step alarm_config ?s (Env (SocketMessage 0 (Text ''x''))) ?s'"
    by (intro page_env) simp_all
  have "alerts (store_alerts demo_open) = []"
    using stores_runs [OF demo_open_run world_init_inv]
    by (simp add: world_init_def alert_events_def frame_of_def alert_init_def)
  then have "project_alerts ?s' = [alarm]"
    using alert_reaches_page [OF step, of alarm "''v1''"]
    by (simp add: alarm_config_def alarm_def field_def is_string_def demo_page_state)
  with step show ?thesis by blast
qed

text \<open>
  While a device is being added the button is disabled, but the Enter key in the name
  field still submits: it sends a second identical request.
\<close>

theorem enter_submits_again:
  assumes "page_ready s" and "project_elements eng admin shown s = Inr v"
    and "showAdd s" and "adding s" and "page_name s = Some (n # ns)" and "trim (devName s) \<noteq> []"
  shows "bubble ''click'' v [2, 0, 1, 3, 1] = ([], True) \<and>
         bubble ''enter'' v [2, 0, 1, 0, 1] = ([SubmitDevice], True) \<and>
         requests (project_dispatch SubmitDevice s) = requests s @
           [provisionDevice (n # ns) (trim (devName s)) (or_undefined (trim (devType s))) None
              (or_undefined (trim (devRegion s)))]"
proof -
  obtain a b where v: "v = El ''div'' [Cls ''root''] ([a, b] @ add_device_modal s)"
    using assms(1,2) unfolding project_elements_def page_ready_def and_then_def
    by (auto split: sum.splits)
  show ?thesis
    using assms(3-6)
    by (simp add: v add_device_modal_def Modal_def is_disabled_def handleAddDevice_def truthy_str_def)
qed

theorem enter_submits_again_witness:
  "\<exists>v. project_elements demo_engine True [] (demo_page\<lparr>showAdd := True, adding := True, devName := ''x''\<rparr>) = Inr v \<and>
       bubble ''enter'' v [2, 0, 1, 0, 1] = ([SubmitDevice], True)"
proof -
  let ?s = "demo_page\<lparr>showAdd := True, adding := True, devName := ''x''\<rparr>"
  have ready: "page_ready ?s"
    by (simp add: page_ready_def demo_page_state)
  then obtain v where view: "project_elements demo_engine True [] ?s = Inr v"
    by (simp add: project_elements_def page_ready_def demo_page_state data_tab_def)
  have "trim ''x'' \<noteq> []"
    by (simp add: trim_def js_space_def)
  then show ?thesis
    using enter_submits_again [OF ready view] view by (simp add: demo_page_state)
qed

end
