(* ===== verification/HomePage.thy ===== *)
theory HomePage
  imports ProjectView
begin

section \<open>The project list (server/dashboard/src/pages/Home)\<close>

text \<open>
  The list of projects with their devices counted, filtered for operators who are not
  administrators, and the dialog that creates a project.  \<open>load\<close> sends one request for the list
  and then one per project, which it awaits together; \<open>list_settled\<close> and \<open>count_settled\<close> are the
  rest of it after either, given how the requests ended.  An answer's missing \<open>projects\<close> or
  \<open>devices\<close> is \<open>None\<close>.  A promise in flight keeps what its continuation has captured: whether
  \<open>handleCreate\<close> awaits it, the vehicle set of the render whose handler sent it, the list.
\<close>

record listed_project = project +
  deviceCount :: nat
  p_devices :: "vehicle list"

datatype home_promise =
    HomeLoading bool json
  | HomeCounting bool json "project list"
  | Creating json

record home_page =
  projects :: "listed_project list"
  home_loading :: bool
  showCreate :: bool
  newName :: string
  newDisplayName :: string
  creating :: bool
  createError :: string
  home_requests :: "request list"
  home_pending :: "home_promise list"
  home_navigated :: "string list"

text \<open>\<open>claims?.vehicle_set ?? []\<close>, read at each render and captured by the handlers of that render.\<close>

definition vehicleSet :: "auth_state \<Rightarrow> json" where
  "vehicleSet s = nullish (map_option claim_vehicle_set (auth_claims s)) (JArr [])"

text \<open>What the selector returns: the claims' set, or a new empty array at every call.\<close>

definition vehicleSet_selection :: "auth_state \<Rightarrow> json selection" where
  "vehicleSet_selection s =
     (case map_option claim_vehicle_set (auth_claims s) of
        None \<Rightarrow> Fresh (JArr [])
      | Some v \<Rightarrow> if v = JNull then Fresh (JArr []) else Kept v)"

text \<open>What \<open>new Set(v)\<close> iterates over; a value that is not iterable raises.\<close>

definition iterate :: "json \<Rightarrow> js_error + json list" where
  "iterate v =
     (case v of
        JArr vs \<Rightarrow> Inr vs
      | JStr s \<Rightarrow> Inr (map (\<lambda>ch. JStr [ch]) s)
      | JNull \<Rightarrow> Inr []
      | _ \<Rightarrow> Inl TypeError)"

definition with_count :: "project \<Rightarrow> js_error + vehicle list option \<Rightarrow> listed_project" where
  "with_count p r =
     (let ds = (case r of Inl e \<Rightarrow> [] | Inr None \<Rightarrow> [] | Inr (Some ds) \<Rightarrow> ds)
      in project.extend p \<lparr>deviceCount = length ds, p_devices = ds\<rparr>)"

definition home_load :: "bool \<Rightarrow> json \<Rightarrow> home_page \<Rightarrow> home_page" where
  "home_load after_create vset s =
     s\<lparr>home_requests := home_requests s @ [listProjects],
       home_pending := home_pending s @ [HomeLoading after_create vset]\<rparr>"

text \<open>The projects an operator may see; \<open>admin\<close> is \<open>isAdmin()\<close> when the requests have settled.\<close>

definition visible_projects ::
  "bool \<Rightarrow> json \<Rightarrow> listed_project list \<Rightarrow> js_error + listed_project list" where
  "visible_projects admin vset withCounts =
     (if admin then Inr withCounts
      else and_then (iterate vset) (\<lambda>vs. Inr
        (filter (\<lambda>p. list_ex (\<lambda>d. JStr (v_id d) \<in> set vs) (p_devices p)) withCounts)))"

text \<open>The two \<open>finally\<close> blocks: of \<open>load\<close>, and of the \<open>handleCreate\<close> that awaits it.\<close>

definition load_finally :: "bool \<Rightarrow> home_page \<Rightarrow> home_page" where
  "load_finally after_create s =
     (let s1 = s\<lparr>home_loading := False\<rparr> in if after_create then s1\<lparr>creating := False\<rparr> else s1)"

definition list_settled ::
  "js_error + project list option \<Rightarrow> bool \<Rightarrow> json \<Rightarrow> home_page \<Rightarrow> home_page" where
  "list_settled r after_create vset s =
     (case r of
        Inr (Some pList) \<Rightarrow>
          s\<lparr>home_requests := home_requests s @ map (\<lambda>p. listProjectDevices (p_name p)) pList,
            home_pending := home_pending s @ [HomeCounting after_create vset pList]\<rparr>
      | _ \<Rightarrow> load_finally after_create s)"

text \<open>One answer per project, in the order of the list.\<close>

definition count_settled ::
  "bool \<Rightarrow> (js_error + vehicle list option) list \<Rightarrow> bool \<Rightarrow> json \<Rightarrow> project list \<Rightarrow> home_page \<Rightarrow> home_page"
where
  "count_settled admin rs after_create vset pList s =
     load_finally after_create
       (case visible_projects admin vset (map2 with_count pList rs) of
          Inl e \<Rightarrow> s
        | Inr ps \<Rightarrow> s\<lparr>projects := ps\<rparr>)"

definition handleCreate :: "json \<Rightarrow> home_page \<Rightarrow> home_page" where
  "handleCreate vset s =
     (if trim (newName s) = [] then s
      else s\<lparr>creating := True, createError := [],
             home_requests := home_requests s @
               [createProject (trim (newName s))
                  (Some (if trim (newDisplayName s) \<noteq> [] then trim (newDisplayName s) else trim (newName s)))],
             home_pending := home_pending s @ [Creating vset]\<rparr>)"

text \<open>A rejection carries the message of its \<open>Error\<close>, or nothing if it is no \<open>Error\<close>.\<close>

definition create_settled :: "string option + unit \<Rightarrow> json \<Rightarrow> home_page \<Rightarrow> home_page" where
  "create_settled r vset s =
     (case r of
        Inl msg \<Rightarrow> s\<lparr>createError := (case msg of Some m \<Rightarrow> m | None \<Rightarrow> ''Failed to create project''),
                    creating := False\<rparr>
      | Inr _ \<Rightarrow> home_load True vset (s\<lparr>showCreate := False, newName := [], newDisplayName := []\<rparr>))"

definition home_mount :: "auth_state \<Rightarrow> home_page" where
  "home_mount auth =
     home_load False (vehicleSet auth)
       \<lparr>projects = [], home_loading = True, showCreate = False, newName = [], newDisplayName = [],
        creating = False, createError = [], home_requests = [], home_pending = [], home_navigated = []\<rparr>"

datatype home_action =
    OpenCreate
  | DismissCreate
  | CancelCreate
  | TypeNewName string
  | TypeDisplayName string
  | SubmitProject
  | OpenProject string

text \<open>\<open>auth\<close> is the session at the render whose handler runs.\<close>

fun home_dispatch :: "auth_state \<Rightarrow> home_action \<Rightarrow> home_page \<Rightarrow> home_page" where
  "home_dispatch auth OpenCreate s = s\<lparr>showCreate := True\<rparr>"
| "home_dispatch auth DismissCreate s = s\<lparr>showCreate := False, createError := []\<rparr>"
| "home_dispatch auth CancelCreate s = s\<lparr>showCreate := False\<rparr>"
| "home_dispatch auth (TypeNewName t) s = s\<lparr>newName := t\<rparr>"
| "home_dispatch auth (TypeDisplayName t) s = s\<lparr>newDisplayName := t\<rparr>"
| "home_dispatch auth SubmitProject s = handleCreate (vehicleSet auth) s"
| "home_dispatch auth (OpenProject name) s = s\<lparr>home_navigated := home_navigated s @ [''/projects/'' @ name]\<rparr>"

text \<open>
  How a promise can end, and what then runs.  An answer of another kind than the promise's does
  not occur (\<open>home_answers\<close>).
\<close>

datatype home_answer =
    Listed "js_error + project list option"
  | Counted "(js_error + vehicle list option) list"
  | Created "string option + unit"

fun home_answers :: "home_promise \<Rightarrow> home_answer \<Rightarrow> bool" where
  "home_answers (HomeLoading b v) (Listed r) = True"
| "home_answers (HomeCounting b v ps) (Counted rs) = (length rs = length ps)"
| "home_answers (Creating v) (Created r) = True"
| "home_answers p r = False"

text \<open>\<open>auth\<close> is the session when the promise settles; \<open>isAdmin()\<close> reads it then.\<close>

fun home_settled :: "home_promise \<Rightarrow> auth_state \<times> home_answer \<Rightarrow> home_page \<Rightarrow> home_page" where
  "home_settled (HomeLoading b v) (auth, Listed r) s = list_settled r b v s"
| "home_settled (HomeCounting b v ps) (auth, Counted rs) s = count_settled (isAdmin auth) rs b v ps s"
| "home_settled (Creating v) (auth, Created r) s = create_settled r v s"
| "home_settled p r s = s"

datatype home_event = HomeAct auth_state home_action | HomeSettle nat auth_state home_answer

inductive home_step :: "home_page \<Rightarrow> home_event \<Rightarrow> home_page \<Rightarrow> bool" where
  home_act: "home_step s (HomeAct auth a) (home_dispatch auth a s)"
| home_settle: "i < length (home_pending s) \<Longrightarrow> home_answers (home_pending s ! i) r \<Longrightarrow>
    home_step s (HomeSettle i auth r)
      (home_settled (home_pending s ! i) (auth, r) (s\<lparr>home_pending := remove_nth i (home_pending s)\<rparr>))"

text \<open>The step relation runs: from a state and an event it computes the next state.\<close>

code_pred (modes: i \<Rightarrow> i \<Rightarrow> o \<Rightarrow> bool) home_step .

inductive_simps home_step_act [simp]: "home_step s (HomeAct auth a) s'"
inductive_simps home_step_settle: "home_step s (HomeSettle i auth r) s'"

subsection \<open>What the page renders\<close>

definition project_card :: "engine \<Rightarrow> listed_project \<Rightarrow> home_action node" where
  "project_card eng p =
     El ''div'' [Cls ''card'', On ''click'' (OpenProject (p_name p))]
       [El ''div'' [Cls ''cardName'']
          [Txt (if p_display_name p \<noteq> [] then p_display_name p else p_name p)],
        El ''div'' [Cls ''cardMeta'']
          [El ''span'' [] [Txt (number_string (rat_of_nat (deviceCount p))), Txt '' device'',
                           Txt (if deviceCount p \<noteq> 1 then ''s'' else [])],
           El ''span'' [] [Txt (date_string eng (p_created_at p))]]]"

definition create_modal :: "home_page \<Rightarrow> home_action node list" where
  "create_modal s =
     Modal (showCreate s) DismissCreate ''Create Project''
       (show_if (createError s \<noteq> []) [El ''div'' [Cls ''error''] [Txt (createError s)]] @
        [El ''div'' [Cls ''formRow'']
           [El ''label'' [] [Txt ''Project Name (slug)''],
            El ''input'' [Attr ''placeholder'' ''my-fleet'', Value (newName s), OnInput TypeNewName,
                          On ''enter'' SubmitProject] []],
         El ''div'' [Cls ''formRow'']
           [El ''label'' [] [Txt ''Display Name (optional)''],
            El ''input'' [Attr ''placeholder'' ''My Fleet'', Value (newDisplayName s),
                          OnInput TypeDisplayName, On ''enter'' SubmitProject] []],
         El ''div'' [Cls ''formActions'']
           [El ''button'' [On ''click'' CancelCreate] [Txt ''Cancel''],
            El ''button'' [Cls ''primary'', On ''click'' SubmitProject,
                           Disabled (creating s \<or> trim (newName s) = [])]
              [Txt (if creating s then ''Creating...'' else ''Create'')]]])"

definition HomePage_view :: "engine \<Rightarrow> bool \<Rightarrow> home_page \<Rightarrow> home_action node" where
  "HomePage_view eng admin s =
     (if home_loading s then spinner_view
      else El ''div'' [Cls ''root'']
        ([El ''div'' [Cls ''header'']
            (El ''h2'' [] [Txt ''Projects''] #
             show_if admin [El ''button'' [Cls ''primary'', On ''click'' OpenCreate] [Txt ''+ New Project'']]),
          (if length (projects s) = 0 then
             El ''div'' [Cls ''empty'']
               [Txt (if admin then ''No projects yet. Create your first project to get started.''
                     else ''No projects assigned to your account.'')]
           else El ''div'' [Cls ''grid''] (map (project_card eng) (projects s)))]
         @ create_modal s))"

text \<open>The page as mounted, with the hook that handles its selection of the vehicle set.\<close>

definition HomePage_mounted :: "store_hook \<Rightarrow> engine \<Rightarrow> auth_state \<Rightarrow> home_page \<Rightarrow> js_error + home_action node" where
  "HomePage_mounted hook eng auth s =
     and_then (useStore hook (vehicleSet_selection auth)) (\<lambda>_. Inr (HomePage_view eng (isAdmin auth) s))"

lemma HomePage_mounted_Inr: "HomePage_mounted hook eng auth s = Inr v \<Longrightarrow> v = HomePage_view eng (isAdmin auth) s"
  by (auto simp: HomePage_mounted_def and_then_Inr)

lemma vehicleSet_selected: "useStore hook (vehicleSet_selection s) = Inr v \<Longrightarrow> v = vehicleSet s"
  by (auto simp: vehicleSet_selection_def vehicleSet_def useStore_def nullish_cases
      split: option.splits if_splits)

subsection \<open>Properties\<close>

lemma with_count_simps [simp]:
  "p_name (with_count p r) = p_name p" "deviceCount (with_count p r) = length (p_devices (with_count p r))"
  "p_devices (with_count p (Inr (Some ds))) = ds" "p_devices (with_count p (Inr None)) = []"
  "p_devices (with_count p (Inl e)) = []"
  by (simp_all add: with_count_def project.defs Let_def)

text \<open>The names of the cards of the page, in order.\<close>

definition opened_by :: "home_action node \<Rightarrow> string list" where
  "opened_by v = List.map_filter (\<lambda>a. case a of OpenProject n \<Rightarrow> Some n | _ \<Rightarrow> None) (actions v)"

lemma cards_open:
  "List.map_filter (\<lambda>a. case a of OpenProject n \<Rightarrow> Some n | _ \<Rightarrow> None)
     (concat (map (actions \<circ> project_card eng) ps)) = map p_name ps"
  by (induction ps) (simp_all add: project_card_def is_disabled_def)

lemma modal_opens_nothing:
  "List.map_filter (\<lambda>a. case a of OpenProject n \<Rightarrow> Some n | _ \<Rightarrow> None)
     (concat (map actions (create_modal s))) = []"
  by (simp add: create_modal_def Modal_def is_disabled_def show_if_def)

lemma HomePage_opens:
  "\<not> home_loading s \<Longrightarrow> opened_by (HomePage_view eng admin s) = map p_name (projects s)"
  using cards_open [of eng "projects s"] modal_opens_nothing [of s]
  by (cases "projects s")
    (simp_all add: HomePage_view_def opened_by_def is_disabled_def show_if_def)

text \<open>
  C33: when the list has loaded an administrator can open every project, and any other operator
  exactly the projects with a device named in the vehicle set of the claims, in the list's
  order; a project whose devices could not be listed counts none and shows for administrators
  only.
\<close>

theorem home_shows_assigned_projects:
  assumes "vset = JArr vs" and "i < length (home_pending s)" and "home_pending s ! i = HomeCounting b vset ps"
    and "home_step s (HomeSettle i auth (Counted rs)) s'"
  shows "\<not> home_loading s' \<and>
         opened_by (HomePage_view eng (isAdmin auth) s') =
           map (p_name \<circ> fst) (filter (\<lambda>(p, r). isAdmin auth \<or>
              (\<exists>ds d. r = Inr (Some ds) \<and> d \<in> set ds \<and> JStr (v_id d) \<in> set vs)) (zip ps rs))"
proof -
  let ?mine = "\<lambda>p. isAdmin auth \<or> list_ex (\<lambda>d. JStr (v_id d) \<in> set vs) (p_devices p)"
  have s': "s' = count_settled (isAdmin auth) rs b (JArr vs) ps (s\<lparr>home_pending := remove_nth i (home_pending s)\<rparr>)"
    using assms by (simp add: home_step_settle)
  have loaded: "\<not> home_loading s'" "projects s' = filter ?mine (map2 with_count ps rs)"
    unfolding s' by (simp_all add: count_settled_def load_finally_def visible_projects_def iterate_def Let_def)
  have mine: "?mine (with_count p r)
      = (isAdmin auth \<or> (\<exists>ds d. r = Inr (Some ds) \<and> d \<in> set ds \<and> JStr (v_id d) \<in> set vs))" for p r
    by (cases r; cases "projr r") (auto simp: list_ex_iff)
  have "map p_name (filter ?mine (map2 with_count ps rs))
      = map (p_name \<circ> fst) (filter (\<lambda>(p, r). ?mine (with_count p r)) (zip ps rs))"
    by (simp add: filter_map comp_def case_prod_unfold)
  then show ?thesis
    unfolding HomePage_opens [OF loaded(1)] loaded(2) mine using loaded(1) by blast
qed

definition sample_project :: "string \<Rightarrow> project" where
  "sample_project n = \<lparr>p_id = n, p_org_id = ''o'', p_name = n, p_display_name = [], p_created_at = [],
     p_active = True\<rparr>"

definition limited_user :: oidc_user where
  "limited_user = (sample_user ''viewer'')\<lparr>profile :=
     [(''role'', JStr ''viewer''), (''vehicle_set'', JArr [JStr ''v1''])]\<rparr>"

definition limited_session :: auth_state where
  "limited_session = auth_step auth_init (UserLoaded limited_user)"

lemma limited_session_claims: "vehicleSet limited_session = JArr [JStr ''v1'']" "isAdmin limited_session = False"
  by (simp_all add: vehicleSet_def isAdmin_def is_string_def auth_ops parseClaims_def Let_def limited_user_def
      limited_session_def)

lemma two_projects_listed:
  "home_step (home_mount limited_session)
     (HomeSettle 0 limited_session (Listed (Inr (Some [sample_project ''a'', sample_project ''b'']))))
     (list_settled (Inr (Some [sample_project ''a'', sample_project ''b''])) False (JArr [JStr ''v1''])
        ((home_mount limited_session)\<lparr>home_pending := []\<rparr>))"
  by (simp add: home_step_settle home_mount_def home_load_def limited_session_claims)

theorem home_shows_assigned_projects_witness:
  "\<exists>s s'. runs home_step (home_mount limited_session)
       [HomeSettle 0 limited_session (Listed (Inr (Some [sample_project ''a'', sample_project ''b'']))),
        HomeSettle 0 limited_session (Counted [Inr (Some [sample_vehicle ''v1'']), Inr (Some [sample_vehicle ''v2''])])] s' \<and>
     opened_by (HomePage_view demo_engine False s') = [''a'']"
proof -
  let ?ps = "[sample_project ''a'', sample_project ''b'']"
  let ?rs = "[Inr (Some [sample_vehicle ''v1'']), Inr (Some [sample_vehicle ''v2''])] :: (js_error + vehicle list option) list"
  let ?s = "list_settled (Inr (Some ?ps)) False (JArr [JStr ''v1'']) ((home_mount limited_session)\<lparr>home_pending := []\<rparr>)"
  have at: "0 < length (home_pending ?s)" "home_pending ?s ! 0 = HomeCounting False (JArr [JStr ''v1'']) ?ps"
    by (simp_all add: list_settled_def)
  obtain s' where step: "home_step ?s (HomeSettle 0 limited_session (Counted ?rs)) s'"
    using at by (simp add: home_step_settle)
  have "opened_by (HomePage_view demo_engine False s') = [''a'']"
    using home_shows_assigned_projects [OF refl at step, of demo_engine]
    by (simp add: limited_session_claims sample_project_def sample_vehicle_def)
  then show ?thesis
    using two_projects_listed step by (auto simp: runs_Cons_iff)
qed

subsection \<open>Waiting for promises\<close>

datatype home_flag = ListSpinning | CreatingProject

fun home_waiting :: "home_flag \<Rightarrow> home_page \<Rightarrow> bool" where
  "home_waiting ListSpinning s = home_loading s"
| "home_waiting CreatingProject s = creating s"

fun home_serves :: "home_promise \<Rightarrow> home_flag \<Rightarrow> nat option" where
  "home_serves (HomeLoading b v) f = (if f = ListSpinning \<or> b then Some 1 else None)"
| "home_serves (HomeCounting b v ps) f = (if f = ListSpinning \<or> b then Some 0 else None)"
| "home_serves (Creating v) f = (if f = CreatingProject then Some 2 else None)"

fun home_settling :: "home_event \<Rightarrow> (nat \<times> auth_state \<times> home_answer) option" where
  "home_settling (HomeSettle i auth r) = Some (i, auth, r)"
| "home_settling (HomeAct auth a) = None"

lemmas home_continuations = list_settled_def count_settled_def create_settled_def load_finally_def home_load_def

lemma home_settled_promises:
  "set (home_pending s) \<subseteq> set (home_pending (home_settled p r s))"
  "home_waiting w (home_settled p r s) \<Longrightarrow> home_waiting w s"
  by (cases "(p, r, s)" rule: home_settled.cases; cases w;
      auto simp: home_continuations Let_def split: sum.splits option.splits if_splits)+

lemma home_settled_serves:
  assumes "home_answers p (snd r)" and "home_serves p w = Some n" and "home_waiting w (home_settled p r s)"
  shows "\<exists>q \<in> set (home_pending (home_settled p r s)). \<exists>m < n. home_serves q w = Some m"
  using assms
  by (cases "(p, r, s)" rule: home_settled.cases; cases w)
    (auto simp: home_continuations Let_def split: sum.splits option.splits if_splits)

lemma home_other:
  "set (home_pending s) \<subseteq> set (home_pending (home_dispatch auth a s)) \<and>
   (home_waiting w (home_dispatch auth a s) \<longrightarrow>
      home_waiting w s \<or> (\<exists>p \<in> set (home_pending (home_dispatch auth a s)). home_serves p w \<noteq> None))"
  by (cases a; cases w) (auto simp: handleCreate_def)

interpretation home: promise_page home_step home_settling home_pending
    "\<lambda>i s. s\<lparr>home_pending := remove_nth i (home_pending s)\<rparr>" "\<lambda>p r. home_answers p (snd r)" home_settled
    "\<lambda>s. True" home_waiting home_serves
proof unfold_locales
  show "\<exists>e. home_settling e = Some (i, r)" for i r
    by (rule exI [of _ "HomeSettle i (fst r) (snd r)"]) simp
  show "\<exists>r :: auth_state \<times> home_answer. home_answers p (snd r)" for p
  proof (cases p)
    case (HomeCounting b v ps)
    then show ?thesis by (intro exI [of _ "(auth_init, Counted (map (\<lambda>p. Inr None) ps))"]) simp
  next
    case (HomeLoading b v)
    then show ?thesis by (intro exI [of _ "(auth_init, Listed (Inr None))"]) simp
  next
    case (Creating v)
    then show ?thesis by (intro exI [of _ "(auth_init, Created (Inr ()))"]) simp
  qed
  show "home_step s e s' \<longleftrightarrow> i < length (home_pending s) \<and> home_answers (home_pending s ! i) (snd r) \<and>
      s' = home_settled (home_pending s ! i) r (s\<lparr>home_pending := remove_nth i (home_pending s)\<rparr>)"
    if "home_settling e = Some (i, r)" for s e s' i r
    using that by (cases e) (auto simp: home_step_settle)
  show "home_waiting w (s\<lparr>home_pending := remove_nth i (home_pending s)\<rparr>) = home_waiting w s" for w s i
    by (cases w) simp_all
  show "set (home_pending s) \<subseteq> set (home_pending s')" if "home_settling e = None" "home_step s e s'" for s e s'
    using that home_other by (cases e) auto
  show "home_waiting w s \<or> (\<exists>p \<in> set (home_pending s'). home_serves p w \<noteq> None)"
    if "home_settling e = None" "home_step s e s'" "home_waiting w s'" for s e s' w
    using that home_other by (cases e) auto
qed (use home_settled_promises home_settled_serves in simp_all)

text \<open>
  The project list never waits forever: from the first render on, whatever the operator does
  and in whatever order requests end, the spinner is gone after at most two more settlings and
  the disabled Create button is back after at most three, and with no request in flight
  neither is waiting.
\<close>

theorem home_waiting_ends:
  assumes "runs home_step (home_mount auth) es s"
  shows "down_within 2 (settles home_settling home_step) home_loading s \<and>
         down_within 3 (settles home_settling home_step) creating s \<and>
         (home_pending s = [] \<longrightarrow> \<not> home_loading s \<and> \<not> creating s)"
proof -
  have "home.served (home_mount auth)"
    unfolding home.served_def home_mount_def home_load_def
    by (auto elim: home_waiting.elims)
  then have served: "home.served s"
    using assms home.served_runs by blast
  have flags: "home_waiting ListSpinning = home_loading" "home_waiting CreatingProject = creating"
    by (rule ext, simp)+
  have "home_serves p ListSpinning = Some m \<Longrightarrow> m < 2" "home_serves p CreatingProject = Some m \<Longrightarrow> m < 3" for p m
    by (cases p; simp split: if_splits)+
  then show ?thesis
    using home.served_clears [OF served] home.nothing_left [OF served] flags by metis
qed

theorem home_waiting_ends_witness:
  "down_within 2 (settles home_settling home_step) home_loading (home_mount auth_init) \<and> home_loading (home_mount auth_init)"
  using home_waiting_ends [OF runs_Nil, of auth_init] by (simp add: home_mount_def home_load_def)

end
