(* ===== verification/TeamPage.thy ===== *)
theory TeamPage
  imports HomePage
begin

section \<open>The team page (server/dashboard/src/pages/Team)\<close>

text \<open>
  The members of the organisation, the dialogs that invite a member and edit a member's
  access, and the device picker both share.  As on the other pages a request's end is an
  argument: \<open>lists_settled\<close> and \<open>team_counted\<close> are the rest of \<open>loadAll\<close> after its first two
  requests, which it awaits together, and after the requests for the devices of each project.
  Selected devices are a \<open>Set\<close>, a list in insertion order.  A promise in flight keeps which
  handler awaits it.
\<close>

datatype awaited_by = Nobody | InviteHandler | SaveHandler

datatype team_promise =
    TeamLoading awaited_by
  | TeamCounting awaited_by "project list"
  | Inviting
  | Saving
  | Removing

record team_page =
  members :: "org_member list"
  team_loading :: bool
  projectDevices :: "(project \<times> vehicle list) list"
  showInvite :: bool
  invEmail :: string
  invRole :: string
  invDevices :: "string list"
  inviting :: bool
  editMember :: "org_member option"
  editRole :: string
  editDevices :: "string list"
  saving :: bool
  team_requests :: "request list"
  team_pending :: "team_promise list"

definition loadAll :: "awaited_by \<Rightarrow> team_page \<Rightarrow> team_page" where
  "loadAll by_whom s =
     s\<lparr>team_requests := team_requests s @ [listMembers, listProjects],
       team_pending := team_pending s @ [TeamLoading by_whom]\<rparr>"

text \<open>The \<open>finally\<close> of \<open>loadAll\<close> and then that of the handler that awaits it.\<close>

definition loadAll_finally :: "awaited_by \<Rightarrow> team_page \<Rightarrow> team_page" where
  "loadAll_finally by_whom s =
     (let s1 = s\<lparr>team_loading := False\<rparr>
      in case by_whom of
           Nobody \<Rightarrow> s1
         | InviteHandler \<Rightarrow> s1\<lparr>inviting := False\<rparr>
         | SaveHandler \<Rightarrow> s1\<lparr>saving := False\<rparr>)"

definition lists_settled ::
  "js_error + org_member list option \<times> project list option \<Rightarrow> awaited_by \<Rightarrow> team_page \<Rightarrow> team_page" where
  "lists_settled r by_whom s =
     (case r of
        Inl e \<Rightarrow> loadAll_finally by_whom s
      | Inr (ms, ps) \<Rightarrow>
          (let pList = (case ps of None \<Rightarrow> [] | Some xs \<Rightarrow> xs)
           in s\<lparr>members := (case ms of None \<Rightarrow> [] | Some xs \<Rightarrow> xs),
                team_requests := team_requests s @ map (\<lambda>p. listProjectDevices (p_name p)) pList,
                team_pending := team_pending s @ [TeamCounting by_whom pList]\<rparr>))"

text \<open>Each project's devices, or none on an error; one answer per project.\<close>

definition devices_or_none :: "js_error + vehicle list option \<Rightarrow> vehicle list" where
  "devices_or_none r = (case r of Inr (Some ds) \<Rightarrow> ds | _ \<Rightarrow> [])"

definition team_counted ::
  "(js_error + vehicle list option) list \<Rightarrow> awaited_by \<Rightarrow> project list \<Rightarrow> team_page \<Rightarrow> team_page" where
  "team_counted rs by_whom pList s =
     loadAll_finally by_whom (s\<lparr>projectDevices := zip pList (map devices_or_none rs)\<rparr>)"

definition allDevices :: "team_page \<Rightarrow> vehicle list" where
  "allDevices s = concat (map snd (projectDevices s))"

definition teamNameMap :: "team_page \<Rightarrow> string \<rightharpoonup> string" where
  "teamNameMap s = new_Map (map (\<lambda>d. (v_id d, v_display_name d)) (allDevices s))"

definition toggleDevice :: "string list \<Rightarrow> string \<Rightarrow> string list" where
  "toggleDevice sel i =
     (let nxt = new_Set sel in if i \<in> set nxt then set_delete i nxt else set_add i nxt)"

definition handleInvite :: "team_page \<Rightarrow> team_page" where
  "handleInvite s =
     (if trim (invEmail s) = [] then s
      else s\<lparr>inviting := True,
             team_requests := team_requests s @ 
               [inviteMember \<lparr>im_email = trim (invEmail s), im_role = invRole s, im_device_ids = invDevices s\<rparr>],
             team_pending := team_pending s @ [Inviting]\<rparr>)"

definition invite_settled :: "js_error + unit \<Rightarrow> team_page \<Rightarrow> team_page" where
  "invite_settled r s =
     (case r of
        Inl e \<Rightarrow> s\<lparr>inviting := False\<rparr>
      | Inr _ \<Rightarrow> loadAll InviteHandler
          (s\<lparr>showInvite := False, invEmail := [], invRole := ''viewer'', invDevices := []\<rparr>))"

definition openEdit :: "org_member \<Rightarrow> team_page \<Rightarrow> team_page" where
  "openEdit m s =
     s\<lparr>editMember := Some m, editRole := m_role m,
       editDevices := new_Set (case m_device_ids m of None \<Rightarrow> [] | Some ds \<Rightarrow> ds)\<rparr>"

definition handleSaveEdit :: "team_page \<Rightarrow> team_page" where
  "handleSaveEdit s =
     (case editMember s of
        None \<Rightarrow> s
      | Some m \<Rightarrow>
          s\<lparr>saving := True,
            team_requests := team_requests s @ 
              [updateMemberAccess (m_id m) \<lparr>ua_role = editRole s, ua_device_ids = editDevices s\<rparr>],
            team_pending := team_pending s @ [Saving]\<rparr>)"

definition save_settled :: "js_error + unit \<Rightarrow> team_page \<Rightarrow> team_page" where
  "save_settled r s =
     (case r of
        Inl e \<Rightarrow> s\<lparr>saving := False\<rparr>
      | Inr _ \<Rightarrow> loadAll SaveHandler (s\<lparr>editMember := None\<rparr>))"

text \<open>\<open>confirmed\<close> is the operator's answer to the confirmation dialog.\<close>

definition handleRemove :: "bool \<Rightarrow> string \<Rightarrow> team_page \<Rightarrow> team_page" where
  "handleRemove confirmed i s =
     (if \<not> confirmed then s
      else s\<lparr>team_requests := team_requests s @ [removeMember i],
             team_pending := team_pending s @ [Removing]\<rparr>)"

definition remove_settled :: "js_error + unit \<Rightarrow> team_page \<Rightarrow> team_page" where
  "remove_settled r s = (case r of Inl e \<Rightarrow> s | Inr _ \<Rightarrow> loadAll Nobody s)"

definition team_mount :: team_page where
  "team_mount =
     loadAll Nobody
       \<lparr>members = [], team_loading = True, projectDevices = [], showInvite = False, invEmail = [],
        invRole = ''viewer'', invDevices = [], inviting = False, editMember = None, editRole = [],
        editDevices = [], saving = False, team_requests = [], team_pending = []\<rparr>"

datatype team_action =
    OpenInvite
  | CloseInvite
  | TypeEmail string
  | PickInviteRole string
  | ToggleInvite string
  | SubmitInvite
  | EditMember org_member
  | CloseEdit
  | PickEditRole string
  | ToggleEdit string
  | SaveEdit
  | RemoveMember string

fun team_dispatch :: "bool \<Rightarrow> team_action \<Rightarrow> team_page \<Rightarrow> team_page" where
  "team_dispatch confirmed OpenInvite s = s\<lparr>showInvite := True\<rparr>"
| "team_dispatch confirmed CloseInvite s = s\<lparr>showInvite := False\<rparr>"
| "team_dispatch confirmed (TypeEmail t) s = s\<lparr>invEmail := t\<rparr>"
| "team_dispatch confirmed (PickInviteRole r) s = s\<lparr>invRole := r\<rparr>"
| "team_dispatch confirmed (ToggleInvite i) s = s\<lparr>invDevices := toggleDevice (invDevices s) i\<rparr>"
| "team_dispatch confirmed SubmitInvite s = handleInvite s"
| "team_dispatch confirmed (EditMember m) s = openEdit m s"
| "team_dispatch confirmed CloseEdit s = s\<lparr>editMember := None\<rparr>"
| "team_dispatch confirmed (PickEditRole r) s = s\<lparr>editRole := r\<rparr>"
| "team_dispatch confirmed (ToggleEdit i) s = s\<lparr>editDevices := toggleDevice (editDevices s) i\<rparr>"
| "team_dispatch confirmed SaveEdit s = handleSaveEdit s"
| "team_dispatch confirmed (RemoveMember i) s = handleRemove confirmed i s"

text \<open>
  How a promise can end, and what then runs; an answer of another kind than the promise's does
  not occur (\<open>team_answers\<close>).
\<close>

datatype team_answer =
    TeamListed "js_error + org_member list option \<times> project list option"
  | TeamCounted "(js_error + vehicle list option) list"
  | TeamDone "js_error + unit"

fun team_answers :: "team_promise \<Rightarrow> team_answer \<Rightarrow> bool" where
  "team_answers (TeamLoading b) (TeamListed r) = True"
| "team_answers (TeamCounting b ps) (TeamCounted rs) = (length rs = length ps)"
| "team_answers Inviting (TeamDone r) = True"
| "team_answers Saving (TeamDone r) = True"
| "team_answers Removing (TeamDone r) = True"
| "team_answers p r = False"

fun team_settled :: "team_promise \<Rightarrow> team_answer \<Rightarrow> team_page \<Rightarrow> team_page" where
  "team_settled (TeamLoading b) (TeamListed r) s = lists_settled r b s"
| "team_settled (TeamCounting b ps) (TeamCounted rs) s = team_counted rs b ps s"
| "team_settled Inviting (TeamDone r) s = invite_settled r s"
| "team_settled Saving (TeamDone r) s = save_settled r s"
| "team_settled Removing (TeamDone r) s = remove_settled r s"
| "team_settled p r s = s"

datatype team_event = TeamAct bool team_action | TeamSettle nat team_answer

inductive team_step :: "team_page \<Rightarrow> team_event \<Rightarrow> team_page \<Rightarrow> bool" where
  team_act: "team_step s (TeamAct confirmed a) (team_dispatch confirmed a s)"
| team_settle: "i < length (team_pending s) \<Longrightarrow> team_answers (team_pending s ! i) r \<Longrightarrow>
    team_step s (TeamSettle i r)
      (team_settled (team_pending s ! i) r (s\<lparr>team_pending := remove_nth i (team_pending s)\<rparr>))"

text \<open>The step relation runs: from a state and an event it computes the next state.\<close>

code_pred (modes: i \<Rightarrow> i \<Rightarrow> o \<Rightarrow> bool) team_step .

inductive_simps team_step_act [simp]: "team_step s (TeamAct confirmed a) s'"
inductive_simps team_step_settle: "team_step s (TeamSettle i r) s'"

subsection \<open>What the page renders\<close>

definition initials :: "string \<Rightarrow> string" where
  "initials email = toUpperCase (take 2 (hd (split_at CHR ''@'' email)))"

definition DevicePicker ::
  "(project \<times> vehicle list) list \<Rightarrow> string list \<Rightarrow> (string \<Rightarrow> team_action) \<Rightarrow> team_action node" where
  "DevicePicker pds selected onToggle =
     El ''div'' [Cls ''devicePicker'']
       (if length pds = 0 then [El ''div'' [] [Txt ''No devices available.'']]
        else map (\<lambda>(p, ds). El ''div'' []
               (El ''div'' [Cls ''projectGroup'']
                  [Txt (if p_display_name p \<noteq> [] then p_display_name p else p_name p)] #
                map (\<lambda>d. El ''label'' [Cls ''deviceCheck'']
                       [El ''input'' [Attr ''type'' ''checkbox'', Checked (v_id d \<in> set selected),
                                      On ''change'' (onToggle (v_id d))] [],
                        Txt (v_display_name d)]) ds)) pds)"

definition role_badge :: "string \<Rightarrow> string" where
  "role_badge r = (if r = ''admin'' then ''red'' else if r = ''operator'' then ''amber'' else ''blue'')"

definition shown_role :: "org_member \<Rightarrow> string" where
  "shown_role m = (if m_role m \<noteq> [] then m_role m else ''viewer'')"

definition member_row :: "(string \<rightharpoonup> string) \<Rightarrow> org_member \<Rightarrow> team_action node" where
  "member_row names m =
     El ''div'' [Cls ''memberRow'']
       [El ''div'' [Cls ''avatar''] [Txt (initials (m_email m))],
        El ''div'' [Cls ''memberInfo'']
          (El ''div'' [Cls ''memberEmail''] [Txt (m_email m)] #
           show_if (m_name m \<noteq> [] \<and> trim (m_name m) \<noteq> []) [El ''div'' [Cls ''memberName''] [Txt (m_name m)]] @
           (case m_device_ids m of
              None \<Rightarrow> []
            | Some ids \<Rightarrow> show_if (length ids > 0)
                [El ''div'' [Cls ''memberDevices'']
                   [Txt (join '', '' (map (\<lambda>i. case names i of Some n \<Rightarrow> n | None \<Rightarrow> take 8 i) ids))]])),
        El ''span'' [Cls (''badge '' @ role_badge (m_role m))] [Txt (shown_role m)],
        El ''div'' [Cls ''memberActions'']
          [El ''button'' [On ''click'' (EditMember m)] [Txt ''Edit''],
           El ''button'' [Cls ''danger'', On ''click'' (RemoveMember (m_id m))] [Txt ''Remove'']]]"

definition role_option :: "string \<times> string \<Rightarrow> team_action node" where
  "role_option o1 = El ''option'' [Value (fst o1)] [Txt (snd o1)]"

definition invite_roles :: "(string \<times> string) list" where
  "invite_roles = [(''viewer'', ''Viewer (read-only)''), (''operator'', ''Operator (can send commands)'')]"

definition edit_roles :: "(string \<times> string) list" where
  "edit_roles = [(''viewer'', ''Viewer''), (''operator'', ''Operator''), (''admin'', ''Admin'')]"

definition form_row :: "string \<Rightarrow> team_action node \<Rightarrow> team_action node" where
  "form_row label control = El ''div'' [Cls ''formRow''] [El ''label'' [] [Txt label], control]"

definition invite_modal :: "team_page \<Rightarrow> team_action node list" where
  "invite_modal s =
     Modal (showInvite s) CloseInvite ''Invite Member''
       [form_row ''Email'' (El ''input''
          [Attr ''type'' ''email'', Attr ''placeholder'' ''user@example.com'', Value (invEmail s), OnInput TypeEmail] []),
        form_row ''Role''
          (El ''select'' [Value (invRole s), OnInput PickInviteRole] (map role_option invite_roles)),
        form_row ''Device Access'' (DevicePicker (projectDevices s) (invDevices s) ToggleInvite),
        El ''div'' [Cls ''formActions'']
          [El ''button'' [On ''click'' CloseInvite] [Txt ''Cancel''],
           El ''button'' [Cls ''primary'', On ''click'' SubmitInvite,
                          Disabled (inviting s \<or> trim (invEmail s) = [])]
             [Txt (if inviting s then ''Inviting...'' else ''Send Invite'')]]]"

definition edit_modal :: "team_page \<Rightarrow> team_action node list" where
  "edit_modal s =
     Modal (editMember s \<noteq> None) CloseEdit
       (''Edit Access &mdash; '' @ (case editMember s of None \<Rightarrow> [] | Some m \<Rightarrow> m_email m))
       [form_row ''Role''
          (El ''select'' [Value (editRole s), OnInput PickEditRole] (map role_option edit_roles)),
        form_row ''Device Access'' (DevicePicker (projectDevices s) (editDevices s) ToggleEdit),
        El ''div'' [Cls ''formActions'']
          [El ''button'' [On ''click'' CloseEdit] [Txt ''Cancel''],
           El ''button'' [Cls ''primary'', On ''click'' SaveEdit, Disabled (saving s)]
             [Txt (if saving s then ''Saving...'' else ''Save Changes'')]]]"

definition TeamPage_view :: "team_page \<Rightarrow> team_action node" where
  "TeamPage_view s =
     (if team_loading s then spinner_view
      else El ''div'' [Cls ''root'']
        ([El ''div'' [Cls ''header'']
            [El ''h2'' [] [Txt ''Team''],
             El ''button'' [Cls ''primary'', On ''click'' OpenInvite] [Txt ''+ Invite Member'']],
          (if length (members s) = 0 then El ''div'' [Cls ''empty''] [Txt ''No team members yet.'']
           else El ''div'' [Cls ''card''] (map (member_row (teamNameMap s)) (members s)))]
         @ invite_modal s @ edit_modal s))"

subsection \<open>Selections\<close>

lemma set_toggleDevice:
  "set (toggleDevice sel i) = (if i \<in> set sel then set sel - {i} else insert i (set sel))"
  by (simp add: toggleDevice_def Let_def)

lemma distinct_toggleDevice: "distinct (toggleDevice sel i)"
  by (auto simp: toggleDevice_def Let_def)

lemma toggles:
  "i \<in> set (foldl toggleDevice sel ts) \<longleftrightarrow> (i \<in> set sel) \<noteq> odd (count_list ts i)"
  by (induction ts arbitrary: sel) (auto simp: set_toggleDevice)

lemma distinct_toggles: "distinct sel \<Longrightarrow> distinct (foldl toggleDevice sel ts)"
  by (induction ts rule: rev_induct) (simp_all add: distinct_toggleDevice)

text \<open>The check boxes of a view: what a click on each does and whether it is checked.\<close>

definition box_of :: "'a attr list \<Rightarrow> ('a \<times> bool) list" where
  "box_of as =
     (case (List.map_filter (\<lambda>x. case x of Checked b \<Rightarrow> Some b | _ \<Rightarrow> None) as, handler_actions ''change'' as) of
        ([b], [a]) \<Rightarrow> [(a, b)] | _ \<Rightarrow> [])"

fun boxes :: "'a node \<Rightarrow> ('a \<times> bool) list" where
  "boxes (Txt s) = []"
| "boxes (El t as cs) = box_of as @ concat (map boxes cs)"

lemma concat_map_singleton: "concat (map (\<lambda>x. [f x]) xs) = map f xs"
  by (induction xs) simp_all

lemma picker_row_boxes:
  "concat (map (boxes \<circ> (\<lambda>d. El ''label'' [Cls ''deviceCheck'']
       [El ''input'' [Attr ''type'' ''checkbox'', Checked (v_id d \<in> set sel), On ''change'' (tog (v_id d))] [],
        Txt (v_display_name d)])) ds) = map (\<lambda>d. (tog (v_id d), v_id d \<in> set sel)) ds"
  by (induction ds) (simp_all add: box_of_def)

lemma boxes_DevicePicker:
  "boxes (DevicePicker pds sel tog) = map (\<lambda>d. (tog (v_id d), v_id d \<in> set sel)) (concat (map snd pds))"
proof -
  have "concat (map (boxes \<circ> (\<lambda>(p, ds). El ''div'' []
               (El ''div'' [Cls ''projectGroup'']
                  [Txt (if p_display_name p \<noteq> [] then p_display_name p else p_name p)] #
                map (\<lambda>d. El ''label'' [Cls ''deviceCheck'']
                       [El ''input'' [Attr ''type'' ''checkbox'', Checked (v_id d \<in> set sel),
                                      On ''change'' (tog (v_id d))] [],
                        Txt (v_display_name d)]) ds))) pds)
      = map (\<lambda>d. (tog (v_id d), v_id d \<in> set sel)) (concat (map snd pds))"
    by (induction pds) (auto simp: picker_row_boxes [unfolded comp_def] box_of_def comp_def)
  then show ?thesis
    by (cases pds) (simp_all add: DevicePicker_def box_of_def)
qed

lemma boxes_edit_modal:
  "editMember s = Some m \<Longrightarrow> concat (map boxes (edit_modal s))
     = map (\<lambda>d. (ToggleEdit (v_id d), v_id d \<in> set (editDevices s))) (allDevices s)"
  by (simp add: edit_modal_def Modal_def form_row_def role_option_def edit_roles_def boxes_DevicePicker
      allDevices_def box_of_def)

lemma checked_or_kept:
  assumes "\<And>i. i \<notin> v_id ` set dvs \<Longrightarrow> i \<in> set sel \<longleftrightarrow> i \<in> own"
  shows "set sel = {i. (ToggleEdit i, True) \<in> set (map (\<lambda>d. (ToggleEdit (v_id d), v_id d \<in> set sel)) dvs)} \<union>
    (own - v_id ` set dvs)"
proof (rule set_eqI)
  fix i
  show "i \<in> set sel \<longleftrightarrow>
      i \<in> {i. (ToggleEdit i, True) \<in> set (map (\<lambda>d. (ToggleEdit (v_id d), v_id d \<in> set sel)) dvs)} \<union> (own - v_id ` set dvs)"
    using assms [of i] by (cases "i \<in> v_id ` set dvs") auto
qed

text \<open>What the operator does in the dialog: pick a role or click a device.\<close>

fun editing :: "team_action \<Rightarrow> bool" where
  "editing (ToggleEdit i) = True"
| "editing (PickEditRole r) = True"
| "editing a = False"

definition toggled :: "team_action list \<Rightarrow> string list" where
  "toggled as = List.map_filter (\<lambda>a. case a of ToggleEdit i \<Rightarrow> Some i | _ \<Rightarrow> None) as"

definition picked :: "string \<Rightarrow> team_action list \<Rightarrow> string" where
  "picked r as = foldl (\<lambda>r a. case a of PickEditRole r' \<Rightarrow> r' | _ \<Rightarrow> r) r as"

lemma edited_state:
  "\<forall>a \<in> set as. editing a \<Longrightarrow> foldl (\<lambda>s a. team_dispatch b a s) s as
     = s\<lparr>editDevices := foldl toggleDevice (editDevices s) (toggled as), editRole := picked (editRole s) as\<rparr>"
proof (induction as arbitrary: s)
  case (Cons a as)
  then show ?case by (cases a) (simp_all add: toggled_def picked_def)
qed (simp add: toggled_def picked_def)

subsection \<open>Properties\<close>

text \<open>
  C34: saving an edited member sends what the dialog shows: for any picks and clicks after the
  dialog opened, the request has the last role picked (the member's own if none) and, without
  repetition, the member's devices with every device clicked an odd number of times changed
  over.  A device with a box is sent exactly if its box is checked; a device of the member
  without a box, which no click can reach (of a project whose list failed to load, say), is
  sent as well: when only boxes are clicked, the devices sent are those checked and those of
  the member without a box.
\<close>

theorem edit_saves_selection:
  assumes "\<forall>a \<in> set as. editing a"
    and "s' = foldl (\<lambda>s a. team_dispatch b a s) (openEdit m s) as"
  shows "\<exists>ds. team_requests (handleSaveEdit s')
             = team_requests s @ [updateMemberAccess (m_id m) \<lparr>ua_role = picked (m_role m) as, ua_device_ids = ds\<rparr>] \<and>
           distinct ds \<and>
           (\<forall>i. i \<in> set ds \<longleftrightarrow>
              (i \<in> set (case m_device_ids m of None \<Rightarrow> [] | Some xs \<Rightarrow> xs)) \<noteq> odd (count_list (toggled as) i)) \<and>
           concat (map boxes (edit_modal s'))
             = map (\<lambda>d. (ToggleEdit (v_id d), v_id d \<in> set ds)) (allDevices s) \<and>
           (set (toggled as) \<subseteq> v_id ` set (allDevices s) \<longrightarrow>
              set ds = {i. (ToggleEdit i, True) \<in> set (concat (map boxes (edit_modal s')))} \<union>
                (set (case m_device_ids m of None \<Rightarrow> [] | Some xs \<Rightarrow> xs) - v_id ` set (allDevices s)))"
proof -
  let ?own = "new_Set (case m_device_ids m of None \<Rightarrow> [] | Some xs \<Rightarrow> xs)"
  let ?ds = "foldl toggleDevice ?own (toggled as)"
  have s': "s' = (openEdit m s)\<lparr>editDevices := ?ds, editRole := picked (m_role m) as\<rparr>"
    using edited_state [OF assms(1), of b "openEdit m s"] assms(2) by (simp add: openEdit_def)
  have "editMember s' = Some m" "editDevices s' = ?ds" "allDevices s' = allDevices s"
    by (simp_all add: s' openEdit_def allDevices_def)
  moreover have "team_requests (handleSaveEdit s')
      = team_requests s @ [updateMemberAccess (m_id m) \<lparr>ua_role = picked (m_role m) as, ua_device_ids = ?ds\<rparr>]"
    by (simp add: s' openEdit_def handleSaveEdit_def)
  moreover have "distinct ?ds"
    by (rule distinct_toggles) simp
  moreover have members: "i \<in> set ?ds \<longleftrightarrow> (i \<in> set ?own) \<noteq> odd (count_list (toggled as) i)" for i
    by (simp add: toggles)
  moreover have shown: "concat (map boxes (edit_modal s'))
      = map (\<lambda>d. (ToggleEdit (v_id d), v_id d \<in> set ?ds)) (allDevices s)"
    using boxes_edit_modal [of s' m] calculation(1-3) by simp
  moreover have "set ?ds = {i. (ToggleEdit i, True) \<in> set (concat (map boxes (edit_modal s')))} \<union>
      (set ?own - v_id ` set (allDevices s))" if "set (toggled as) \<subseteq> v_id ` set (allDevices s)"
  proof -
    have "i \<in> set ?ds \<longleftrightarrow> i \<in> set ?own" if "i \<notin> v_id ` set (allDevices s)" for i
    proof -
      have "count_list (toggled as) i = 0"
        using that \<open>set (toggled as) \<subseteq> _\<close> by (auto simp: count_list_0_iff)
      then show ?thesis
        using members [of i] by simp
    qed
    then show ?thesis
      unfolding shown by (rule checked_or_kept)
  qed
  ultimately show ?thesis
    by (intro exI [of _ ?ds]) simp
qed

definition sample_member :: "string \<Rightarrow> org_member" where
  "sample_member r = \<lparr>m_id = ''u1'', m_email = ''a@b'', m_name = [], m_role = r, m_device_ids = Some [''v1'', ''v2'']\<rparr>"

text \<open>A page with boxes for two devices, of which the member has one, and none for the member's other device.\<close>

definition boxed_page :: team_page where
  "boxed_page = team_mount\<lparr>projectDevices :=
     [(\<lparr>p_id = ''p'', p_org_id = ''o'', p_name = ''fleet'', p_display_name = ''Fleet'', p_created_at = [], p_active = True\<rparr>,
       map (\<lambda>i. \<lparr>v_id = i, v_org_id = ''o'', v_project_id = None, v_display_name = i, v_vehicle_type = ''drone'',
         v_adapter_type = ''mavlink'', v_region = ''us'', v_created_at = [], v_updated_at = [], v_active = True\<rparr>)
         [''v1'', ''v3''])]\<rparr>"

theorem edit_saves_selection_witness:
  "\<exists>ds. team_requests (handleSaveEdit (foldl (\<lambda>s a. team_dispatch True a s)
            (openEdit (sample_member ''viewer'') boxed_page) [ToggleEdit ''v1'', PickEditRole ''admin'', ToggleEdit ''v3'']))
          = [listMembers, listProjects, updateMemberAccess ''u1'' \<lparr>ua_role = ''admin'', ua_device_ids = ds\<rparr>] \<and> set ds = {''v2'', ''v3''}"
proof -
  let ?as = "[ToggleEdit ''v1'', PickEditRole ''admin'', ToggleEdit ''v3'']"
  let ?m = "sample_member ''viewer''"
  let ?s = "foldl (\<lambda>s a. team_dispatch True a s) (openEdit ?m boxed_page) ?as"
  have as: "\<forall>a \<in> set ?as. editing a" by simp
  have devices: "v_id ` set (allDevices boxed_page) = {''v1'', ''v3''}"
    by (simp add: boxed_page_def allDevices_def)
  have clicked: "set (toggled ?as) \<subseteq> v_id ` set (allDevices boxed_page)"
    by (simp add: devices toggled_def)
  obtain ds where sent: "team_requests (handleSaveEdit ?s)
      = team_requests boxed_page @ [updateMemberAccess (m_id ?m) \<lparr>ua_role = picked (m_role ?m) ?as, ua_device_ids = ds\<rparr>]"
    and odd: "\<forall>i. i \<in> set ds \<longleftrightarrow>
      (i \<in> set (case m_device_ids ?m of None \<Rightarrow> [] | Some xs \<Rightarrow> xs)) \<noteq> odd (count_list (toggled ?as) i)"
    and ds: "set ds = {i. (ToggleEdit i, True) \<in> set (concat (map boxes (edit_modal ?s)))} \<union>
      (set (case m_device_ids ?m of None \<Rightarrow> [] | Some xs \<Rightarrow> xs) - v_id ` set (allDevices boxed_page))"
    using edit_saves_selection [OF as refl, of True ?m boxed_page] clicked by (elim exE conjE) blast
  have "set ds = {''v2'', ''v3''}"
  proof (rule set_eqI)
    fix i
    show "i \<in> set ds \<longleftrightarrow> i \<in> {''v2'', ''v3''}"
      using odd [rule_format, of i] by (auto simp: toggled_def sample_member_def split: if_splits)
  qed
  moreover have "team_requests boxed_page @ [updateMemberAccess (m_id ?m) \<lparr>ua_role = picked (m_role ?m) ?as, ua_device_ids = ds\<rparr>]
      = [listMembers, listProjects, updateMemberAccess ''u1'' \<lparr>ua_role = ''admin'', ua_device_ids = ds\<rparr>]"
    by (simp add: sample_member_def picked_def boxed_page_def team_mount_def loadAll_def)
  ultimately show ?thesis
    using sent by metis
qed
text \<open>The option a \<open>select\<close> displays: the one with its value, or the first when none has it.\<close>

definition displayed_option :: "string \<Rightarrow> (string \<times> string) list \<Rightarrow> string" where
  "displayed_option v opts = (if v \<in> fst ` set opts then v else fst (hd opts))"

text \<open>
  A member without a role is listed as a viewer and the edit dialog displays the option
  Viewer, but saving any change of devices sends the empty role.
\<close>

theorem missing_role_is_saved_empty:
  assumes "m_role m = []" and "\<forall>a \<in> set as. \<exists>i. a = ToggleEdit i"
    and "s' = foldl (\<lambda>s a. team_dispatch b a s) (openEdit m s) as"
  shows "shown_role m = ''viewer'' \<and> displayed_option (editRole s') edit_roles = ''viewer'' \<and>
         (\<exists>ds. team_requests (handleSaveEdit s') = team_requests s @ [updateMemberAccess (m_id m) \<lparr>ua_role = [], ua_device_ids = ds\<rparr>])"
proof -
  have "\<forall>a \<in> set as. editing a" and same: "picked r as = r" for r
    using assms(2) by (fastforce, induction as) (auto simp: picked_def)
  then have "s' = (openEdit m s)\<lparr>editDevices := foldl toggleDevice (editDevices (openEdit m s)) (toggled as),
      editRole := []\<rparr>"
    using edited_state [of as b "openEdit m s"] assms(1,3) by (simp add: openEdit_def)
  then show ?thesis
    using assms(1)
    by (simp add: shown_role_def displayed_option_def edit_roles_def handleSaveEdit_def openEdit_def)
      (intro exI, rule refl)
qed

theorem missing_role_is_saved_empty_witness:
  "\<exists>ds. team_requests (handleSaveEdit (team_dispatch True (ToggleEdit ''v3'') (openEdit (sample_member []) team_mount)))
     = [listMembers, listProjects, updateMemberAccess ''u1'' \<lparr>ua_role = [], ua_device_ids = ds\<rparr>]"
  using missing_role_is_saved_empty [of "sample_member []" "[ToggleEdit ''v3'']" _ True team_mount]
  by (simp add: sample_member_def team_mount_def loadAll_def)

subsection \<open>Waiting for promises\<close>

datatype team_flag = TeamSpinning | InvitingMember | SavingMember

fun team_waiting :: "team_flag \<Rightarrow> team_page \<Rightarrow> bool" where
  "team_waiting TeamSpinning s = team_loading s"
| "team_waiting InvitingMember s = inviting s"
| "team_waiting SavingMember s = saving s"

fun awaits :: "awaited_by \<Rightarrow> team_flag \<Rightarrow> bool" where
  "awaits b TeamSpinning = True"
| "awaits b InvitingMember = (b = InviteHandler)"
| "awaits b SavingMember = (b = SaveHandler)"

fun team_serves :: "team_promise \<Rightarrow> team_flag \<Rightarrow> nat option" where
  "team_serves (TeamLoading b) f = (if awaits b f then Some 1 else None)"
| "team_serves (TeamCounting b ps) f = (if awaits b f then Some 0 else None)"
| "team_serves Inviting f = (if f = InvitingMember then Some 2 else None)"
| "team_serves Saving f = (if f = SavingMember then Some 2 else None)"
| "team_serves Removing f = None"

fun team_settling :: "team_event \<Rightarrow> (nat \<times> team_answer) option" where
  "team_settling (TeamSettle i r) = Some (i, r)"
| "team_settling (TeamAct confirmed a) = None"

lemmas team_continuations = lists_settled_def team_counted_def invite_settled_def save_settled_def
  remove_settled_def loadAll_finally_def loadAll_def

lemma team_settled_promises:
  "set (team_pending s) \<subseteq> set (team_pending (team_settled p r s))"
  "team_waiting w (team_settled p r s) \<Longrightarrow> team_waiting w s"
  by (cases "(p, r, s)" rule: team_settled.cases; cases w;
      auto simp: team_continuations Let_def split: sum.splits prod.splits awaited_by.splits)+

lemma team_settled_serves:
  assumes "team_answers p r" and "team_serves p w = Some n" and "team_waiting w (team_settled p r s)"
  shows "\<exists>q \<in> set (team_pending (team_settled p r s)). \<exists>m < n. team_serves q w = Some m"
  using assms
  by (cases "(p, r, s)" rule: team_settled.cases; cases w)
    (auto simp: team_continuations Let_def split: sum.splits prod.splits if_splits awaited_by.splits)

lemma team_other:
  "set (team_pending s) \<subseteq> set (team_pending (team_dispatch b a s)) \<and>
   (team_waiting w (team_dispatch b a s) \<longrightarrow>
      team_waiting w s \<or> (\<exists>p \<in> set (team_pending (team_dispatch b a s)). team_serves p w \<noteq> None))"
  by (cases a; cases w) (auto simp: handleInvite_def openEdit_def handleSaveEdit_def handleRemove_def split: option.split)

interpretation team: promise_page team_step team_settling team_pending
    "\<lambda>i s. s\<lparr>team_pending := remove_nth i (team_pending s)\<rparr>" team_answers team_settled
    "\<lambda>s. True" team_waiting team_serves
proof unfold_locales
  show "\<exists>e. team_settling e = Some (i, r)" for i r
    by (rule exI [of _ "TeamSettle i r"]) simp
  show "\<exists>r. team_answers p r" for p
  proof (cases p)
    case (TeamLoading b)
    then show ?thesis by (intro exI [of _ "TeamListed (Inr (None, None))"]) simp
  next
    case (TeamCounting b ps)
    then show ?thesis by (intro exI [of _ "TeamCounted (map (\<lambda>p. Inr None) ps)"]) simp
  qed (auto intro: exI [of _ "TeamDone (Inr ())"])
  show "team_step s e s' \<longleftrightarrow> i < length (team_pending s) \<and> team_answers (team_pending s ! i) r \<and>
      s' = team_settled (team_pending s ! i) r (s\<lparr>team_pending := remove_nth i (team_pending s)\<rparr>)"
    if "team_settling e = Some (i, r)" for s e s' i r
    using that by (cases e) (auto simp: team_step_settle)
  show "team_waiting w (s\<lparr>team_pending := remove_nth i (team_pending s)\<rparr>) = team_waiting w s" for w s i
    by (cases w) simp_all
  show "set (team_pending s) \<subseteq> set (team_pending s')" if "team_settling e = None" "team_step s e s'" for s e s'
    using that team_other by (cases e) auto
  show "team_waiting w s \<or> (\<exists>p \<in> set (team_pending s'). team_serves p w \<noteq> None)"
    if "team_settling e = None" "team_step s e s'" "team_waiting w s'" for s e s' w
    using that team_other by (cases e) auto
qed (use team_settled_promises team_settled_serves in simp_all)

text \<open>
  The team page never waits forever: whatever the operator does and in whatever order requests
  end, the spinner is gone after at most two more settlings, the disabled Invite and Save
  buttons are back after at most three, and with no request in flight none is waiting.
\<close>

theorem team_waiting_ends:
  assumes "runs team_step team_mount es s"
  shows "down_within 2 (settles team_settling team_step) team_loading s \<and>
         down_within 3 (settles team_settling team_step) inviting s \<and>
         down_within 3 (settles team_settling team_step) saving s \<and>
         (team_pending s = [] \<longrightarrow> \<not> team_loading s \<and> \<not> inviting s \<and> \<not> saving s)"
proof -
  have "team.served team_mount"
    unfolding team.served_def team_mount_def loadAll_def by (auto elim: team_waiting.elims)
  then have served: "team.served s"
    using assms team.served_runs by blast
  have flags: "team_waiting TeamSpinning = team_loading" "team_waiting InvitingMember = inviting"
    "team_waiting SavingMember = saving"
    by (rule ext, simp)+
  have "team_serves p TeamSpinning = Some m \<Longrightarrow> m < 2" "team_serves p InvitingMember = Some m \<Longrightarrow> m < 3"
    "team_serves p SavingMember = Some m \<Longrightarrow> m < 3" for p m
    by (cases p; simp split: if_splits)+
  then show ?thesis
    using team.served_clears [OF served] team.nothing_left [OF served] flags by metis
qed

theorem team_waiting_ends_witness:
  "down_within 2 (settles team_settling team_step) team_loading team_mount \<and> team_loading team_mount"
  using team_waiting_ends [OF runs_Nil] by (simp add: team_mount_def loadAll_def)

end
