(* ===== verification/SetupGuide.thy ===== *)
theory SetupGuide
  imports Jsx
begin

section \<open>The setup guide for a new API key (server/dashboard/src/pages/ApiKeys)\<close>

text \<open>
  The components \<open>CopyButton\<close>, \<open>CodeBlock\<close> and \<open>SetupGuide\<close>: the texts that show a freshly
  created key, with buttons that copy them.  The texts are lists of lines.  The copy buttons
  of the guide are numbered; \<open>copied\<close> says which of them shows that it was just used.
\<close>

definition unlines :: "string list \<Rightarrow> string" where
  "unlines ls = join [char_of (10 :: nat)] ls"

datatype guide_tab = PythonTab | GoTab

datatype guide_action = CopyText nat string | GuideTab guide_tab | DismissGuide

record copy_state =
  clipboard :: "string list"
  copied :: "nat \<Rightarrow> bool"
  copy_timers :: "nat list"

definition copy_text :: "nat \<Rightarrow> string \<Rightarrow> copy_state \<Rightarrow> copy_state" where
  "copy_text b text s =
     s\<lparr>clipboard := clipboard s @ [text], copied := (copied s)(b := True), copy_timers := copy_timers s @ [b]\<rparr>"

text \<open>The oldest timer fires: all have the same delay.\<close>

definition copy_timeout :: "copy_state \<Rightarrow> copy_state" where
  "copy_timeout s =
     (case copy_timers s of [] \<Rightarrow> s | b # bs \<Rightarrow> s\<lparr>copied := (copied s)(b := False), copy_timers := bs\<rparr>)"

definition CopyButton :: "(nat \<Rightarrow> bool) \<Rightarrow> nat \<Rightarrow> string \<Rightarrow> string \<Rightarrow> guide_action node" where
  "CopyButton cp b text label =
     El ''button'' [Cls ''copyBtn'', On ''click'' (CopyText b text)]
       [Txt (if cp b then ''&check; Copied'' else label)]"

definition CodeBlock :: "(nat \<Rightarrow> bool) \<Rightarrow> nat \<Rightarrow> string \<Rightarrow> string option \<Rightarrow> guide_action node" where
  "CodeBlock cp b code lang =
     El ''div'' [Cls ''codeBlock'']
       ((if truthy_str lang then [El ''span'' [Cls ''codeLang''] [Txt (the lang)]] else []) @
        [CopyButton cp b code ''Copy'', El ''pre'' [] [El ''code'' [] [Txt code]]])"

definition envBlock :: "string \<Rightarrow> string" where
  \<open>envBlock apiKey = ''export SYSTEMSCALE_API_KEY="'' @ apiKey @ ''"''\<close>

definition pythonInstall :: string where
  "pythonInstall = ''pip install systemscale''"

definition pythonQuickstart :: "string \<Rightarrow> string" where
  \<open>pythonQuickstart apiKey = unlines
     [''import systemscale'',
      '''',
      ''client = systemscale.init('',
      ''    api_key="'' @ apiKey @ ''",'',
      ''    project="my-fleet",   # replace with your project name'',
      ''    device="my-device",   # replace with this device's name'',
      '')'',
      '''',
      ''# Stream telemetry at up to 50 Hz'',
      ''client.log({"sensors/temp": 85.2, "nav/altitude": 102.3})'',
      '''',
      ''# Send an alert to all operators'',
      ''client.alert("Low battery", level="warning")'',
      '''',
      ''# Request human-in-the-loop approval'',
      ''response = client.request_assistance("Obstacle detected", timeout=60)'',
      ''if response.approved:'',
      ''    print("Proceed:", response.instruction)'']\<close>

definition goInstall :: string where
  "goInstall = ''go get github.com/systemscale/sdk/go/systemscale''"

definition goQuickstart :: "string \<Rightarrow> string" where
  \<open>goQuickstart apiKey = unlines
     [''package main'',
      '''',
      ''import ('',
      ''    "time"'',
      ''    "github.com/systemscale/sdk/go/systemscale"'',
      '')'',
      '''',
      ''func main() {'',
      ''    client, _ := systemscale.Init(systemscale.Config{'',
      ''        APIKey:  "'' @ apiKey @ ''",'',
      ''        Project: "my-fleet",  // replace with your project name'',
      ''        Device:  "my-device", // replace with this device's name'',
      ''    })'',
      '''',
      ''    // Stream telemetry'',
      ''    client.Log(map[string]any{'',
      ''        "sensors/temp":  85.2,'',
      ''        "nav/altitude":  102.3,'',
      ''    })'',
      '''',
      ''    // Send an alert to all operators'',
      ''    client.Alert("Low battery",'',
      ''        systemscale.WithAlertLevel("warning"))'',
      '''',
      ''    time.Sleep(time.Second) // let background sender flush'',
      ''}'']\<close>

definition step_head :: "string \<Rightarrow> string \<Rightarrow> 'a node" where
  "step_head n title =
     El ''div'' [Cls ''stepHead'']
       [El ''span'' [Cls ''stepNum''] [Txt n], El ''span'' [Cls ''stepTitle''] [Txt title]]"

definition guide_tab_button :: "guide_tab \<Rightarrow> guide_tab \<Rightarrow> string \<Rightarrow> guide_action node" where
  "guide_tab_button current t label =
     El ''button'' [Cls (''tab '' @ (if current = t then ''tabActive'' else '''')), On ''click'' (GuideTab t)]
       [Txt label]"

definition SetupGuide :: "(nat \<Rightarrow> bool) \<Rightarrow> guide_tab \<Rightarrow> string \<Rightarrow> guide_action node" where
  \<open>SetupGuide cp tab apiKey =
     El ''div'' [Cls ''setupGuide'']
       [El ''div'' [Cls ''keyReveal'']
          [El ''span'' [Cls ''keyRevealLabel'']
             [Txt ''Your API key &mdash; copy it now, it won't be shown again.''],
           El ''div'' [Cls ''newKey''] [El ''code'' [] [Txt apiKey], CopyButton cp 0 apiKey ''Copy key'']],
        El ''hr'' [Cls ''divider''] [],
        El ''div'' [Cls ''step'']
          [step_head ''1'' ''Set your environment variable'',
           El ''p'' [Cls ''stepDesc'']
             [Txt ''Add this to your shell profile or '', El ''code'' [] [Txt ''.env''],
              Txt '' file so every SDK call picks up your key automatically.''],
           CodeBlock cp 1 (envBlock apiKey) (Some ''bash'')],
        El ''div'' [Cls ''step'']
          ([step_head ''2'' ''Install the SDK'',
            El ''div'' [Cls ''tabs''] [guide_tab_button tab PythonTab ''Python'', guide_tab_button tab GoTab ''Go'']] @
           show_if (tab = PythonTab) [CodeBlock cp 2 pythonInstall (Some ''bash'')] @
           show_if (tab = GoTab) [CodeBlock cp 3 goInstall (Some ''bash'')]),
        El ''div'' [Cls ''step'']
          ([step_head ''3'' ''Quick start'',
            El ''p'' [Cls ''stepDesc'']
              [Txt ''Replace '', El ''code'' [] [Txt ''my-fleet''], Txt '' with your project name and '',
               El ''code'' [] [Txt ''my-device''], Txt '' with this device's name, then run.'']] @
           show_if (tab = PythonTab) [CodeBlock cp 4 (pythonQuickstart apiKey) (Some ''python'')] @
           show_if (tab = GoTab) [CodeBlock cp 5 (goQuickstart apiKey) (Some ''go'')]),
        El ''button'' [Cls ''dismissBtn'', On ''click'' DismissGuide] [Txt ''Got it &mdash; dismiss'']]\<close>

subsection \<open>What the guide copies\<close>

text \<open>The texts the guide's buttons put on the clipboard.\<close>

definition copies :: "guide_action list \<Rightarrow> string list" where
  "copies as = List.map_filter (\<lambda>a. case a of CopyText b t \<Rightarrow> Some t | _ \<Rightarrow> None) as"

definition quickstart :: "guide_tab \<Rightarrow> string \<Rightarrow> string" where
  "quickstart tab k = (case tab of PythonTab \<Rightarrow> pythonQuickstart k | GoTab \<Rightarrow> goQuickstart k)"

definition install :: "guide_tab \<Rightarrow> string" where
  "install tab = (case tab of PythonTab \<Rightarrow> pythonInstall | GoTab \<Rightarrow> goInstall)"

lemma guide_copies: "copies (actions (SetupGuide cp tab k)) = [k, envBlock k, install tab, quickstart tab k]"
  by (cases tab)
    (simp_all add: SetupGuide_def copies_def CopyButton_def CodeBlock_def step_head_def guide_tab_button_def
      is_disabled_def truthy_str_def install_def quickstart_def)

definition contains :: "string \<Rightarrow> string \<Rightarrow> bool" where
  "contains k s \<longleftrightarrow> (\<exists>a b. s = a @ k @ b)"

lemma contains_join: "contains k l \<Longrightarrow> contains k (join sep (xs @ l # ys))"
proof -
  assume "contains k l"
  then obtain a b where l: "l = a @ k @ b" by (auto simp: contains_def)
  have "\<exists>u v. join sep (xs @ l # ys) = u @ l @ v"
  proof (cases xs)
    case Nil
    then show ?thesis
      by (intro exI [of _ "[]"] exI [of _ "concat (map (\<lambda>q. sep @ q) ys)"]) (simp add: join_def)
  next
    case (Cons x xs')
    then have "join sep (xs @ l # ys)
        = (x @ concat (map (\<lambda>q. sep @ q) xs') @ sep) @ l @ concat (map (\<lambda>q. sep @ q) ys)"
      by (simp add: join_def)
    then show ?thesis by blast
  qed
  then obtain u v where "join sep (xs @ l # ys) = u @ l @ v" by blast
  then have "join sep (xs @ l # ys) = (u @ a) @ k @ (b @ v)"
    by (simp add: l)
  then show ?thesis
    unfolding contains_def by blast
qed

lemma contains_middle: "contains k (a @ k @ b)"
  unfolding contains_def by blast

lemma contains_envBlock: "contains k (envBlock k)"
  unfolding envBlock_def by (rule contains_middle)

lemma contains_unlines: "list_ex (contains k) ls \<Longrightarrow> contains k (unlines ls)"
  unfolding unlines_def list_ex_iff using contains_join by (metis split_list)

lemma in_first_line: "contains k l \<Longrightarrow> list_ex (contains k) (l # ls)"
  by simp

lemma in_later_line: "list_ex (contains k) ls \<Longrightarrow> list_ex (contains k) (l # ls)"
  by simp

lemma contains_python: "contains k (pythonQuickstart k)"
  unfolding pythonQuickstart_def
  by (rule contains_unlines, rule in_later_line, rule in_later_line, rule in_later_line,
      rule in_first_line, rule contains_middle)

lemma contains_go: "contains k (goQuickstart k)"
  unfolding goQuickstart_def
  by (rule contains_unlines, rule in_later_line, rule in_later_line, rule in_later_line,
      rule in_later_line, rule in_later_line, rule in_later_line, rule in_later_line,
      rule in_later_line, rule in_later_line, rule in_first_line, rule contains_middle)

end
