(* ===== verification/ApiKeysPage.thy ===== *)
theory ApiKeysPage
  imports TeamPage SetupGuide RoleGuard
begin

section \<open>The API keys page (server/dashboard/src/pages/ApiKeys)\<close>

text \<open>
  The keys of the organisation, the dialog that creates one and the guide that shows the new
  key once.  The form's validation and the state of its fields are \<open>react-hook-form\<close>'s, which is
  not under src/: \<open>submit_key\<close> takes the two fields as arguments.  A rejected promise carries
  the text \<open>String(e)\<close> gives for its reason.  The dialog that creates a key is mounted anew each
  time it opens and has its own state: \<open>form_no\<close> numbers these instances, and the promise of a
  creation keeps the number of the form that sent it.
\<close>

datatype keys_promise = KeysLoading | CreatingKey nat | Revoking

record keys_page =
  keys :: "api_key list"
  keys_loading :: bool
  keys_error :: "string option"
  showCreateKey :: bool
  newKey :: "create_key_response option"
  form_no :: nat
  form_loading :: bool
  form_error :: "string option"
  guide_tab :: guide_tab
  keys_requests :: "request list"
  keys_pending :: "keys_promise list"
  unhandled :: "string list"

text \<open>\<open>scopes.split(',').map((s) => s.trim()).filter(Boolean)\<close>\<close>

definition parse_scopes :: "string \<Rightarrow> string list" where
  "parse_scopes text = filter (\<lambda>s. s \<noteq> []) (map trim (split_at CHR '','' text))"

definition keys_load :: "keys_page \<Rightarrow> keys_page" where
  "keys_load s = s\<lparr>keys_requests := keys_requests s @ [listKeys], keys_pending := keys_pending s @ [KeysLoading]\<rparr>"

definition keys_settled :: "string + api_key list option \<Rightarrow> keys_page \<Rightarrow> keys_page" where
  "keys_settled r s =
     (case r of
        Inr ks \<Rightarrow> s\<lparr>keys := (case ks of None \<Rightarrow> [] | Some xs \<Rightarrow> xs), keys_error := None\<rparr>
      | Inl msg \<Rightarrow> s\<lparr>keys_error := Some msg\<rparr>)\<lparr>keys_loading := False\<rparr>"

definition submit_key :: "string \<Rightarrow> string \<Rightarrow> keys_page \<Rightarrow> keys_page" where
  "submit_key name scopes s =
     s\<lparr>form_loading := True, form_error := None,
       keys_requests := keys_requests s @ [createKey \<lparr>ck_name = name, ck_scopes = parse_scopes scopes, ck_expires_at = None\<rparr>],
       keys_pending := keys_pending s @ [CreatingKey (form_no s)]\<rparr>"

text \<open>
  The rest of \<open>submit\<close> of form number \<open>n\<close>: \<open>onCreated\<close> keeps the key and reloads the list,
  \<open>onClose\<close> takes away the dialog shown, whichever it is, and its state with it; an error is
  shown only by the form that sent the request, if it is still there.  The guide is a new one
  and starts on its first tab only when none was shown before.
\<close>

definition key_created :: "nat \<Rightarrow> string + create_key_response \<Rightarrow> keys_page \<Rightarrow> keys_page" where
  "key_created n r s =
     (case r of
        Inl msg \<Rightarrow> (if showCreateKey s \<and> form_no s = n then s\<lparr>form_error := Some msg, form_loading := False\<rparr> else s)
      | Inr k \<Rightarrow> (keys_load (s\<lparr>newKey := Some k,
                              guide_tab := (if newKey s = None then PythonTab else guide_tab s)\<rparr>))
                   \<lparr>showCreateKey := False, form_loading := False, form_error := None\<rparr>)"

definition revoke :: "bool \<Rightarrow> string \<Rightarrow> keys_page \<Rightarrow> keys_page" where
  "revoke confirmed i s =
     (if \<not> confirmed then s
      else s\<lparr>keys_requests := keys_requests s @ [revokeKey i], keys_pending := keys_pending s @ [Revoking]\<rparr>)"

text \<open>Nothing catches a failed revocation: the rejection stays unhandled.\<close>

definition revoke_settled :: "string + unit \<Rightarrow> keys_page \<Rightarrow> keys_page" where
  "revoke_settled r s =
     (case r of Inl msg \<Rightarrow> s\<lparr>unhandled := unhandled s @ [msg]\<rparr> | Inr _ \<Rightarrow> keys_load s)"

definition keys_mount :: keys_page where
  "keys_mount =
     keys_load
       \<lparr>keys = [], keys_loading = True, keys_error = None, showCreateKey = False, newKey = None,
        form_no = 0, form_loading = False, form_error = None, guide_tab = PythonTab, keys_requests = [],
        keys_pending = [], unhandled = []\<rparr>"

datatype keys_action = OpenCreateKey | CloseCreateKey | SubmitKey | RevokeKey string | Guide guide_action

text \<open>\<open>form\<close> is the form's two fields; copying touches the clipboard only.\<close>

fun keys_dispatch :: "bool \<Rightarrow> string \<times> string \<Rightarrow> keys_action \<Rightarrow> keys_page \<Rightarrow> keys_page" where
  "keys_dispatch confirmed form OpenCreateKey s =
     (if showCreateKey s then s else s\<lparr>showCreateKey := True, form_no := form_no s + 1\<rparr>)"
| "keys_dispatch confirmed form CloseCreateKey s =
     s\<lparr>showCreateKey := False, form_loading := False, form_error := None\<rparr>"
| "keys_dispatch confirmed form SubmitKey s = submit_key (fst form) (snd form) s"
| "keys_dispatch confirmed form (RevokeKey i) s = revoke confirmed i s"
| "keys_dispatch confirmed form (Guide (CopyText b t)) s = s"
| "keys_dispatch confirmed form (Guide (GuideTab t)) s = s\<lparr>guide_tab := t\<rparr>"
| "keys_dispatch confirmed form (Guide DismissGuide) s = s\<lparr>newKey := None\<rparr>"

text \<open>
  How a promise can end, and what then runs; an answer of another kind than the promise's does
  not occur (\<open>keys_answers\<close>).
\<close>

datatype keys_answer =
    KeysListed "string + api_key list option"
  | KeyCreated "string + create_key_response"
  | KeyRevoked "string + unit"

fun keys_answers :: "keys_promise \<Rightarrow> keys_answer \<Rightarrow> bool" where
  "keys_answers KeysLoading (KeysListed r) = True"
| "keys_answers (CreatingKey n) (KeyCreated r) = True"
| "keys_answers Revoking (KeyRevoked r) = True"
| "keys_answers p r = False"

fun keys_answered :: "keys_promise \<Rightarrow> keys_answer \<Rightarrow> keys_page \<Rightarrow> keys_page" where
  "keys_answered KeysLoading (KeysListed r) s = keys_settled r s"
| "keys_answered (CreatingKey n) (KeyCreated r) s = key_created n r s"
| "keys_answered Revoking (KeyRevoked r) s = revoke_settled r s"
| "keys_answered p r s = s"

datatype keys_event = KeysAct bool "string \<times> string" keys_action | KeysSettle nat keys_answer

text \<open>The form can be submitted only while it is there.\<close>

inductive keys_step :: "keys_page \<Rightarrow> keys_event \<Rightarrow> keys_page \<Rightarrow> bool" where
  keys_act: "a = SubmitKey \<longrightarrow> showCreateKey s \<Longrightarrow>
    keys_step s (KeysAct confirmed form a) (keys_dispatch confirmed form a s)"
| keys_settle: "i < length (keys_pending s) \<Longrightarrow> keys_answers (keys_pending s ! i) r \<Longrightarrow>
    keys_step s (KeysSettle i r)
      (keys_answered (keys_pending s ! i) r (s\<lparr>keys_pending := remove_nth i (keys_pending s)\<rparr>))"

text \<open>The step relation runs: from a state and an event it computes the next state.\<close>

code_pred (modes: i \<Rightarrow> i \<Rightarrow> o \<Rightarrow> bool) keys_step .

inductive_simps keys_step_act [simp]: "keys_step s (KeysAct confirmed form a) s'"
inductive_simps keys_step_settle: "keys_step s (KeysSettle i r) s'"

subsection \<open>What the page renders\<close>

definition CreateKeyModal :: "keys_page \<Rightarrow> keys_action node list" where
  "CreateKeyModal s =
     Modal True CloseCreateKey ''Create API Key''
       [El ''form'' [On ''submit'' SubmitKey]
          ([El ''div'' []
              [El ''label'' [] [Txt ''Name''],
               El ''input'' [Attr ''name'' ''name'', Attr ''placeholder'' ''my-integration'', Attr ''required'' []] []],
            El ''div'' []
              [El ''label'' [] [Txt ''Scopes (comma-separated)''],
               El ''input'' [Attr ''name'' ''scopes'', Attr ''placeholder'' ''operator, viewer''] []]] @
           show_if (truthy_str (form_error s)) [El ''div'' [Cls ''error-msg''] [Txt (the (form_error s))]] @
           [El ''button'' [Attr ''type'' ''submit'', Cls ''primary'', Disabled (form_loading s)]
              [Txt (if form_loading s then ''Creating&hellip;'' else ''Create Key'')]])]"

definition key_row :: "engine \<Rightarrow> api_key \<Rightarrow> keys_action node" where
  "key_row eng k =
     El ''tr'' []
       [td (k_name k),
        El ''td'' [] [El ''code'' [] [Txt (k_key_prefix k), Txt ''&hellip;'']],
        td (if join '', '' (k_scopes k) \<noteq> [] then join '', '' (k_scopes k) else ''&mdash;''),
        td (date_string eng (k_created_at k)),
        td (if truthy_str (k_last_used_at k) then date_string eng (the (k_last_used_at k)) else ''Never''),
        El ''td'' []
          [if truthy_str (k_revoked_at k) then El ''span'' [Cls ''badge red''] [Txt ''REVOKED'']
           else El ''span'' [Cls ''badge green''] [Txt ''ACTIVE'']],
        El ''td'' []
          (show_if (\<not> truthy_str (k_revoked_at k))
             [El ''button'' [Cls ''danger'', On ''click'' (RevokeKey (k_id k))] [Txt ''Revoke'']])]"

definition keys_content :: "engine \<Rightarrow> (nat \<Rightarrow> bool) \<Rightarrow> keys_page \<Rightarrow> keys_action node" where
  "keys_content eng cp s =
     El ''div'' [Cls ''page-content'']
       ([El ''div'' []
           [El ''h2'' [] [Txt ''API Keys''],
            El ''button'' [Cls ''primary'', On ''click'' OpenCreateKey] [Txt ''+ Create Key'']]] @
        (case newKey s of None \<Rightarrow> [] | Some k \<Rightarrow> [embed Guide (SetupGuide cp (guide_tab s) (k_api_key k))]) @
        show_if (keys_loading s) [El ''div'' [Cls ''spinner''] []] @
        show_if (truthy_str (keys_error s)) [El ''div'' [Cls ''error-msg''] [Txt (the (keys_error s))]] @
        [El ''div'' [Cls ''card'']
           [El ''table'' []
              [El ''thead'' [] [El ''tr'' [] (map (\<lambda>h. El ''th'' [] [Txt h])
                 [''Name'', ''Prefix'', ''Scopes'', ''Created'', ''Last Used'', ''Status'', []])],
               El ''tbody'' [] (map (key_row eng) (keys s))]]] @
        (if showCreateKey s then CreateKeyModal s else []))"

definition ApiKeysPage_view ::
  "engine \<Rightarrow> auth_state \<Rightarrow> (nat \<Rightarrow> bool) \<Rightarrow> keys_page \<Rightarrow> js_error + keys_action node" where
  "ApiKeysPage_view eng auth cp s =
     RoleGuard Admin (keys_content eng cp s)
       (El ''div'' [Cls ''page-content'']
          [El ''div'' [Cls ''error-msg''] [Txt ''Admin role required to manage API keys.'']]) auth"

subsection \<open>Scopes\<close>

lemma dropWhile_dropWhile [simp]: "dropWhile p (dropWhile p xs) = dropWhile p xs"
  by (induction xs) auto

lemma dropWhile_none: "xs = [] \<or> \<not> p (hd xs) \<Longrightarrow> dropWhile p xs = xs"
  by (cases xs) auto

lemma dropWhile_rev_first:
  "dropWhile p xs = xs \<Longrightarrow> dropWhile p (rev (dropWhile p (rev xs))) = rev (dropWhile p (rev xs))"
proof (rule dropWhile_none)
  assume first: "dropWhile p xs = xs"
  let ?ys = "rev (dropWhile p (rev xs))"
  have split: "xs = ?ys @ rev (takeWhile p (rev xs))"
    by (metis rev_append rev_rev_ident takeWhile_dropWhile_id)
  show "?ys = [] \<or> \<not> p (hd ?ys)"
  proof (cases ?ys)
    case (Cons y ys)
    with split have "hd xs = y" "xs \<noteq> []"
      by (metis append_Cons list.sel(1), auto)
    then show ?thesis
      using first hd_dropWhile [of p xs] Cons by auto
  qed simp
qed

lemma trim_trim [simp]: "trim (trim s) = trim s"
  unfolding trim_def by (subst dropWhile_rev_first) simp_all

lemma trim_space [simp]: "trim (CHR '' '' # s) = trim s"
  by (simp add: trim_def js_space_def)

lemma set_trim: "set (trim s) \<subseteq> set s"
proof
  fix x assume "x \<in> set (trim s)"
  then have "x \<in> set (dropWhile js_space (rev (dropWhile js_space s)))"
    by (simp add: trim_def)
  then have "x \<in> set (dropWhile js_space s)"
    using set_dropWhileD by fastforce
  then show "x \<in> set s"
    using set_dropWhileD by fastforce
qed

lemma split_at_parts: "p \<in> set (split_at c s) \<Longrightarrow> c \<notin> set p"
  by (induction s arbitrary: p) (auto split: if_splits list.splits)

definition scope_ok :: "string \<Rightarrow> bool" where
  "scope_ok t \<longleftrightarrow> t \<noteq> [] \<and> trim t = t \<and> CHR '','' \<notin> set t"

lemma parse_scopes_ok: "t \<in> set (parse_scopes s) \<Longrightarrow> scope_ok t"
  using split_at_parts set_trim by (fastforce simp: parse_scopes_def scope_ok_def)

lemma split_join: "\<forall>t \<in> set (t # ts). CHR '','' \<notin> set t \<Longrightarrow>
    split_at CHR '','' (join '', '' (t # ts)) = t # map (\<lambda>u. CHR '' '' # u) ts"
proof (induction ts arbitrary: t)
  case Nil
  then show ?case by (simp add: join_def split_at_absent)
next
  case (Cons u ts)
  have "join '', '' (t # u # ts) = t @ CHR '','' # (CHR '' '' # join '', '' (u # ts))"
    by (simp add: join_def)
  moreover have "split_at CHR '','' (CHR '' '' # join '', '' (u # ts)) = map (\<lambda>u. CHR '' '' # u) (u # ts)"
    using Cons.IH [of u] Cons.prems by simp
  ultimately show ?case
    using Cons.prems split_at_append_sep [of "CHR '',''" t] by simp
qed

lemma parse_join: "\<forall>t \<in> set ts. scope_ok t \<Longrightarrow> parse_scopes (join '', '' ts) = ts"
proof (cases ts)
  case Nil
  then show ?thesis by (simp add: parse_scopes_def join_def trim_def)
next
  case (Cons t us)
  assume ok: "\<forall>t \<in> set ts. scope_ok t"
  then have "map trim (split_at CHR '','' (join '', '' ts)) = map trim ts"
    using split_join [of t us] Cons by (simp add: scope_ok_def)
  also have "\<dots> = ts"
    using ok by (intro map_idI) (simp add: scope_ok_def)
  finally show ?thesis
    using ok by (simp add: parse_scopes_def scope_ok_def filter_id_conv)
qed

subsection \<open>Properties\<close>

text \<open>
  C35: the scopes sent for a key are well-formed whatever was typed (none empty, none with white
  space at its ends or with a comma), and text that lists well-formed scopes the way the table
  shows them gives exactly those scopes.
\<close>

theorem scopes_round_trip:
  "(\<exists>ts. keys_requests (submit_key name text s) = keys_requests s @ [createKey \<lparr>ck_name = name, ck_scopes = ts, ck_expires_at = None\<rparr>] \<and>
         (\<forall>t \<in> set ts. scope_ok t) \<and> parse_scopes (join '', '' ts) = ts) \<and>
   (list_all scope_ok us \<longrightarrow>
      keys_requests (submit_key name (join '', '' us) s) = keys_requests s @ [createKey \<lparr>ck_name = name, ck_scopes = us, ck_expires_at = None\<rparr>])"
  using parse_scopes_ok parse_join by (auto simp: submit_key_def list_all_iff)

theorem scopes_round_trip_witness:
  "keys_requests (submit_key ''k'' ''operator, viewer'' keys_mount)
     = [listKeys, createKey \<lparr>ck_name = ''k'', ck_scopes = [''operator'', ''viewer''], ck_expires_at = None\<rparr>]"
proof -
  have "list_all scope_ok [''operator'', ''viewer'']"
    by (simp add: scope_ok_def trim_def js_space_def)
  then have "keys_requests (submit_key ''k'' (join '', '' [''operator'', ''viewer'']) keys_mount)
      = keys_requests keys_mount @ [createKey \<lparr>ck_name = ''k'', ck_scopes = [''operator'', ''viewer''], ck_expires_at = None\<rparr>]"
    using scopes_round_trip [of "''k''" "[]" keys_mount "[''operator'', ''viewer'']"] by blast
  then show ?thesis
    by (simp add: join_def keys_mount_def keys_load_def)
qed

text \<open>The guide's texts in a view of the page, and the keys it offers to revoke.\<close>

definition guide_copies_in :: "keys_action node \<Rightarrow> string list" where
  "guide_copies_in v = copies (List.map_filter (\<lambda>a. case a of Guide g \<Rightarrow> Some g | _ \<Rightarrow> None) (actions v))"

definition revocable_in :: "keys_action node \<Rightarrow> string list" where
  "revocable_in v = List.map_filter (\<lambda>a. case a of RevokeKey i \<Rightarrow> Some i | _ \<Rightarrow> None) (actions v)"

lemma actions_rows: "concat (map (actions \<circ> key_row eng) ks)
    = map (\<lambda>k. RevokeKey (k_id k)) (filter (\<lambda>k. \<not> truthy_str (k_revoked_at k)) ks)"
  by (induction ks) (simp_all add: key_row_def td_def is_disabled_def)

lemma actions_CreateKeyModal:
  "concat (map actions (CreateKeyModal s)) = [CloseCreateKey, CloseCreateKey, SubmitKey]"
  by (simp add: CreateKeyModal_def Modal_def is_disabled_def show_if_def)

lemma actions_keys_content:
  "actions (keys_content eng cp s) =
     OpenCreateKey #
     (case newKey s of None \<Rightarrow> [] | Some k \<Rightarrow> map Guide (actions (SetupGuide cp (guide_tab s) (k_api_key k)))) @
     map (\<lambda>k. RevokeKey (k_id k)) (filter (\<lambda>k. \<not> truthy_str (k_revoked_at k)) (keys s)) @
     (if showCreateKey s then [CloseCreateKey, CloseCreateKey, SubmitKey] else [])"
  by (simp add: keys_content_def is_disabled_def actions_embed actions_CreateKeyModal actions_rows
      show_if_def split: option.split)

lemma guide_copies_view:
  "RoleGuard Admin True False auth = Inr True \<Longrightarrow> map_sum id guide_copies_in (ApiKeysPage_view eng auth cp s) =
     Inr (case newKey s of None \<Rightarrow> []
      | Some k \<Rightarrow> [k_api_key k, envBlock (k_api_key k), install (guide_tab s), quickstart (guide_tab s) (k_api_key k)])"
proof -
  have own: "List.map_filter (\<lambda>a. case a of Guide g \<Rightarrow> Some g | _ \<Rightarrow> None) (map Guide gs) = gs" for gs
    by (induction gs) simp_all
  have none: "List.map_filter (\<lambda>a. case a of Guide g \<Rightarrow> Some g | _ \<Rightarrow> None) (map (\<lambda>k. RevokeKey (h k)) ks) = []"
    for h :: "api_key \<Rightarrow> string" and ks
    by (induction ks) simp_all
  assume "RoleGuard Admin True False auth = Inr True"
  then have "ApiKeysPage_view eng auth cp s = Inr (keys_content eng cp s)"
    unfolding ApiKeysPage_view_def by (subst RoleGuard_cases) simp
  then show ?thesis
    by (simp add: guide_copies_in_def actions_keys_content own none guide_copies copies_def
        split: option.split) (metis copies_def guide_copies)
qed

lemma dismissed_stays:
  "newKey s = None \<Longrightarrow> newKey (foldl (\<lambda>s a. keys_dispatch b form a s) s as) = None"
proof (induction as arbitrary: s)
  case (Cons a as)
  then show ?case
    by (cases "(b, form, a, s)" rule: keys_dispatch.cases) (auto simp: submit_key_def revoke_def)
qed simp

text \<open>
  C36: a key that was created is shown once: to an administrator the guide offers, on either
  tab, the key itself, an environment line and a program that contain it; after the guide is
  dismissed no action of the operator brings it back.
\<close>

theorem new_key_shown_once:
  assumes "RoleGuard Admin True False auth = Inr True" and "s' = key_created n (Inr k) s"
  shows "map_sum id guide_copies_in (ApiKeysPage_view eng auth cp (keys_dispatch b form (Guide (GuideTab tab)) s'))
           = Inr [k_api_key k, envBlock (k_api_key k), install tab, quickstart tab (k_api_key k)] \<and>
         contains (k_api_key k) (envBlock (k_api_key k)) \<and>
         contains (k_api_key k) (quickstart tab (k_api_key k)) \<and>
         map_sum id guide_copies_in (ApiKeysPage_view eng auth cp
           (foldl (\<lambda>s a. keys_dispatch b form a s) (keys_dispatch b form (Guide DismissGuide) s') as)) = Inr []"
proof -
  have "newKey s' = Some k"
    by (simp add: assms(2) key_created_def keys_load_def)
  moreover have "newKey (foldl (\<lambda>s a. keys_dispatch b form a s) (keys_dispatch b form (Guide DismissGuide) s') as) = None"
    by (rule dismissed_stays) simp
  moreover have "contains (k_api_key k) (quickstart tab (k_api_key k))"
    by (cases tab) (simp_all add: quickstart_def contains_python contains_go)
  ultimately show ?thesis
    by (simp add: guide_copies_view [OF assms(1)] contains_envBlock)
qed

definition sample_key :: create_key_response where
  "sample_key = \<lparr>k_id = ''k1'', k_key_prefix = ''ssk'', k_org_id = ''o'', k_name = ''n'', k_scopes = [''viewer''],
     k_created_at = [], k_expires_at = None, k_revoked_at = None, k_last_used_at = None, k_api_key = ''ssk_1''\<rparr>"

theorem new_key_shown_once_witness:
  "map_sum id (hd \<circ> guide_copies_in) (ApiKeysPage_view demo_engine (signed_in_as ''admin'') (\<lambda>_. False)
     (keys_dispatch True ([], []) (Guide (GuideTab GoTab)) (key_created 1 (Inr sample_key) keys_mount))) = Inr ''ssk_1''"
proof -
  have "RoleGuard Admin True False (signed_in_as ''admin'') = Inr True"
    by (simp add: RoleGuard_def role_or_def signed_in_as_def auth_ops sample_user_def js_less_def
        ROLE_RANK_def Let_def)
  from new_key_shown_once [OF this, of "key_created 1 (Inr sample_key) keys_mount" 1 sample_key keys_mount
      demo_engine "\<lambda>_. False" True "([], [])" GoTab]
  have "map_sum id guide_copies_in (ApiKeysPage_view demo_engine (signed_in_as ''admin'') (\<lambda>_. False)
      (keys_dispatch True ([], []) (Guide (GuideTab GoTab)) (key_created 1 (Inr sample_key) keys_mount)))
    = Inr [k_api_key sample_key, envBlock (k_api_key sample_key), install GoTab, quickstart GoTab (k_api_key sample_key)]"
    by simp
  then have "map_sum id hd (map_sum id guide_copies_in (ApiKeysPage_view demo_engine (signed_in_as ''admin'')
      (\<lambda>_. False) (keys_dispatch True ([], []) (Guide (GuideTab GoTab))
        (key_created 1 (Inr sample_key) keys_mount)))) = Inr ''ssk_1''"
    by (simp add: sample_key_def)
  then show ?thesis
    by (simp add: sum.map_comp)
qed

text \<open>
  C37: the page offers to revoke exactly the keys that are not revoked to whom the role guard
  for administrators lets pass, and no key to anyone it stops: it stops a user without claims
  and those whose role is viewer or operator, and lets pass an administrator and, as it fails
  open, a user whose role is another string.  A revocation is sent only after it was confirmed.
\<close>

theorem revoke_only_live_keys:
  "map_sum id revocable_in (ApiKeysPage_view eng auth cp s)
     = map_sum id (\<lambda>pass. if pass then map k_id (filter (\<lambda>k. \<not> truthy_str (k_revoked_at k)) (keys s)) else [])
         (RoleGuard Admin True False auth) \<and>
   (auth_claims auth = None \<longrightarrow> map_sum id revocable_in (ApiKeysPage_view eng auth cp s) = Inr []) \<and>
   (\<forall>cl r. auth_claims auth = Some cl \<and> claim_role cl = JStr r \<longrightarrow>
      map_sum id revocable_in (ApiKeysPage_view eng auth cp s)
        = Inr (if r \<in> {''viewer'', ''operator''} then []
               else map k_id (filter (\<lambda>k. \<not> truthy_str (k_revoked_at k)) (keys s)))) \<and>
   keys_requests (keys_dispatch confirmed form (RevokeKey i) s)
     = keys_requests s @ (if confirmed then [revokeKey i] else [])"
proof -
  have own: "List.map_filter (\<lambda>a. case a of RevokeKey i \<Rightarrow> Some i | _ \<Rightarrow> None) (map (\<lambda>k. RevokeKey (k_id k)) ks)
      = map k_id ks" for ks :: "api_key list"
    by (induction ks) simp_all
  have none: "List.map_filter (\<lambda>a. case a of RevokeKey i \<Rightarrow> Some i | _ \<Rightarrow> None) (map Guide gs) = []" for gs
    by (induction gs) simp_all
  have "revocable_in (keys_content eng cp s) = map k_id (filter (\<lambda>k. \<not> truthy_str (k_revoked_at k)) (keys s))"
    by (simp add: revocable_in_def actions_keys_content own none split: option.split)
  then have offered: "map_sum id revocable_in (ApiKeysPage_view eng auth cp s)
     = map_sum id (\<lambda>pass. if pass then map k_id (filter (\<lambda>k. \<not> truthy_str (k_revoked_at k)) (keys s)) else [])
         (RoleGuard Admin True False auth)"
    unfolding ApiKeysPage_view_def
    by (subst RoleGuard_cases) (cases "RoleGuard Admin True False auth"; simp add: revocable_in_def is_disabled_def)
  have "RoleGuard Admin True False auth = Inr False" if "auth_claims auth = None"
    using that by (simp add: RoleGuard_def role_or_def js_less_def ROLE_RANK_def)
  moreover have "RoleGuard Admin True False auth = Inr (r \<notin> {''viewer'', ''operator''})"
    if "auth_claims auth = Some cl" "claim_role cl = JStr r" for cl r
    using that by (auto simp: RoleGuard_def role_or_def js_less_def ROLE_RANK_def)
  ultimately show ?thesis
    using offered by (auto simp: revoke_def)
qed

theorem revoke_only_live_keys_witness:
  "map_sum id revocable_in (ApiKeysPage_view demo_engine (signed_in_as ''operator'') (\<lambda>_. False) keys_mount) = Inr []"
proof -
  have claims: "auth_claims (signed_in_as ''operator'') = Some (parseClaims (sample_user ''operator''))"
    by (simp add: signed_in_as_def auth_ops)
  have role: "claim_role (parseClaims (sample_user ''operator'')) = JStr ''operator''"
    by (simp add: sample_user_def)
  from revoke_only_live_keys [of demo_engine "signed_in_as ''operator''" "\<lambda>_. False" keys_mount,
      THEN conjunct2, THEN conjunct2, THEN conjunct1] claims role
  have "map_sum id revocable_in (ApiKeysPage_view demo_engine (signed_in_as ''operator'') (\<lambda>_. False) keys_mount)
    = Inr (if ''operator'' \<in> {''viewer'', ''operator''} then []
           else map k_id (filter (\<lambda>k. \<not> truthy_str (k_revoked_at k)) (keys keys_mount)))"
    by blast
  then show ?thesis
    by (simp only: insert_iff simp_thms if_True)
qed

text \<open>
  A creation that ends late closes the wrong dialog: when the dialog that sent it was dismissed
  and another one has been opened, its success takes away the new one.
\<close>

theorem late_creation_closes_next_dialog:
  assumes "showCreateKey s"
  shows "\<exists>s'. runs keys_step s
      [KeysAct True form SubmitKey, KeysAct True form CloseCreateKey, KeysAct True form OpenCreateKey,
       KeysSettle (length (keys_pending s)) (KeyCreated (Inr k))] s' \<and>
      form_no s' = Suc (form_no s) \<and> \<not> showCreateKey s' \<and> newKey s' = Some k"
proof -
  let ?n = "length (keys_pending s)"
  let ?s1 = "keys_dispatch True form SubmitKey s"
  let ?s2 = "keys_dispatch True form CloseCreateKey ?s1"
  let ?s3 = "keys_dispatch True form OpenCreateKey ?s2"
  let ?s4 = "keys_answered (keys_pending ?s3 ! ?n) (KeyCreated (Inr k))
    (?s3\<lparr>keys_pending := remove_nth ?n (keys_pending ?s3)\<rparr>)"
  have p: "keys_pending ?s3 = keys_pending s @ [CreatingKey (form_no s)]" "form_no ?s3 = Suc (form_no s)"
    by (simp_all add: submit_key_def)
  have "keys_step s (KeysAct True form SubmitKey) ?s1" "keys_step ?s1 (KeysAct True form CloseCreateKey) ?s2"
    "keys_step ?s2 (KeysAct True form OpenCreateKey) ?s3"
    using assms by (intro keys_act; simp)+
  moreover have "keys_step ?s3 (KeysSettle ?n (KeyCreated (Inr k))) ?s4"
    by (rule keys_settle) (simp_all only: p, simp_all)
  moreover have "form_no ?s4 = Suc (form_no s)" "\<not> showCreateKey ?s4" "newKey ?s4 = Some k"
    unfolding p by (simp_all add: key_created_def keys_load_def submit_key_def)
  ultimately show ?thesis
    unfolding runs_Cons_iff runs_Nil_iff by blast
qed

theorem late_creation_closes_next_dialog_witness:
  "\<exists>s'. runs keys_step (keys_dispatch True ([], []) OpenCreateKey keys_mount)
      [KeysAct True (''k'', []) SubmitKey, KeysAct True (''k'', []) CloseCreateKey, KeysAct True (''k'', []) OpenCreateKey,
       KeysSettle 1 (KeyCreated (Inr sample_key))] s' \<and> \<not> showCreateKey s'"
proof -
  let ?s = "keys_dispatch True ([], []) OpenCreateKey keys_mount"
  have shown: "showCreateKey ?s" and one: "length (keys_pending ?s) = 1"
    by (simp_all add: keys_mount_def keys_load_def)
  show ?thesis
    using late_creation_closes_next_dialog [OF shown, of "(''k'', [])" sample_key] unfolding one
    by (elim exE conjE) (intro exI conjI)
qed

subsection \<open>Waiting for promises\<close>

datatype keys_flag = KeysSpinning | FormBusy nat

fun keys_waiting :: "keys_flag \<Rightarrow> keys_page \<Rightarrow> bool" where
  "keys_waiting KeysSpinning s = keys_loading s"
| "keys_waiting (FormBusy n) s = (form_loading s \<and> form_no s = n)"

fun keys_serves :: "keys_promise \<Rightarrow> keys_flag \<Rightarrow> nat option" where
  "keys_serves KeysLoading f = (if f = KeysSpinning then Some 0 else None)"
| "keys_serves (CreatingKey n) f = (if f = FormBusy n then Some 0 else None)"
| "keys_serves Revoking f = None"

fun keys_settling :: "keys_event \<Rightarrow> (nat \<times> keys_answer) option" where
  "keys_settling (KeysSettle i r) = Some (i, r)"
| "keys_settling (KeysAct confirmed form a) = None"

text \<open>Only a form that is there is busy.\<close>

definition form_inv :: "keys_page \<Rightarrow> bool" where
  "form_inv s \<longleftrightarrow> (form_loading s \<longrightarrow> showCreateKey s)"

lemmas keys_continuations = keys_settled_def key_created_def revoke_settled_def keys_load_def

lemma keys_answered_promises:
  "set (keys_pending s) \<subseteq> set (keys_pending (keys_answered p r s))"
  "keys_waiting w (keys_answered p r s) \<Longrightarrow> keys_waiting w s"
  "form_inv s \<Longrightarrow> form_inv (keys_answered p r s)"
  by (cases "(p, r, s)" rule: keys_answered.cases; cases w;
      auto simp: keys_continuations form_inv_def Let_def split: sum.splits if_splits)+

lemma keys_answered_serves:
  assumes "form_inv s" and "keys_answers p r" and "keys_serves p w = Some n" and "keys_waiting w (keys_answered p r s)"
  shows "\<exists>q \<in> set (keys_pending (keys_answered p r s)). \<exists>m < n. keys_serves q w = Some m"
  using assms
  by (cases "(p, r, s)" rule: keys_answered.cases; cases w)
    (auto simp: keys_continuations form_inv_def Let_def split: sum.splits if_splits)

lemma keys_other:
  assumes "keys_step s (KeysAct b form a) s'"
  shows "set (keys_pending s) \<subseteq> set (keys_pending s') \<and>
    (form_inv s \<longrightarrow> form_inv s' \<and> (\<forall>w. keys_waiting w s' \<longrightarrow>
      keys_waiting w s \<or> (\<exists>p \<in> set (keys_pending s'). keys_serves p w \<noteq> None)))"
proof -
  have "form_inv s \<Longrightarrow> keys_waiting w s' \<Longrightarrow>
      keys_waiting w s \<or> (\<exists>p \<in> set (keys_pending s'). keys_serves p w \<noteq> None)" for w
    using assms by (cases "(b, form, a, s)" rule: keys_dispatch.cases; cases w)
      (auto simp: submit_key_def revoke_def form_inv_def split: if_splits)
  moreover have "set (keys_pending s) \<subseteq> set (keys_pending s') \<and> (form_inv s \<longrightarrow> form_inv s')"
    using assms by (cases "(b, form, a, s)" rule: keys_dispatch.cases)
      (auto simp: submit_key_def revoke_def form_inv_def)
  ultimately show ?thesis by blast
qed

interpretation keys: promise_page keys_step keys_settling keys_pending
    "\<lambda>i s. s\<lparr>keys_pending := remove_nth i (keys_pending s)\<rparr>" keys_answers keys_answered
    form_inv keys_waiting keys_serves
proof unfold_locales
  show "\<exists>e. keys_settling e = Some (i, r)" for i r
    by (rule exI [of _ "KeysSettle i r"]) simp
  show "\<exists>r. keys_answers p r" for p
    by (cases p) (auto intro: exI [of _ "KeysListed (Inr None)"] exI [of _ "KeyCreated (Inl [])"]
      exI [of _ "KeyRevoked (Inr ())"])
  show "keys_step s e s' \<longleftrightarrow> i < length (keys_pending s) \<and> keys_answers (keys_pending s ! i) r \<and>
      s' = keys_answered (keys_pending s ! i) r (s\<lparr>keys_pending := remove_nth i (keys_pending s)\<rparr>)"
    if "keys_settling e = Some (i, r)" for s e s' i r
    using that by (cases e) (auto simp: keys_step_settle)
  show "keys_waiting w (s\<lparr>keys_pending := remove_nth i (keys_pending s)\<rparr>) = keys_waiting w s" for w s i
    by (cases w) simp_all
  show "set (keys_pending s) \<subseteq> set (keys_pending s')" if "keys_settling e = None" "keys_step s e s'" for s e s'
    using that(1) keys_other that(2) by (cases e) (blast, simp)
  show "keys_waiting w s \<or> (\<exists>p \<in> set (keys_pending s'). keys_serves p w \<noteq> None)"
    if "keys_settling e = None" "form_inv s" "keys_step s e s'" "keys_waiting w s'" for s e s' w
    using that(1) keys_other that(2-) by (cases e) (blast, simp)
  show "form_inv s'" if "keys_settling e = None" "form_inv s" "keys_step s e s'" for s e s'
    using that(1) keys_other that(2-) by (cases e) (blast, simp)
qed (use keys_answered_promises keys_answered_serves in \<open>simp_all add: form_inv_def\<close>)

text \<open>
  The keys page never waits forever: whatever the administrator does and in whatever order
  requests end, one more settling ends the spinner, one makes the button of the dialog shown
  available again, and with no request in flight neither is waiting.
\<close>

theorem keys_waiting_ends:
  assumes "runs keys_step keys_mount es s"
  shows "down_within 1 (settles keys_settling keys_step) keys_loading s \<and>
         down_within 1 (settles keys_settling keys_step) (\<lambda>u. form_loading u \<and> form_no u = form_no s) s \<and>
         (keys_pending s = [] \<longrightarrow> \<not> keys_loading s \<and> \<not> form_loading s)"
proof -
  have "keys.served keys_mount"
    unfolding keys.served_def keys_mount_def keys_load_def form_inv_def by (auto elim: keys_waiting.elims)
  then have served: "keys.served s"
    using assms keys.served_runs by blast
  have flags: "keys_waiting KeysSpinning = keys_loading"
    "keys_waiting (FormBusy (form_no s)) = (\<lambda>u. form_loading u \<and> form_no u = form_no s)"
    by (rule ext, simp)+
  have "keys_serves p f = Some m \<Longrightarrow> m < 1" for p m f
    by (cases p) (simp_all split: if_splits)
  then have "down_within 1 (settles keys_settling keys_step) (keys_waiting f) s" for f
    by (rule keys.served_clears [OF served])
  from this [of KeysSpinning] this [of "FormBusy (form_no s)"] show ?thesis
    using keys.nothing_left [OF served, of KeysSpinning] keys.nothing_left [OF served, of "FormBusy (form_no s)"]
    unfolding flags by blast
qed

theorem keys_waiting_ends_witness:
  "down_within 1 (settles keys_settling keys_step) keys_loading keys_mount \<and> keys_loading keys_mount"
  using keys_waiting_ends [OF runs_Nil] by (simp add: keys_mount_def keys_load_def)

end
