(* ===== verification/Dashboard.thy ===== *)
theory Dashboard
  imports App ApiKeysPage
begin

section \<open>The whole dashboard: router, guards, session, pages and socket together\<close>

text \<open>
  The composition of the components: \<open>App\<close> with its router and guards decides which page is
  mounted, pages load and navigate, responses and the identity provider change the session,
  and the project page subscribes.  The state has the path in the address bar, the mounted
  sign-in guard (an instance number and its \<open>checked\<close>), its session lookups in flight, the
  callback page's exchanges in flight, the mounted page, and the world of the WebSocket
  manager with the stores.  After every change of the path or the session the tree is
  rendered again: pages are unmounted and mounted, redirects are followed.

  The parameter a path matches is read by \<open>route_param\<close>, react-router's, like \<open>route_match\<close>.
\<close>

datatype screen =
    OnLogin
  | OnCallback
  | OnHome home_page
  | OnProject page_world
  | OnTeam team_page
  | OnKeys keys_page
  | OnSpinner
  | OnBlank
  | OnError js_error

record dashboard =
  location :: string
  guard :: "(nat \<times> bool) option"
  guards :: nat
  lookups :: "nat list"
  exchanges :: nat
  screen :: screen
  dash_world :: world

abbreviation session :: "dashboard \<Rightarrow> auth_state" where
  "session d \<equiv> store_auth (dash_world d)"

text \<open>A mounted project page sees the one world there is.\<close>

definition put_world :: "world \<Rightarrow> dashboard \<Rightarrow> dashboard" where
  "put_world w d =
     d\<lparr>dash_world := w,
       screen := (case screen d of OnProject p \<Rightarrow> OnProject (p\<lparr>net := w\<rparr>) | x \<Rightarrow> x)\<rparr>"

definition put_session :: "auth_state \<Rightarrow> dashboard \<Rightarrow> dashboard" where
  "put_session s d = put_world ((dash_world d)\<lparr>store_auth := s\<rparr>) d"

subsection \<open>Mounting and unmounting\<close>

text \<open>The elements from the outermost layout to the page that a path renders.\<close>

definition chain_of :: "(string list \<Rightarrow> string \<Rightarrow> string option) \<Rightarrow> string \<Rightarrow> element list" where
  "chain_of route_match path =
     (case route_match (map fst route_table) path of
        None \<Rightarrow> []
      | Some pattern \<Rightarrow> (case map_of route_table pattern of None \<Rightarrow> [] | Some chain \<Rightarrow> chain))"

definition is_checked :: "dashboard \<Rightarrow> bool" where
  "is_checked d = (case guard d of None \<Rightarrow> False | Some (k, b) \<Rightarrow> b)"

text \<open>
  The layout route of the guard keeps its instance while the path stays below it; a new
  instance looks up the stored session.
\<close>

definition place_guard :: "(string list \<Rightarrow> string \<Rightarrow> string option) \<Rightarrow> dashboard \<Rightarrow> dashboard" where
  "place_guard route_match d =
     (if AuthGuardElement \<notin> set (chain_of route_match (location d)) then d\<lparr>guard := None\<rparr>
      else if guard d = None then
        d\<lparr>guard := Some (guards d, False), guards := guards d + 1, lookups := lookups d @ [guards d]\<rparr>
      else d)"

definition leave :: "ws_config \<Rightarrow> dashboard \<Rightarrow> dashboard" where
  "leave c d =
     (case screen d of
        OnProject p \<Rightarrow> d\<lparr>screen := OnBlank, dash_world := net (page_unmount c p)\<rparr>
      | _ \<Rightarrow> d\<lparr>screen := OnBlank\<rparr>)"

text \<open>The page of the path: the one that is mounted if it is that page, or else a new one.\<close>

definition enter :: "ws_config \<Rightarrow> screen \<Rightarrow> dashboard \<Rightarrow> dashboard" where
  "enter c new d = (leave c d)\<lparr>screen := new\<rparr>"

fun show_page ::
  "ws_config \<Rightarrow> (string \<Rightarrow> string option) \<Rightarrow> page \<Rightarrow> dashboard \<Rightarrow> dashboard" where
  "show_page c route_param LoginPage d = enter c OnLogin d"
| "show_page c route_param AuthCallbackPage d =
     (case screen d of
        OnCallback \<Rightarrow> d
      | _ \<Rightarrow> (enter c OnCallback d)\<lparr>exchanges := exchanges d + 1\<rparr>)"
| "show_page c route_param HomePage d =
     (case screen d of OnHome h \<Rightarrow> d | _ \<Rightarrow> enter c (OnHome (home_mount (session d))) d)"
| "show_page c route_param ProjectPage d =
     (let name = route_param (location d)
      in case screen d of
           OnProject p \<Rightarrow>
             if name = page_name p then d
             else d\<lparr>screen := OnProject (loadDevices name False (p\<lparr>page_name := name\<rparr>))\<rparr>
         | _ \<Rightarrow> d\<lparr>screen := OnProject (page_mount name (dash_world d))\<rparr>)"
| "show_page c route_param TeamPage d =
     (case screen d of OnTeam t \<Rightarrow> d | _ \<Rightarrow> enter c (OnTeam team_mount) d)"
| "show_page c route_param ApiKeysPage d =
     (case screen d of OnKeys k \<Rightarrow> d | _ \<Rightarrow> enter c (OnKeys keys_mount) d)"

text \<open>
  Rendering after a change; a redirect unmounts the page and renders again at its target.  The
  fuel bounds the redirects followed.
\<close>

fun place ::
  "ws_config \<Rightarrow> (string list \<Rightarrow> string \<Rightarrow> string option) \<Rightarrow> (string \<Rightarrow> string option) \<Rightarrow>
     nat \<Rightarrow> dashboard \<Rightarrow> dashboard" where
  "place c route_match route_param 0 d = leave c d"
| "place c route_match route_param (Suc n) d =
     (let d1 = place_guard route_match d
      in case App route_match (is_checked d1) (session d1) (location d1) of
           Redirect u \<Rightarrow> place c route_match route_param n ((leave c d1)\<lparr>location := u\<rparr>)
         | Rendered p \<Rightarrow> show_page c route_param p d1
         | Spinner \<Rightarrow> enter c OnSpinner d1
         | Blank \<Rightarrow> leave c d1
         | Raised e \<Rightarrow> enter c (OnError e) d1)"

definition rerender ::
  "ws_config \<Rightarrow> (string list \<Rightarrow> string \<Rightarrow> string option) \<Rightarrow> (string \<Rightarrow> string option) \<Rightarrow>
     dashboard \<Rightarrow> dashboard" where
  "rerender c route_match route_param d = place c route_match route_param 3 d"

definition dash_start ::
  "ws_config \<Rightarrow> (string list \<Rightarrow> string \<Rightarrow> string option) \<Rightarrow> (string \<Rightarrow> string option) \<Rightarrow>
     string \<Rightarrow> dashboard" where
  "dash_start c route_match route_param path =
     rerender c route_match route_param
       \<lparr>location = path, guard = None, guards = 0, lookups = [], exchanges = 0, screen = OnBlank,
        dash_world = world_init\<rparr>"

subsection \<open>Events\<close>

text \<open>
  \<open>Response\<close> is the status of a response to any request, as the hook of the HTTP clients sees
  it; the promise of the request settles in an event of its page.
\<close>

datatype dash_event =
    Goto string
  | Session auth_event
  | Response nat
  | LookupDone nat "js_error + oidc_user option"
  | CallbackDone "js_error + oidc_user"
  | Net ws_event
  | ProjectDoes page_event
  | HomeActs home_action
  | HomeSettles nat home_answer
  | TeamDoes team_event
  | KeysDoes keys_event

text \<open>
  Calls of \<open>navigate\<close> are logged by the pages; the last one of a step is followed.  What follows
  a question mark or a number sign is not a part of the path.
\<close>

definition pathname :: "string \<Rightarrow> string" where
  "pathname target = takeWhile (\<lambda>c. c \<noteq> CHR ''?'' \<and> c \<noteq> CHR ''#'') target"

definition follow :: "string list \<Rightarrow> string list \<Rightarrow> string \<Rightarrow> string" where
  "follow before after path = (if length before < length after then pathname (last after) else path)"

fun session_event :: "ws_event \<Rightarrow> bool" where
  "session_event (AuthEvent e) = True"
| "session_event e = False"

fun page_own_event :: "page_event \<Rightarrow> bool" where
  "page_own_event (FrameFired h) = True"
| "page_own_event (Act a) = True"
| "page_own_event (Settle i r) = True"
| "page_own_event e = False"

fun promised :: "auth_event \<Rightarrow> bool" where
  "promised (CallbackSettled r) = True"
| "promised (GetUserSettled r) = True"
| "promised e = False"

definition lookup_done :: "nat \<Rightarrow> js_error + oidc_user option \<Rightarrow> dashboard \<Rightarrow> dashboard" where
  "lookup_done i r d =
     (let (checked, s) = AuthGuard_checked r (session d);
          k = lookups d ! i;
          d1 = put_session s (d\<lparr>lookups := remove_nth i (lookups d)\<rparr>)
      in case guard d1 of
           None \<Rightarrow> d1
         | Some (k', b) \<Rightarrow> if k' = k then d1\<lparr>guard := Some (k', checked)\<rparr> else d1)"

definition callback_done :: "js_error + oidc_user \<Rightarrow> dashboard \<Rightarrow> dashboard" where
  "callback_done r d =
     (let (s, path) = callback_settled r (session d)
      in (put_session s d)\<lparr>exchanges := exchanges d - 1, location := path\<rparr>)"

inductive dash_step ::
  "ws_config \<Rightarrow> (string list \<Rightarrow> string \<Rightarrow> string option) \<Rightarrow> (string \<Rightarrow> string option) \<Rightarrow>
     dashboard \<Rightarrow> dash_event \<Rightarrow> dashboard \<Rightarrow> bool"
  for c :: ws_config and rm :: "string list \<Rightarrow> string \<Rightarrow> string option"
    and rp :: "string \<Rightarrow> string option"
where
  dash_goto: "dash_step c rm rp d (Goto u) (rerender c rm rp (d\<lparr>location := pathname u\<rparr>))"
| dash_session: "\<not> promised e \<Longrightarrow>
    dash_step c rm rp d (Session e) (rerender c rm rp (put_session (auth_step (session d) e) d))"
| dash_response: "dash_step c rm rp d (Response code)
    (rerender c rm rp (put_session (afterResponse code (session d)) d))"
| dash_lookup: "i < length (lookups d) \<Longrightarrow>
    dash_step c rm rp d (LookupDone i r) (rerender c rm rp (lookup_done i r d))"
| dash_callback: "0 < exchanges d \<Longrightarrow>
    dash_step c rm rp d (CallbackDone r) (rerender c rm rp (callback_done r d))"
| dash_net: "ws_step c (dash_world d) e w \<Longrightarrow> \<not> subscription_event e \<Longrightarrow> \<not> session_event e \<Longrightarrow>
    dash_step c rm rp d (Net e) (put_world w d)"
| dash_project: "screen d = OnProject p \<Longrightarrow> page_own_event e \<Longrightarrow> page_step c p e p' \<Longrightarrow>
    dash_step c rm rp d (ProjectDoes e)
      (rerender c rm rp (d\<lparr>screen := OnProject p', dash_world := net p',
                            location := follow (navigated p) (navigated p') (location d)\<rparr>))"
| dash_home: "screen d = OnHome h \<Longrightarrow> home_step h (HomeAct (session d) a) h' \<Longrightarrow>
    dash_step c rm rp d (HomeActs a)
      (rerender c rm rp (d\<lparr>screen := OnHome h',
                            location := follow (home_navigated h) (home_navigated h') (location d)\<rparr>))"
| dash_home_settle: "screen d = OnHome h \<Longrightarrow> home_step h (HomeSettle i (session d) r) h' \<Longrightarrow>
    dash_step c rm rp d (HomeSettles i r) (d\<lparr>screen := OnHome h'\<rparr>)"
| dash_team: "screen d = OnTeam t \<Longrightarrow> team_step t e t' \<Longrightarrow>
    dash_step c rm rp d (TeamDoes e) (d\<lparr>screen := OnTeam t'\<rparr>)"
| dash_keys: "screen d = OnKeys k \<Longrightarrow> keys_step k e k' \<Longrightarrow>
    dash_step c rm rp d (KeysDoes e) (d\<lparr>screen := OnKeys k'\<rparr>)"

inductive_simps dash_step_response [simp]: "dash_step c rm rp d (Response code) d'"
inductive_simps dash_step_goto [simp]: "dash_step c rm rp d (Goto u) d'"
inductive_simps dash_step_lookup: "dash_step c rm rp d (LookupDone i r) d'"

end
