(* ===== verification/DashboardBehaviour.thy ===== *)
theory DashboardBehaviour
  imports Dashboard
begin

section \<open>What the dashboard as a whole guarantees\<close>

text \<open>
  The invariant of the composition, kept by every event: the page mounted is the one the router
  and the guards answer for the path, the session and the guard's state, and nothing is
  subscribed except by a mounted project page, which is subscribed to its devices.  It rests
  on the invariant of the project page and on that of the WebSocket manager.
\<close>

subsection \<open>The invariant\<close>

definition dash_world_inv :: "ws_config \<Rightarrow> dashboard \<Rightarrow> bool" where
  "dash_world_inv c d \<longleftrightarrow>
     reachable c (dash_world d) \<and>
     (case screen d of
        OnProject p \<Rightarrow> feed_inv c p \<and> net p = dash_world d
      | _ \<Rightarrow> subscribedIds (dash_world d) = [])"

fun screen_outcome :: "screen \<Rightarrow> outcome" where
  "screen_outcome OnLogin = Rendered LoginPage"
| "screen_outcome OnCallback = Rendered AuthCallbackPage"
| "screen_outcome (OnHome h) = Rendered HomePage"
| "screen_outcome (OnProject p) = Rendered ProjectPage"
| "screen_outcome (OnTeam t) = Rendered TeamPage"
| "screen_outcome (OnKeys k) = Rendered ApiKeysPage"
| "screen_outcome OnSpinner = Spinner"
| "screen_outcome OnBlank = Blank"
| "screen_outcome (OnError e) = Raised e"

definition guarded :: "(string list \<Rightarrow> string \<Rightarrow> string option) \<Rightarrow> string \<Rightarrow> bool" where
  "guarded rm path \<longleftrightarrow> AuthGuardElement \<in> set (chain_of rm path)"

definition routed :: "(string list \<Rightarrow> string \<Rightarrow> string option) \<Rightarrow> dashboard \<Rightarrow> bool" where
  "routed rm d \<longleftrightarrow>
     (guard d \<noteq> None) = guarded rm (location d) \<and>
     App rm (is_checked d) (session d) (location d) = screen_outcome (screen d)"

definition dash_inv :: "ws_config \<Rightarrow> (string list \<Rightarrow> string \<Rightarrow> string option) \<Rightarrow> dashboard \<Rightarrow> bool" where
  "dash_inv c rm d \<longleftrightarrow> dash_world_inv c d \<and> routed rm d"

subsection \<open>Changing the world and the session\<close>

lemma store_auth_ops [simp]:
  "store_auth (teardown w) = store_auth w" "store_auth (reconnect c w) = store_auth w"
proof -
  have parts: "store_auth (clearRetryTimer w) = store_auth w" "store_auth (setStatus st w) = store_auth w"
    "store_auth (drop_socket i w) = store_auth w" "store_auth (open_socket c w) = store_auth w" for st i w
    by (simp_all add: clearRetryTimer_def clear_timer_def setStatus_def drop_socket_def ws_close_def
        set_ready_def null_onclose_def open_socket_def Let_def split: option.split)
  show "store_auth (teardown w) = store_auth w"
    by (simp add: teardown_def parts Let_def split: option.split)
  show "store_auth (reconnect c w) = store_auth w"
    by (simp add: reconnect_def detach_def parts Let_def split: option.split)
qed

lemma store_auth_calls [simp]: "store_auth (unsubscribe_all c ids w) = store_auth w"
  by (induction ids arbitrary: w) (simp_all add: unsubscribe_all_def unsubscribe_def Let_def)

lemma put_world_inv:
  assumes "dash_world_inv c d" and "reachable c w" and "set (subscribedIds w) = set (subscribedIds (dash_world d))"
  shows "dash_world_inv c (put_world w d)"
  using assms by (auto simp: dash_world_inv_def put_world_def feed_inv_def loop_inv_def split: screen.splits)

lemma put_auth_inv: "dash_world_inv c d \<Longrightarrow> dash_world_inv c (put_session (auth_step (session d) e) d)"
  unfolding put_session_def
  using reachable_step [OF _ step_auth] by (intro put_world_inv) (auto simp: dash_world_inv_def)

lemma put_same_inv: "dash_world_inv c d \<Longrightarrow> dash_world_inv c (put_session (session d) d)"
  unfolding put_session_def by (intro put_world_inv) (simp_all add: dash_world_inv_def)

lemma put_session_fields [simp]:
  "session (put_session s d) = s" "location (put_session s d) = location d"
  "guard (put_session s d) = guard d" "lookups (put_session s d) = lookups d"
  by (simp_all add: put_session_def put_world_def)

lemma dash_world_inv_cong:
  "screen d' = screen d \<Longrightarrow> dash_world d' = dash_world d \<Longrightarrow> dash_world_inv c d' = dash_world_inv c d"
  by (cases "screen d") (simp_all add: dash_world_inv_def)

subsection \<open>Rendering\<close>

lemma App_chain: "App rm b s path = render_chain b s (chain_of rm path)"
  by (simp add: App_def chain_of_def split: option.split)

lemma leave_spec:
  assumes "dash_world_inv c d"
  shows "dash_world_inv c (leave c d) \<and> subscribedIds (dash_world (leave c d)) = [] \<and>
         reachable c (dash_world (leave c d))"
proof (cases "screen d")
  case (OnProject p)
  with assms have "feed_inv c p" by (simp add: dash_world_inv_def)
  then show ?thesis
    using cleanup_spec OnProject by (simp add: leave_def page_unmount_def dash_world_inv_def)
qed (use assms in \<open>simp_all add: leave_def dash_world_inv_def\<close>)

lemma leave_fields [simp]:
  "location (leave c d) = location d" "guard (leave c d) = guard d" "screen (leave c d) = OnBlank"
  "lookups (leave c d) = lookups d"
  by (simp_all add: leave_def split: screen.split)

lemma leave_session: "dash_world_inv c d \<Longrightarrow> session (leave c d) = session d"
  by (auto simp: leave_def dash_world_inv_def page_unmount_def feed_cleanup_def cancel_frame_def Let_def
      split: screen.split)

lemma place_guard_fields [simp]:
  "location (place_guard rm d) = location d" "screen (place_guard rm d) = screen d"
  "dash_world (place_guard rm d) = dash_world d" "exchanges (place_guard rm d) = exchanges d"
  by (simp_all add: place_guard_def)

lemma place_guard_guard: "(guard (place_guard rm d) \<noteq> None) = guarded rm (location d)"
  by (auto simp: place_guard_def guarded_def)

lemma place_guard_inv [simp]: "dash_world_inv c (place_guard rm d) = dash_world_inv c d"
  by (rule dash_world_inv_cong) simp_all

text \<open>What entering a page does: nothing to the path, the guard or the session.\<close>

definition entered :: "ws_config \<Rightarrow> dashboard \<Rightarrow> dashboard \<Rightarrow> bool" where
  "entered c d d' \<longleftrightarrow>
     dash_world_inv c d' \<and> session d' = session d \<and> location d' = location d \<and> guard d' = guard d"

lemma enter_spec:
  assumes "dash_world_inv c d" and "\<And>p. new \<noteq> OnProject p"
  shows "entered c d (enter c new d)"
  using leave_spec [OF assms(1)] leave_session [OF assms(1)] assms(2)
  by (cases new) (auto simp: enter_def entered_def dash_world_inv_def)

lemma leave_entered: "dash_world_inv c d \<Longrightarrow> entered c d (leave c d)"
  using leave_spec leave_session by (simp add: entered_def)

lemma mount_feed_inv: "reachable c w \<Longrightarrow> subscribedIds w = [] \<Longrightarrow> feed_inv c (page_mount name w)"
  by (simp add: page_mount_def feed_inv_def loop_inv_def loadDevices_def)

lemma renamed_feed_inv: "feed_inv c (loadDevices m b (p\<lparr>page_name := n\<rparr>)) = feed_inv c p"
  by (rule feed_inv_cong) simp_all

lemma show_page_spec:
  assumes "dash_world_inv c d"
  shows "entered c d (show_page c rp p d) \<and> screen_outcome (screen (show_page c rp p d)) = Rendered p"
proof (cases p)
  case LoginPage
  then show ?thesis using enter_spec [OF assms, of OnLogin] by (simp add: enter_def)
next
  case AuthCallbackPage
  then show ?thesis
    using assms enter_spec [OF assms, of OnCallback]
    by (auto simp: entered_def enter_def dash_world_inv_def split: screen.split)
next
  case HomePage
  then show ?thesis
    using assms enter_spec [OF assms, of "OnHome (home_mount (session d))"]
    by (auto simp: entered_def enter_def split: screen.split)
next
  case ProjectPage
  then show ?thesis
    using assms mount_feed_inv [of c "dash_world d"]
    by (auto simp: entered_def dash_world_inv_def Let_def renamed_feed_inv net_page_mount split: screen.split)
next
  case TeamPage
  then show ?thesis
    using assms enter_spec [OF assms, of "OnTeam team_mount"]
    by (auto simp: entered_def enter_def split: screen.split)
next
  case ApiKeysPage
  then show ?thesis
    using assms enter_spec [OF assms, of "OnKeys keys_mount"]
    by (auto simp: entered_def enter_def split: screen.split)
qed

text \<open>Rendering keeps the invariant of the world and, however many redirects, the session.\<close>

lemma place_inv:
  "dash_world_inv c d \<Longrightarrow>
     dash_world_inv c (place c rm rp n d) \<and> session (place c rm rp n d) = session d"
proof (induction n arbitrary: d)
  case 0
  then show ?case using leave_spec leave_session by simp
next
  case (Suc n)
  let ?d1 = "place_guard rm d"
  have d1: "dash_world_inv c ?d1" using Suc.prems by simp
  show ?case
  proof (cases "App rm (is_checked ?d1) (session ?d1) (location ?d1)")
    case (Rendered p)
    then show ?thesis using show_page_spec [OF d1] by (simp add: Let_def entered_def)
  next
    case (Redirect u)
    have "dash_world_inv c ((leave c ?d1)\<lparr>location := u\<rparr>)"
      using leave_spec [OF d1] dash_world_inv_cong [of "(leave c ?d1)\<lparr>location := u\<rparr>" "leave c ?d1" c] by simp
    from Suc.IH [OF this] show ?thesis
      using Redirect leave_session [OF d1] by (simp add: Let_def)
  next
    case Spinner
    then show ?thesis using enter_spec [OF d1] by (simp add: Let_def entered_def)
  next
    case Blank
    then show ?thesis using leave_entered [OF d1] by (simp add: Let_def entered_def)
  next
    case (Raised e)
    then show ?thesis using enter_spec [OF d1] by (simp add: Let_def entered_def)
  qed
qed

lemma place_entered:
  assumes "dash_world_inv c d"
    and "\<forall>u. App rm (is_checked (place_guard rm d)) (session d) (location d) \<noteq> Redirect u"
  shows "entered c (place_guard rm d) (place c rm rp (Suc n) d) \<and>
         screen_outcome (screen (place c rm rp (Suc n) d))
           = App rm (is_checked (place_guard rm d)) (session d) (location d)"
proof -
  let ?d1 = "place_guard rm d"
  have d1: "dash_world_inv c ?d1" using assms(1) by simp
  have "entered c ?d1 (enter c (OnError e) ?d1)" for e
    using enter_spec [OF d1, of "OnError e"] by simp
  then show ?thesis
    using assms(2) show_page_spec [OF d1, of rp] enter_spec [OF d1, of OnSpinner] leave_entered [OF d1]
    by (cases "App rm (is_checked ?d1) (session d) (location d)") (simp_all add: Let_def enter_def)
qed

lemma place_shown:
  assumes "dash_world_inv c d"
    and "\<forall>u. App rm (is_checked (place_guard rm d)) (session d) (location d) \<noteq> Redirect u"
  shows "routed rm (place c rm rp (Suc n) d)"
  using place_entered [OF assms, of rp n] place_guard_guard [of rm d]
  by (simp add: routed_def entered_def is_checked_def)

lemma place_redirect:
  assumes "App rm (is_checked (place_guard rm d)) (session d) (location d) = Redirect u"
  shows "place c rm rp (Suc n) d = place c rm rp n ((leave c (place_guard rm d))\<lparr>location := u\<rparr>)"
  using assms by (simp add: Let_def)

lemma redirected_inv: "dash_world_inv c d \<Longrightarrow> dash_world_inv c ((leave c (place_guard rm d))\<lparr>location := u\<rparr>)"
  using leave_spec [of c "place_guard rm d"]
    dash_world_inv_cong [of "(leave c (place_guard rm d))\<lparr>location := u\<rparr>" "leave c (place_guard rm d)" c] by simp

lemma place_login:
  "documented_match rm \<Longrightarrow> dash_world_inv c d \<Longrightarrow> location d = ''/login'' \<Longrightarrow> routed rm (place c rm rp (Suc n) d)"
  by (rule place_shown) (simp_all add: App_login)

lemma place_home:
  assumes "documented_match rm" and "dash_world_inv c d" and "location d = ''/''"
  shows "routed rm (place c rm rp (Suc (Suc n)) d)"
proof (cases "App rm (is_checked (place_guard rm d)) (session d) (location d) = Redirect ''/login''")
  case True
  show ?thesis
    unfolding place_redirect [OF True] by (rule place_login [OF assms(1) redirected_inv [OF assms(2)]]) simp
next
  case False
  then have "\<forall>u. App rm (is_checked (place_guard rm d)) (session d) (location d) \<noteq> Redirect u"
    by (auto simp: assms(3) App_home [OF assms(1)] AuthGuard_def split: if_splits)
  then show ?thesis
    by (rule place_shown [OF assms(2)])
qed

lemma rerender_inv:
  assumes "documented_match rm" and "dash_world_inv c d"
  shows "dash_inv c rm (rerender c rm rp d) \<and> session (rerender c rm rp d) = session d"
proof -
  let ?out = "App rm (is_checked (place_guard rm d)) (session d) (location d)"
  have step: "?out = Redirect u \<Longrightarrow> place c rm rp 3 d = place c rm rp (Suc (Suc 0)) ((leave c (place_guard rm d))\<lparr>location := u\<rparr>)"
    for u
    using place_redirect [of rm d u c rp "Suc (Suc 0)"] by (simp only: numeral_3_eq_3)
  have "routed rm (place c rm rp 3 d)"
  proof (cases "\<exists>u. ?out = Redirect u")
    case True
    then obtain u where u: "?out = Redirect u" by blast
    then have "u = ''/'' \<or> u = ''/login''"
      using App_outcome [of rm "is_checked (place_guard rm d)" "session d" "location d"] by auto
    then show ?thesis
    proof
      assume home: "u = ''/''"
      show ?thesis
        unfolding step [OF u] by (rule place_home [OF assms(1) redirected_inv [OF assms(2)]]) (simp add: home)
    next
      assume login: "u = ''/login''"
      show ?thesis
        unfolding step [OF u] by (rule place_login [OF assms(1) redirected_inv [OF assms(2)]]) (simp add: login)
    qed
  next
    case False
    then show ?thesis
      unfolding numeral_3_eq_3 by (intro place_shown [OF assms(2)]) blast
  qed
  then show ?thesis
    using place_inv [OF assms(2)] by (simp add: dash_inv_def rerender_def)
qed

subsection \<open>Every event keeps the invariant\<close>

lemma ws_step_auth:
  assumes "ws_step c w e w'" and "\<not> session_event e"
  shows "store_auth w' = store_auth w"
proof -
  have parts: "store_auth (clear_timer t u) = store_auth u" "store_auth (setStatus st u) = store_auth u"
    "store_auth (set_ready i r u) = store_auth u" "store_auth (open_socket c u) = store_auth u"
    "store_auth (scheduleReconnect u) = store_auth u" "store_auth (ws_send i m u) = store_auth u"
    "store_auth (raise_uncaught x u) = store_auth u" for t st i r m x u
    by (simp_all add: clear_timer_def setStatus_def set_ready_def open_socket_def scheduleReconnect_def
        ws_send_def raise_uncaught_def Let_def split: ready_state.split)
  have "store_auth (handle_message c d u) = store_auth u" for d u
    by (simp add: handle_message_def parts split: msg_data.split option.split sum.split)
  moreover have calls: "store_auth (detach u) = store_auth u" "store_auth (teardown u) = store_auth u" for u
    by (simp_all add: detach_def teardown_def clearRetryTimer_def drop_socket_def ws_close_def null_onclose_def
        parts Let_def split: option.split)
  moreover have "store_auth (subscribe c v u) = store_auth u" "store_auth (unsubscribe c v u) = store_auth u" for v u
    by (simp_all add: subscribe_def unsubscribe_def reconnect_def calls parts Let_def)
  ultimately show ?thesis
    using assms by (auto elim!: ws_stepE simp: onStatusChange_def offStatusChange_def handle_open_def
        socket_closed_def handle_close_def retry_fired_def parts Let_def split: option.split)
qed

lemma put_world_routed: "store_auth w = session d \<Longrightarrow> routed rm (put_world w d) = routed rm d"
  by (cases "screen d") (simp_all add: routed_def put_world_def is_checked_def)

lemma dash_world_inv_lookups [simp]:
  "dash_world_inv c (d\<lparr>lookups := ls\<rparr>) = dash_world_inv c d"
  "dash_world_inv c (d\<lparr>guard := g\<rparr>) = dash_world_inv c d"
  "dash_world_inv c (d\<lparr>location := u\<rparr>) = dash_world_inv c d"
  "dash_world_inv c (d\<lparr>exchanges := n\<rparr>) = dash_world_inv c d"
  by (rule dash_world_inv_cong; simp)+

lemma lookup_done_inv: "dash_world_inv c d \<Longrightarrow> dash_world_inv c (lookup_done i r d)"
  using put_auth_inv [of c "d\<lparr>lookups := remove_nth i (lookups d)\<rparr>" "GetUserSettled r"]
  by (simp add: lookup_done_def AuthGuard_checked_def Let_def split: option.split)

lemma callback_done_inv: "dash_world_inv c d \<Longrightarrow> dash_world_inv c (callback_done r d)"
  using put_auth_inv [of c d "CallbackSettled r"] put_same_inv [of c d]
  by (cases "handleCallback r (session d)") (simp_all add: callback_done_def callback_settled_def)

lemma response_inv: "dash_world_inv c d \<Longrightarrow> dash_world_inv c (put_session (afterResponse code (session d)) d)"
  using put_auth_inv [of c d Logout] put_same_inv [of c d] by (simp add: afterResponse_def)

lemma dash_step_inv:
  assumes "documented_match rm" and "dash_inv c rm d" and "dash_step c rm rp d e d'"
  shows "dash_inv c rm d'"
proof -
  have world: "dash_world_inv c d" and routed: "routed rm d"
    using assms(2) by (simp_all add: dash_inv_def)
  note rendered = rerender_inv [OF assms(1), THEN conjunct1]
  show ?thesis
    using assms(3)
  proof cases
    case (dash_goto u)
    then show ?thesis using rendered world by simp
  next
    case (dash_session e)
    then show ?thesis using rendered put_auth_inv [OF world] by simp
  next
    case (dash_response code)
    then show ?thesis using rendered response_inv [OF world] by simp
  next
    case (dash_lookup i r)
    then show ?thesis using rendered lookup_done_inv [OF world] by simp
  next
    case (dash_callback r)
    then show ?thesis using rendered callback_done_inv [OF world] by simp
  next
    case (dash_net e w)
    have "set (subscribedIds w) = set (subscribedIds (dash_world d))"
      using wanted_step_ids [OF dash_net(3)] dash_net(4) by (cases e) auto
    moreover have "reachable c w"
      using reachable_step dash_net(3) world by (auto simp: dash_world_inv_def)
    ultimately show ?thesis
      using put_world_inv [OF world] put_world_routed [OF ws_step_auth [OF dash_net(3,5)]] routed
      by (simp add: dash_inv_def dash_net)
  next
    case (dash_project p e p')
    have "feed_inv c p'"
      using world dash_project(3) page_step_feed [OF _ dash_project(5)] by (simp add: dash_world_inv_def)
    then have "dash_world_inv c (d\<lparr>screen := OnProject p', dash_world := net p',
        location := follow (navigated p) (navigated p') (location d)\<rparr>)"
      by (auto simp: dash_world_inv_def feed_inv_def)
    then show ?thesis using rendered dash_project by simp
  next
    case (dash_home h a h')
    then have "dash_world_inv c (d\<lparr>screen := OnHome h',
        location := follow (home_navigated h) (home_navigated h') (location d)\<rparr>)"
      using world by (simp add: dash_world_inv_def)
    then show ?thesis using rendered dash_home by simp
  next
    case (dash_home_settle h i r h')
    then show ?thesis using world routed by (simp add: dash_inv_def dash_world_inv_def routed_def is_checked_def)
  next
    case (dash_team t e t')
    then show ?thesis using world routed by (simp add: dash_inv_def dash_world_inv_def routed_def is_checked_def)
  next
    case (dash_keys k e k')
    then show ?thesis using world routed by (simp add: dash_inv_def dash_world_inv_def routed_def is_checked_def)
  qed
qed

lemma dash_start_inv: "documented_match rm \<Longrightarrow> dash_inv c rm (dash_start c rm rp path)"
  unfolding dash_start_def
  by (rule rerender_inv [THEN conjunct1])
    (simp_all add: dash_world_inv_def world_init_reachable, simp add: world_init_def)

text \<open>The machine for a router that has the documented laws.\<close>

definition dash_started ::
  "ws_config \<Rightarrow> (string list \<Rightarrow> string \<Rightarrow> string option) \<Rightarrow> (string \<Rightarrow> string option) \<Rightarrow> dashboard \<Rightarrow> bool" where
  "dash_started c rm rp d \<longleftrightarrow> documented_match rm \<and> (\<exists>path. d = dash_start c rm rp path)"

interpretation dash: transition_system "dash_started c rm rp" "dash_step c rm rp"
    "\<lambda>d. documented_match rm \<and> dash_inv c rm d" for c rm rp
  by unfold_locales (auto simp: dash_started_def intro: dash_start_inv dash_step_inv)

subsection \<open>Where a change of the session leads\<close>

lemma chain_cases:
  "chain_of rm path \<in>
     {[], [Page LoginPage], [Page AuthCallbackPage], [NavigateTo ''/''],
      [AuthGuardElement, Page HomePage], [AuthGuardElement, Page ProjectPage],
      [AuthGuardElement, AdminGuardElement, Page TeamPage],
      [AuthGuardElement, AdminGuardElement, Page ApiKeysPage]}"
  by (auto simp: chain_of_def route_table_eq split: option.splits if_splits)

lemma unguarded_chains:
  "documented_match rm \<Longrightarrow> \<not> guarded rm ''/login''" "documented_match rm \<Longrightarrow> guarded rm ''/''"
  by (simp_all add: guarded_def chain_of_def documented_match_def static_pattern_def route_table_eq)

lemma guarded_App:
  "guarded rm path \<Longrightarrow> App rm b s path = AuthGuard b s (render_chain b s (tl (chain_of rm path)))"
  using chain_cases [of rm path] by (auto simp: guarded_def App_chain)

lemma render_tail:
  "guarded rm path \<Longrightarrow> render_chain b s (tl (chain_of rm path)) \<in>
     {Rendered HomePage, Rendered ProjectPage, Rendered TeamPage, Rendered ApiKeysPage, Redirect ''/''}
     \<union> range Raised"
  using chain_cases [of rm path]
  by (auto simp: guarded_def AdminGuard_cases split: if_splits sum.splits)

lemma place_guard_kept: "guarded rm (location d) \<Longrightarrow> guard d \<noteq> None \<Longrightarrow> place_guard rm d = d"
  by (simp add: place_guard_def guarded_def)

lemma screen_outcome_cases:
  "screen_outcome v = Rendered LoginPage \<longleftrightarrow> v = OnLogin" "screen_outcome v = Spinner \<longleftrightarrow> v = OnSpinner"
  "screen_outcome v = Blank \<longleftrightarrow> v = OnBlank" "screen_outcome v = Rendered AuthCallbackPage \<longleftrightarrow> v = OnCallback"
  "screen_outcome v = Rendered HomePage \<longleftrightarrow> (\<exists>h. v = OnHome h)"
  "screen_outcome v \<noteq> Redirect u"
  by (cases v; simp)+

lemma placed_at_login:
  assumes "documented_match rm" and "dash_world_inv c d" and "location d = ''/login''"
  shows "screen (place c rm rp (Suc n) d) = OnLogin \<and> location (place c rm rp (Suc n) d) = ''/login'' \<and>
         guard (place c rm rp (Suc n) d) = None"
  using assms unguarded_chains(1) [OF assms(1)]
  by (simp add: App_login Let_def enter_def place_guard_def guarded_def)

lemma sent_to_login:
  assumes "documented_match rm" and "dash_world_inv c d" and "guarded rm (location d)"
    and "guard d = Some (k, True)" and "\<not> truthy_str (auth_token (session d))"
  shows "screen (rerender c rm rp d) = OnLogin \<and> location (rerender c rm rp d) = ''/login'' \<and>
         guard (rerender c rm rp d) = None"
proof -
  have "place_guard rm d = d"
    using assms(3,4) by (simp add: place_guard_kept)
  then have "App rm (is_checked (place_guard rm d)) (session d) (location d) = Redirect ''/login''"
    using assms(3-5) by (simp add: guarded_App is_checked_def AuthGuard_def)
  then have "rerender c rm rp d = place c rm rp (Suc (Suc 0)) ((leave c (place_guard rm d))\<lparr>location := ''/login''\<rparr>)"
    unfolding rerender_def numeral_3_eq_3 by (rule place_redirect)
  then show ?thesis
    using placed_at_login [OF assms(1) redirected_inv [OF assms(2)]] by simp
qed

text \<open>With a token and a guard that has checked: the page of the path, or the project list instead.\<close>

lemma shown_to_operator:
  assumes "documented_match rm" and "dash_world_inv c d" and "guarded rm (location d)"
    and "guard d = Some (k, True)" and "truthy_str (auth_token (session d))"
  shows "screen_outcome (screen (rerender c rm rp d)) =
           (case render_chain True (session d) (chain_of rm (location d)) of
              Redirect u \<Rightarrow> Rendered HomePage | r \<Rightarrow> r)"
proof -
  let ?r = "render_chain True (session d) (tl (chain_of rm (location d)))"
  have kept: "place_guard rm d = d"
    using assms(3,4) by (simp add: place_guard_kept)
  have app: "App rm (is_checked (place_guard rm d)) (session d) (location d) = ?r"
    using kept assms(3-5) by (simp add: guarded_App is_checked_def AuthGuard_def)
  have same: "render_chain True (session d) (chain_of rm (location d)) = ?r"
    using app guarded_App [OF assms(3)] App_chain assms(5) by (metis AuthGuard_def)
  consider "?r = Redirect ''/''" | "\<forall>u. ?r \<noteq> Redirect u"
    using render_tail [OF assms(3), of True "session d"] by fastforce
  then show ?thesis
  proof cases
    case 1
    let ?d = "(leave c d)\<lparr>location := ''/''\<rparr>"
    have inv: "dash_world_inv c ?d"
      using leave_spec [OF assms(2)] by simp
    have "place_guard rm ?d = ?d"
      using unguarded_chains(2) [OF assms(1)] assms(4) by (simp add: place_guard_kept)
    then have "App rm (is_checked (place_guard rm ?d)) (session ?d) (location ?d) = Rendered HomePage"
      using assms(4,5) leave_session [OF assms(2)]
      by (simp add: App_home [OF assms(1)] is_checked_def AuthGuard_def)
    moreover have "rerender c rm rp d = place c rm rp (Suc (Suc 0)) ?d"
      unfolding rerender_def numeral_3_eq_3 using place_redirect [of rm d "''/''" c rp "Suc (Suc 0)"] app 1 kept
      by simp
    ultimately show ?thesis
      using place_entered [OF inv, of rm rp "Suc 0"] 1
        same by simp
  next
    case 2
    then show ?thesis
      using place_entered [OF assms(2), of rm rp "Suc (Suc 0)"] app
        same
      unfolding rerender_def numeral_3_eq_3 by (cases ?r) auto
  qed
qed

subsection \<open>Properties\<close>

definition protected :: "screen \<Rightarrow> bool" where
  "protected v \<longleftrightarrow> v \<notin> {OnLogin, OnCallback, OnSpinner, OnBlank}"

lemma protected_checked:
  assumes "routed rm d" and "protected (screen d)"
  shows "guarded rm (location d) \<and> (\<exists>k. guard d = Some (k, True)) \<and> truthy_str (auth_token (session d)) \<and>
         (\<forall>x. screen d = OnTeam x \<longrightarrow> RoleGuard Admin True False (session d) = Inr True) \<and>
         (\<forall>x. screen d = OnKeys x \<longrightarrow> RoleGuard Admin True False (session d) = Inr True)"
proof -
  let ?s = "session d"
  have out: "App rm (is_checked d) ?s (location d) = screen_outcome (screen d)"
    using assms(1) by (simp add: routed_def)
  moreover have "guarded rm (location d)"
    using out assms(2) chain_cases [of rm "location d"]
    by (auto simp: guarded_def App_chain protected_def) (cases "screen d"; simp)+
  ultimately have guard: "AuthGuard (is_checked d) ?s (render_chain (is_checked d) ?s (tl (chain_of rm (location d))))
      = screen_outcome (screen d)"
    by (simp add: guarded_App)
  have "is_checked d \<and> truthy_str (auth_token ?s)"
    using guard assms(2) by (cases "screen d") (auto simp: AuthGuard_def protected_def split: if_splits)
  moreover have "RoleGuard Admin True False ?s = Inr True" if "screen d = OnTeam x \<or> screen d = OnKeys y" for x y
    using guard that calculation chain_cases [of rm "location d"]
    by (auto simp: AuthGuard_def AdminGuard_cases split: if_splits sum.splits)
  ultimately show ?thesis
    using \<open>guarded rm (location d)\<close> by (auto simp: is_checked_def split: option.splits)
qed

lemma unsubscribed_idle:
  assumes "reachable c w" and "subscribedIds w = []"
  shows "status w = Disconnected \<and> timers w = [] \<and> (\<forall>i < length (sockets w). ready w i \<notin> {CONNECTING, OPEN})"
proof -
  have idle: "ws w = None" "timers w = []" "status w = Disconnected" "others_silent w"
    using reachable_inv [OF assms(1)] assms(2) by (simp_all add: ws_inv_def conn_inv_def base_inv_def)
  then show ?thesis
    using not_silent_live [of w] by (auto simp: others_silent_def)
qed

text \<open>
  C3: in every state of the dashboard a page of the product is on screen only with a token in
  the session, after the stored session was looked up, and the team and keys pages only for
  who passes the role guard; only a mounted project page is subscribed, to exactly its
  devices; and with no token in the session the socket is closed, no retry is due and the
  status is disconnected.
\<close>

theorem signed_out_is_silent:
  assumes "dash_started c rm rp d0" and "runs (dash_step c rm rp) d0 es d"
  shows "(protected (screen d) \<longrightarrow> truthy_str (auth_token (session d)) \<and> (\<exists>k. guard d = Some (k, True))) \<and>
         (\<forall>x. screen d = OnTeam x \<longrightarrow> RoleGuard Admin True False (session d) = Inr True) \<and>
         (\<forall>x. screen d = OnKeys x \<longrightarrow> RoleGuard Admin True False (session d) = Inr True) \<and>
         set (subscribedIds (dash_world d)) = (case screen d of OnProject p \<Rightarrow> set (ids_of p) | _ \<Rightarrow> {}) \<and>
         (truthy_str (auth_token (session d)) \<or>
            status (dash_world d) = Disconnected \<and> timers (dash_world d) = [] \<and>
            (\<forall>i < length (sockets (dash_world d)). ready (dash_world d) i \<notin> {CONNECTING, OPEN}))"
proof -
  have inv: "dash_world_inv c d" "routed rm d"
    using dash.inv_runs [OF assms] by (simp_all add: dash_inv_def)
  have subs: "set (subscribedIds (dash_world d)) = (case screen d of OnProject p \<Rightarrow> set (ids_of p) | _ \<Rightarrow> {})"
    using inv(1) by (auto simp: dash_world_inv_def feed_inv_def split: screen.splits)
  have guards: "protected (screen d) \<longrightarrow> truthy_str (auth_token (session d)) \<and> (\<exists>k. guard d = Some (k, True))"
    "\<forall>x. screen d = OnTeam x \<longrightarrow> RoleGuard Admin True False (session d) = Inr True"
    "\<forall>x. screen d = OnKeys x \<longrightarrow> RoleGuard Admin True False (session d) = Inr True"
    using protected_checked [OF inv(2)] by (auto simp: protected_def)
  have "subscribedIds (dash_world d) = []" if "\<not> truthy_str (auth_token (session d))"
  proof -
    have "\<not> protected (screen d)" using guards(1) that by blast
    then show ?thesis using subs by (auto simp: protected_def)
  qed
  then show ?thesis
    using guards subs unsubscribed_idle inv(1) unfolding dash_world_inv_def by blast
qed

text \<open>A run to apply the properties to: the address of a project, and an operator who is signed in.\<close>

definition demo_param :: "string \<Rightarrow> string option" where
  "demo_param path = Some (drop 10 path)"

text \<open>A router that knows one path of a project too.\<close>

definition demo_match :: "string list \<Rightarrow> string \<Rightarrow> string option" where
  "demo_match ps p =
     (if p = ''/projects/fleet'' \<and> p \<notin> set ps \<and> ''/projects/:name'' \<in> set ps then Some ''/projects/:name''
      else exact_match ps p)"

lemma demo_match_documented: "documented_match demo_match"
  using exact_match_documented by (auto simp: documented_match_def demo_match_def)

lemma demo_started: "dash_started c exact_match rp (dash_start c exact_match rp path)"
  using exact_match_documented by (auto simp: dash_started_def)

lemma start_guarded:
  assumes "documented_match rm" and "guarded rm path"
  shows "screen (dash_start c rm rp path) = OnSpinner \<and> location (dash_start c rm rp path) = path \<and>
         lookups (dash_start c rm rp path) = [0] \<and> guard (dash_start c rm rp path) = Some (0, False) \<and>
         session (dash_start c rm rp path) = auth_init"
proof -
  let ?d = "\<lparr>location = path, guard = None, guards = 0, lookups = [], exchanges = 0, screen = OnBlank,
     dash_world = world_init\<rparr>"
  have placed: "place_guard rm ?d = ?d\<lparr>guard := Some (0, False), guards := 1, lookups := [0]\<rparr>"
    using assms(2) by (simp add: place_guard_def guarded_def)
  moreover have "App rm False auth_init path = Spinner"
    using guarded_App [OF assms(2)] by (simp add: AuthGuard_def)
  moreover have "store_auth world_init = auth_init"
    by (simp add: world_init_def)
  ultimately show ?thesis
    unfolding dash_start_def rerender_def numeral_3_eq_3
    by (simp add: Let_def is_checked_def enter_def leave_def)
qed

lemma home_guarded: "guarded exact_match ''/''"
  using unguarded_chains(2) [OF exact_match_documented] .

theorem signed_out_is_silent_witness:
  "status (dash_world (dash_start demo_config exact_match demo_param ''/'')) = Disconnected"
  using signed_out_is_silent [OF demo_started runs_Nil, of demo_config demo_param "''/''"]
    start_guarded [OF exact_match_documented home_guarded, of demo_config demo_param]
  by (simp add: auth_init_def truthy_str_def)

lemma lookup_done_fields:
  "location (lookup_done i r d) = location d" "session (lookup_done i r d) = loadExisting r (session d)"
  "guard d = Some (lookups d ! i, b) \<Longrightarrow> guard (lookup_done i r d) = Some (lookups d ! i, True)"
  by (simp_all add: lookup_done_def AuthGuard_checked_def Let_def split: option.split)

lemma lookup_leads:
  assumes "documented_match rm" and "dash_inv c rm d" and "guarded rm (location d)"
    and "guard d = Some (lookups d ! i, False)" and "dash_step c rm rp d (LookupDone i r) d'"
  shows "session d' = loadExisting r (session d) \<and>
         (if truthy_str (auth_token (session d'))
          then screen_outcome (screen d') =
                 (case render_chain True (session d') (chain_of rm (location d)) of
                    Redirect u \<Rightarrow> Rendered HomePage | out \<Rightarrow> out)
          else screen d' = OnLogin \<and> location d' = ''/login'')"
proof -
  let ?d = "lookup_done i r d"
  have inv: "dash_world_inv c ?d"
    using assms(2) by (simp add: dash_inv_def lookup_done_inv)
  have d': "d' = rerender c rm rp ?d"
    using assms(5) by (simp add: dash_step_lookup)
  have "session d' = session ?d"
    using rerender_inv [OF assms(1) inv, of rp] by (simp add: d')
  then show ?thesis
    using sent_to_login [OF assms(1) inv, of "lookups d ! i" rp] shown_to_operator [OF assms(1) inv, of "lookups d ! i" rp]
      assms(3) lookup_done_fields(3) [OF assms(4), of r]
    by (simp add: d' lookup_done_fields)
qed

text \<open>
  C19: opening the dashboard at a path behind the sign-in guard shows the spinner and looks up the
  stored session; when the lookup ends, a stored user with a token that has not expired leads
  to the page of that path (the project list instead of an administration page the role guard
  refuses, or its error on a role it cannot compare), and anything else, an error included, to
  the login page.
\<close>

theorem startup_shows_requested_page:
  assumes "documented_match rm" and "guarded rm path" and "d = dash_start c rm rp path"
    and "dash_step c rm rp d (LookupDone 0 r) d'"
  shows "screen d = OnSpinner \<and> lookups d = [0] \<and>
         (\<forall>u. r = Inr (Some u) \<and> expired u \<noteq> Some True \<and> access_token u \<noteq> [] \<longrightarrow>
            auth_user (session d') = Some u \<and>
            screen_outcome (screen d') =
              (case render_chain True (session d') (chain_of rm path) of
                 Redirect u \<Rightarrow> Rendered HomePage | out \<Rightarrow> out)) \<and>
         ((\<forall>u. r = Inr (Some u) \<longrightarrow> expired u = Some True \<or> access_token u = []) \<longrightarrow>
            screen d' = OnLogin \<and> location d' = ''/login'')"
proof -
  have start: "screen d = OnSpinner" "location d = path" "lookups d = [0]" "guard d = Some (0, False)"
    "session d = auth_init"
    using start_guarded [OF assms(1,2), of c rp] by (simp_all add: assms(3))
  have inv: "dash_inv c rm d"
    using dash_start_inv [OF assms(1)] by (simp add: assms(3))
  have "guarded rm (location d)" "guard d = Some (lookups d ! 0, False)"
    using start assms(2) by simp_all
  from lookup_leads [OF assms(1) inv this assms(4)]
  show ?thesis
    using start by (auto simp: loadExisting_def set_session_def auth_init_def truthy_str_def
        split: sum.splits option.splits if_splits)
qed

lemma home_signed_in:
  "\<exists>d. dash_step c exact_match rp (dash_start c exact_match rp ''/'') (LookupDone 0 (Inr (Some (sample_user ''viewer'')))) d \<and>
       (\<exists>h. screen d = OnHome h) \<and> session d = set_session (sample_user ''viewer'') auth_init"
proof -
  let ?d = "dash_start c exact_match rp ''/''" and ?r = "Inr (Some (sample_user ''viewer''))"
  have start: "lookups ?d = [0]" "guard ?d = Some (lookups ?d ! 0, False)" "guarded exact_match (location ?d)"
    "location ?d = ''/''" "session ?d = auth_init"
    using start_guarded [OF exact_match_documented home_guarded, of c rp] home_guarded by simp_all
  obtain d where step: "dash_step c exact_match rp ?d (LookupDone 0 ?r) d"
    using start(1) by (simp add: dash_step_lookup)
  have loaded: "loadExisting ?r auth_init = set_session (sample_user ''viewer'') auth_init"
    "auth_token (set_session (sample_user ''viewer'') auth_init) = Some ''t1''"
    by (simp_all add: loadExisting_def sample_user_def set_session_def)
  have "chain_of exact_match ''/'' = [AuthGuardElement, Page HomePage]"
    by (simp add: chain_of_def exact_match_def static_pattern_def route_table_eq)
  then show ?thesis
    using step lookup_leads [OF exact_match_documented dash_start_inv [OF exact_match_documented] start(3,2) step]
    by (auto simp: start loaded truthy_str_def AuthGuard_def screen_outcome_cases)
qed

theorem startup_shows_requested_page_witness:
  "\<exists>d. dash_step demo_config exact_match demo_param (dash_start demo_config exact_match demo_param ''/'')
         (LookupDone 0 (Inl TypeError)) d \<and> screen d = OnLogin"
proof -
  have "\<exists>d. dash_step demo_config exact_match demo_param
      (dash_start demo_config exact_match demo_param ''/'') (LookupDone 0 (Inl TypeError)) d"
    using start_guarded [OF exact_match_documented home_guarded] by (simp add: dash_step_lookup)
  then obtain d where step: "dash_step demo_config exact_match demo_param
      (dash_start demo_config exact_match demo_param ''/'') (LookupDone 0 (Inl TypeError)) d" ..
  show ?thesis
    using step startup_shows_requested_page [OF exact_match_documented home_guarded refl step]
    by (intro exI [of _ d]) simp
qed

text \<open>
  C6: a response with status 401 to any request ends everything at once: no token is left, the
  operator who was on any page of the product is on the login page, nothing is subscribed, the
  socket is closed and no retry is due; a response with any other status leaves the session
  as it is.
\<close>

theorem unauthorized_ends_session:
  assumes "dash_started c rm rp d0" and "runs (dash_step c rm rp) d0 es d"
    and "dash_step c rm rp d (Response code) d'"
  shows "(code \<noteq> 401 \<and> session d' = session d) \<or>
         (code = 401 \<and> auth_token (session d') = None \<and>
          (protected (screen d) \<longrightarrow> screen d' = OnLogin \<and> location d' = ''/login'' \<and> guard d' = None) \<and>
          subscribedIds (dash_world d') = [] \<and> status (dash_world d') = Disconnected \<and>
          timers (dash_world d') = [] \<and>
          (\<forall>i < length (sockets (dash_world d')). ready (dash_world d') i \<notin> {CONNECTING, OPEN}))"
proof -
  have rm: "documented_match rm" and inv: "dash_world_inv c d" "routed rm d"
    using dash.inv_runs [OF assms(1,2)] by (simp_all add: dash_inv_def)
  let ?d = "put_session (afterResponse code (session d)) d"
  have d': "d' = rerender c rm rp ?d" and inv1: "dash_world_inv c ?d"
    using assms(3) response_inv [OF inv(1)] by simp_all
  have inv': "dash_inv c rm d'" and session: "session d' = afterResponse code (session d)"
    using rerender_inv [OF rm inv1, of rp] by (simp_all add: d')
  show ?thesis
  proof (cases "code = 401")
    case True
    then have none: "auth_token (session d') = None"
      by (simp add: session afterResponse_def auth_ops)
    have "\<not> protected (screen d')"
      using protected_checked [of rm d'] inv' none by (auto simp: dash_inv_def truthy_str_def)
    then have quiet: "subscribedIds (dash_world d') = []" "reachable c (dash_world d')"
      using inv' by (auto simp: dash_inv_def dash_world_inv_def protected_def split: screen.splits)
    have "screen d' = OnLogin \<and> location d' = ''/login'' \<and> guard d' = None" if prot: "protected (screen d)"
    proof -
      obtain k where "guarded rm (location ?d)" "guard ?d = Some (k, True)"
        using protected_checked [OF inv(2) prot] by auto
      moreover have "\<not> truthy_str (auth_token (session ?d))"
        using none session by (simp add: truthy_str_def)
      ultimately show ?thesis
        unfolding d' by (rule sent_to_login [OF rm inv1])
    qed
    then show ?thesis
      using True none quiet unsubscribed_idle [OF quiet(2,1)] by blast
  next
    case False
    then show ?thesis by (simp add: session afterResponse_def)
  qed
qed

theorem unauthorized_ends_session_witness:
  "\<exists>d h d'. screen d = OnHome h \<and> dash_step demo_config exact_match demo_param d (Response 401) d' \<and>
     screen d' = OnLogin \<and> auth_token (session d') = None"
proof -
  obtain d h where step: "dash_step demo_config exact_match demo_param
      (dash_start demo_config exact_match demo_param ''/'') (LookupDone 0 (Inr (Some (sample_user ''viewer'')))) d"
    and home: "screen d = OnHome h"
    using home_signed_in [of demo_config demo_param] by blast
  have run: "runs (dash_step demo_config exact_match demo_param)
      (dash_start demo_config exact_match demo_param ''/'') [LookupDone 0 (Inr (Some (sample_user ''viewer'')))] d"
    using step by (simp add: runs_Cons_iff)
  obtain d' where next_step: "dash_step demo_config exact_match demo_param d (Response 401) d'"
    by simp
  show ?thesis
    using unauthorized_ends_session [OF demo_started run next_step] home next_step
    by (intro exI [of _ d] exI [of _ h] exI [of _ d']) (simp add: protected_def)
qed

lemma callback_unguarded:
  assumes "routed rm d" and "screen d = OnCallback"
  shows "guard d = None"
proof -
  have "\<not> guarded rm (location d)"
    using assms guarded_App [of rm "location d" "is_checked d" "session d"]
      render_tail [of rm "location d" "is_checked d" "session d"]
    by (auto simp: routed_def AuthGuard_def split: if_splits)
  then show ?thesis
    using assms(1) unfolding routed_def by blast
qed

text \<open>After a code exchange a new guard starts a lookup, and the lookup leads to the project list.\<close>

lemma exchanged_looks_up:
  assumes "documented_match rm" and "guard d = None"
    and "d1 = rerender c rm rp (callback_done (Inr u) d)"
  shows "location d1 = ''/'' \<and> screen d1 = OnSpinner \<and> length (lookups d) < length (lookups d1) \<and>
         guard d1 = Some (lookups d1 ! length (lookups d), False)"
proof -
  let ?d = "callback_done (Inr u) d"
  have fields: "location ?d = ''/''" "guard ?d = None" "guards ?d = guards d" "lookups ?d = lookups d"
    using assms(2) by (simp_all add: callback_done_def callback_settled_def handleCallback_def
        put_session_def put_world_def)
  then have "place c rm rp 3 ?d = enter c OnSpinner (place_guard rm ?d) \<and>
      guard (place_guard rm ?d) = Some (guards d, False) \<and> lookups (place_guard rm ?d) = lookups d @ [guards d]"
    using unguarded_chains(2) [OF assms(1)] unfolding numeral_3_eq_3
    by (simp add: Let_def App_home [OF assms(1)] place_guard_def guarded_def is_checked_def AuthGuard_def)
  then show ?thesis
    using fields by (simp add: assms(3) rerender_def enter_def)
qed

lemma lookup_shows_projects:
  assumes "documented_match rm" and "dash_inv c rm d" and "location d = ''/''"
    and "guard d = Some (lookups d ! i, False)" and "dash_step c rm rp d (LookupDone i r) d'"
    and "truthy_str (auth_token (session d'))"
  shows "\<exists>h. screen d' = OnHome h"
proof -
  have "guarded rm (location d)"
    using unguarded_chains(2) [OF assms(1)] assms(3) by simp
  moreover have "render_chain True (session d') (chain_of rm ''/'') = Rendered HomePage"
    using App_chain [of rm True "session d'" "''/''"] assms(6) by (simp add: App_home [OF assms(1)] AuthGuard_def)
  ultimately have "screen_outcome (screen d') = Rendered HomePage"
    using lookup_leads [OF assms(1,2) _ assms(4,5), THEN conjunct2] assms(6) unfolding assms(3) by simp
  then show ?thesis by (simp only: screen_outcome_cases)
qed

text \<open>
  C20: signing in: when the exchange of the callback page yields a user, the operator is sent to
  the project list, whose guard looks up the stored session anew, and when that lookup ends
  the list is shown if a token is in the session; when the exchange fails the operator is on
  the login page.
\<close>

theorem sign_in_lands_on_projects:
  assumes "dash_started c rm rp d0" and "runs (dash_step c rm rp) d0 es d" and "screen d = OnCallback"
    and "dash_step c rm rp d (CallbackDone r) d1"
  shows "(\<forall>u. r = Inr u \<longrightarrow>
            location d1 = ''/'' \<and> screen d1 = OnSpinner \<and> auth_user (session d1) = Some u \<and>
            (\<exists>i < length (lookups d1). \<forall>r' d2. dash_step c rm rp d1 (LookupDone i r') d2 \<longrightarrow>
               truthy_str (auth_token (session d2)) \<longrightarrow> (\<exists>h. screen d2 = OnHome h))) \<and>
         (\<forall>e. r = Inl e \<longrightarrow> screen d1 = OnLogin \<and> location d1 = ''/login'')"
proof -
  have rm: "documented_match rm" and inv: "dash_world_inv c d" "routed rm d"
    using dash.inv_runs [OF assms(1,2)] by (simp_all add: dash_inv_def)
  have d1: "d1 = rerender c rm rp (callback_done r d)" and inv1: "dash_world_inv c (callback_done r d)"
    using assms(4) callback_done_inv [OF inv(1)] by (auto elim: dash_step.cases)
  have inv2: "dash_inv c rm d1" and same: "session d1 = session (callback_done r d)"
    using rerender_inv [OF rm inv1, of rp] by (simp_all add: d1)
  have "location d1 = ''/'' \<and> screen d1 = OnSpinner \<and> auth_user (session d1) = Some u \<and>
      (\<exists>i < length (lookups d1). \<forall>r' d2. dash_step c rm rp d1 (LookupDone i r') d2 \<longrightarrow>
         truthy_str (auth_token (session d2)) \<longrightarrow> (\<exists>h. screen d2 = OnHome h))" if r: "r = Inr u" for u
  proof -
    have "auth_user (session d1) = Some u"
      unfolding same by (simp add: r callback_done_def callback_settled_def handleCallback_def set_session_def)
    then show ?thesis
      using exchanged_looks_up [OF rm callback_unguarded [OF inv(2) assms(3)] d1 [unfolded r]]
        lookup_shows_projects [OF rm inv2] by blast
  qed
  moreover have "screen d1 = OnLogin \<and> location d1 = ''/login''" if "r = Inl e" for e
    using placed_at_login [OF rm inv1] that unfolding d1 rerender_def numeral_3_eq_3
    by (simp add: callback_done_def callback_settled_def handleCallback_def)
  ultimately show ?thesis by blast
qed

theorem sign_in_lands_on_projects_witness:
  "\<exists>d1. dash_step demo_config exact_match demo_param
      (dash_start demo_config exact_match demo_param ''/auth/callback'') (CallbackDone (Inr (sample_user ''viewer''))) d1 \<and>
    screen d1 = OnSpinner \<and> location d1 = ''/''"
proof -
  let ?d = "dash_start demo_config exact_match demo_param ''/auth/callback''"
  have here: "screen ?d = OnCallback" "0 < exchanges ?d"
    by (simp_all add: dash_start_def rerender_def numeral_3_eq_3 Let_def App_def exact_match_def
        static_pattern_def route_table_eq enter_def leave_def)
  have "\<exists>d1. dash_step demo_config exact_match demo_param ?d (CallbackDone (Inr (sample_user ''viewer''))) d1"
    using dash_callback [OF here(2)] by blast
  then obtain d1 where step: "dash_step demo_config exact_match demo_param ?d
      (CallbackDone (Inr (sample_user ''viewer''))) d1" ..
  show ?thesis
    using step sign_in_lands_on_projects [OF demo_started runs_Nil here(1) step] by (intro exI [of _ d1]) simp
qed

end
