(* ===== verification/NavSidebar.thy ===== *)
theory NavSidebar
  imports App
begin

section \<open>The navigation sidebar (server/dashboard/src/components/NavSidebar)\<close>

text \<open>
  The navigation links, the initials shown for the operator and the sign-out button.  The
  claims are unchecked values, so rendering may raise; \<open>undefined + undefined\<close> is \<open>NaN\<close>,
  which has no \<open>toUpperCase\<close>.
\<close>

record nav_item =
  nav_to :: string
  nav_label :: string
  nav_adminOnly :: bool

definition NAV_ITEMS :: "nav_item list" where
  "NAV_ITEMS =
     [\<lparr>nav_to = ''/'', nav_label = ''Projects'', nav_adminOnly = False\<rparr>,
      \<lparr>nav_to = ''/team'', nav_label = ''Team'', nav_adminOnly = True\<rparr>,
      \<lparr>nav_to = ''/settings/api-keys'', nav_label = ''API Keys'', nav_adminOnly = True\<rparr>]"

definition is_sep :: "char \<Rightarrow> bool" where
  "is_sep c \<longleftrightarrow> c \<in> {CHR ''.'', CHR ''_'', CHR ''-''} \<or> js_space c"

text \<open>\<open>parts[0][0] + parts[1][0]\<close>: a missing character is \<open>undefined\<close>.\<close>

fun add_chars :: "string \<Rightarrow> string \<Rightarrow> js_error + string" where
  "add_chars [] [] = Inl TypeError"
| "add_chars [] (d # ds) = Inr (''undefined'' @ [d])"
| "add_chars (c # cs) [] = Inr ([c] @ ''undefined'')"
| "add_chars (c # cs) (d # ds) = Inr [c, d]"

definition getInitials :: "json option \<Rightarrow> json option \<Rightarrow> js_error + string" where
  "getInitials email sub =
     (case nullish email (nullish sub (JStr ''?'')) of
        JStr s \<Rightarrow>
          (let name = hd (split_at CHR ''@'' s);
               parts = split_runs is_sep name
           in case parts of
                p0 # p1 # _ \<Rightarrow> map_sum id toUpperCase (add_chars p0 p1)
              | _ \<Rightarrow> Inr (toUpperCase (take 2 name)))
      | _ \<Rightarrow> Inl TypeError)"

datatype nav_action = FollowLink string | SignOut

definition visible_items :: "auth_state \<Rightarrow> nav_item list" where
  "visible_items s = filter (\<lambda>item. \<not> nav_adminOnly item \<or> isAdmin s) NAV_ITEMS"

text \<open>
  Whether a link is the active one is \<open>react-router\<close>'s decision: the argument \<open>active\<close>, of the
  link's path and of whether only the exact path counts.
\<close>

definition nav_link :: "(string \<Rightarrow> bool \<Rightarrow> bool) \<Rightarrow> nav_item \<Rightarrow> nav_action node" where
  "nav_link active item =
     El ''li'' []
       [El ''NavLink''
          [Attr ''to'' (nav_to item), On ''click'' (FollowLink (nav_to item)),
           Cls (''link'' @ (if active (nav_to item) (nav_to item = ''/'') then '' active'' else ''''))]
          [El ''span'' [Cls ''icon''] [], Txt (nav_label item)]]"

definition NavSidebar_view ::
  "(string \<Rightarrow> bool \<Rightarrow> bool) \<Rightarrow> auth_state \<Rightarrow> js_error + nav_action node" where
  "NavSidebar_view active s =
     (let email = Option.bind (auth_claims s) claim_email;
          sub = map_option claim_sub (auth_claims s)
      in case getInitials email sub of
           Inl e \<Rightarrow> Inl e
         | Inr initials \<Rightarrow>
             (case react_text (nullish email (nullish sub (JStr ''Operator''))) of
                Inl e \<Rightarrow> Inl e
              | Inr shown \<Rightarrow>
                  (case react_text (role_or s (JStr ''viewer'')) of
                     Inl e \<Rightarrow> Inl e
                   | Inr shown_role \<Rightarrow> Inr
                       (El ''nav'' [Cls ''sidebar'']
                          [El ''div'' [Cls ''brand''] [El ''span'' [Cls ''logoText''] [Txt ''SystemScale'']],
                           El ''ul'' [Cls ''nav''] (map (nav_link active) (visible_items s)),
                           El ''div'' [Cls ''footer'']
                             [El ''div'' [Cls ''user'']
                                [El ''div'' [Cls ''avatar''] [Txt initials],
                                 El ''div'' [Cls ''userInfo'']
                                   [El ''div'' [Cls ''email''] [Txt shown],
                                    El ''div'' [Cls ''rolePill''] [Txt shown_role]]],
                              El ''button'' [Cls ''logoutBtn'', On ''click'' SignOut, Attr ''title'' ''Sign out'']
                                [Txt ''Sign out'']]]))))"

text \<open>The handlers: where the browser goes and the session it leaves.\<close>

fun nav_dispatch :: "nav_action \<Rightarrow> auth_state \<Rightarrow> auth_state \<times> string" where
  "nav_dispatch (FollowLink path) s = (s, path)"
| "nav_dispatch SignOut s = (logout s, ''/login'')"

subsection \<open>Initials\<close>

lemma split_runs_none: "\<forall>c \<in> set s. \<not> p c \<Longrightarrow> split_runs p s = [s]"
proof -
  assume "\<forall>c \<in> set s. \<not> p c"
  then have *: "dropWhile (\<lambda>c. \<not> p c) s = []" by simp
  show ?thesis by (subst split_runs.simps) (simp only: * list.case)
qed

lemma split_runs_sep:
  assumes "\<forall>c \<in> set a. \<not> p c" and "\<forall>c \<in> set seps. p c" and "seps \<noteq> []"
    and "rest = [] \<or> \<not> p (hd rest)"
  shows "split_runs p (a @ seps @ rest) = a # split_runs p rest"
proof -
  obtain c cs where seps: "seps = c # cs" using assms(3) by (cases seps) auto
  have "dropWhile (\<lambda>c. \<not> p c) (a @ seps @ rest) = c # cs @ rest"
    using assms(1,2) seps by (simp add: dropWhile_append2)
  moreover have "takeWhile (\<lambda>c. \<not> p c) (a @ seps @ rest) = a"
    using assms(1,2) seps by (simp add: takeWhile_append2)
  moreover have "dropWhile p (cs @ rest) = rest"
    using assms(2,4) seps by (cases rest) (auto simp: dropWhile_append2)
  ultimately show ?thesis by (subst split_runs.simps) simp
qed

lemma hd_split_runs:
  assumes "\<forall>c \<in> set b. \<not> p c" and "rest = [] \<or> p (hd rest)"
  shows "hd (split_runs p (b @ rest)) = b \<and> split_runs p (b @ rest) \<noteq> []"
proof (cases rest)
  case Nil
  with assms(1) show ?thesis by (simp add: split_runs_none)
next
  case (Cons c cs)
  with assms show ?thesis
    by (subst split_runs.simps, subst (2) split_runs.simps)
      (simp add: dropWhile_append2 takeWhile_append2)
qed

lemma split_runs_first: "\<not> p y \<Longrightarrow> \<exists>q qs. split_runs p (y # ys) = (y # q) # qs"
  by (subst split_runs.simps) (auto split: list.split)

lemma name_part:
  "CHR ''@'' \<notin> set name \<Longrightarrow> host = [] \<or> hd host = CHR ''@'' \<Longrightarrow>
     hd (split_at CHR ''@'' (name @ host)) = name"
  by (cases host) (auto simp: split_at_absent split_at_append_sep)

subsection \<open>Properties\<close>

text \<open>
  For an address whose name has at least two non-empty parts, the initials are the first
  characters of the first two parts, in upper case, whatever separators stand between them.
\<close>

theorem initials_of_two_parts:
  assumes "a \<noteq> []" "b \<noteq> []" "seps \<noteq> []" "\<forall>c \<in> set seps. is_sep c"
    and "\<forall>c \<in> set (a @ b). \<not> is_sep c" "CHR ''@'' \<notin> set (a @ seps @ b @ rest)"
    and "rest = [] \<or> is_sep (hd rest)" "host = [] \<or> hd host = CHR ''@''"
  shows "getInitials (Some (JStr ((a @ seps @ b @ rest) @ host))) sub
           = Inr [upper_char (hd a), upper_char (hd b)]"
proof -
  have nosep: "\<not> is_sep (hd b)" "\<forall>c \<in> set a. \<not> is_sep c" "\<forall>c \<in> set b. \<not> is_sep c"
    using assms(2,5) by auto
  have "split_runs is_sep (a @ seps @ b @ rest) = a # split_runs is_sep (b @ rest)"
    using nosep assms(2,3,4) by (intro split_runs_sep) auto
  moreover obtain ps where "split_runs is_sep (b @ rest) = b # ps"
    using hd_split_runs [of b is_sep rest] nosep(3) assms(7) by (metis list.collapse)
  ultimately have parts: "split_runs is_sep (a @ seps @ b @ rest) = a # b # ps"
    by simp
  obtain x xs y ys where ab: "a = x # xs" "b = y # ys"
    using assms(1,2) by (cases a; cases b) auto
  show ?thesis
    unfolding getInitials_def nullish.simps json.case Let_def name_part [OF assms(6,8)] parts
    by (simp add: ab toUpperCase_def)
qed

theorem initials_of_two_parts_witness:
  "getInitials (Some (JStr ''ragni.works@gmail.com'')) None = Inr ''RW''"
  using initials_of_two_parts [of "''ragni''" "''works''" "''.''" "[]" "''@gmail.com''" None]
  by (simp add: is_sep_def js_space_def upper_letters)

text \<open>
  A name that starts with a separator shows the word \<open>undefined\<close>, and a name made of
  separators only makes the sidebar raise a \<open>TypeError\<close>.
\<close>

theorem initials_of_separators:
  assumes "seps \<noteq> []" and "\<forall>c \<in> set seps. is_sep c" and "CHR ''@'' \<notin> set (seps @ rest)"
    and "rest = [] \<or> \<not> is_sep (hd rest)"
  shows "getInitials (Some (JStr (seps @ rest))) sub
           = (if rest = [] then Inl TypeError else Inr (''UNDEFINED'' @ [upper_char (hd rest)]))"
proof -
  have parts: "split_runs is_sep (seps @ rest) = [] # split_runs is_sep rest"
    using split_runs_sep [of "[]" is_sep seps rest] assms by simp
  have upper: "toUpperCase ''undefined'' = ''UNDEFINED''"
    by code_simp
  show ?thesis
  proof (cases rest)
    case Nil
    then show ?thesis
      using parts assms(3) split_runs_none [of "[]" is_sep]
      by (simp add: getInitials_def split_at_absent)
  next
    case (Cons y ys)
    then obtain p ps where "split_runs is_sep rest = (y # p) # ps"
      using assms(4) split_runs_first [of is_sep y ys] by auto
    then show ?thesis
      using parts assms(3) Cons upper
      by (simp add: getInitials_def split_at_absent) (simp add: toUpperCase_def)
  qed
qed

theorem initials_of_separators_witness:
  "getInitials (Some (JStr ''.'')) None = Inl TypeError \<and>
   getInitials (Some (JStr ''_ann'')) None = Inr ''UNDEFINEDA''"
  using initials_of_separators [of "''.''" "[]" None] initials_of_separators [of "''_''" "''ann''" None]
  by (simp add: is_sep_def js_space_def upper_letters)

subsection \<open>Links and guards\<close>

text \<open>The page a link leads to.\<close>

definition link_page :: "string \<Rightarrow> page" where
  "link_page path =
     (if path = ''/team'' then TeamPage
      else if path = ''/settings/api-keys'' then ApiKeysPage else HomePage)"

lemma App_link:
  assumes "documented_match route_match" and "truthy_str (auth_token s)" and "item \<in> set NAV_ITEMS"
  shows "App route_match True s (nav_to item)
     = (if nav_adminOnly item then AdminGuard s (Rendered (link_page (nav_to item)))
        else Rendered (link_page (nav_to item)))"
  using assms
  by (auto simp: NAV_ITEMS_def App_def documented_match_def static_pattern_def route_table_eq
      AuthGuard_def link_page_def)

text \<open>
  C30: for a signed-in operator whose role claim is one of the three roles, the sidebar shows a
  link exactly when following it shows its page instead of redirecting: the filter on the
  links and the guard on the routes agree.
\<close>

theorem links_match_guards:
  assumes "documented_match route_match" and "truthy_str (auth_token s)"
    and "auth_claims s = Some c" and "claim_role c = JStr (role_name r)"
    and "item \<in> set NAV_ITEMS"
  shows "item \<in> set (visible_items s) \<longleftrightarrow>
         App route_match True s (nav_to item) = Rendered (link_page (nav_to item))"
proof -
  have guard: "RoleGuard Admin x y s = Inr (if r = Admin then x else y)" for x y :: outcome
    using guard_by_role [OF assms(3,4), of Admin x y] by (cases r) (simp_all add: less_eq_app_role_def ROLE_RANK_def)
  have admin: "isAdmin s \<longleftrightarrow> r = Admin"
    using assms(3,4) by (cases r) (simp_all add: isAdmin_def is_string_def)
  show ?thesis
    using assms(5) by (simp add: App_link [OF assms(1,2,5)] AdminGuard_def guard admin visible_items_def)
qed

theorem links_match_guards_witness:
  "visible_items (signed_in_as ''viewer'') = [hd NAV_ITEMS] \<and>
   App exact_match True (signed_in_as ''viewer'') ''/team'' \<noteq> Rendered TeamPage"
proof -
  let ?s = "signed_in_as ''viewer''"
  have s: "truthy_str (auth_token ?s)" "auth_claims ?s = Some (parseClaims (sample_user ''viewer''))"
    "claim_role (parseClaims (sample_user ''viewer'')) = JStr (role_name Viewer)"
    by (simp_all add: signed_in_as_def auth_ops sample_user_def truthy_str_def)
  have vis: "visible_items ?s = [hd NAV_ITEMS]"
    using s(2,3) by (simp add: visible_items_def NAV_ITEMS_def isAdmin_def is_string_def)
  then show ?thesis
    using links_match_guards [OF exact_match_documented s, of "NAV_ITEMS ! 1"]
    by (simp add: NAV_ITEMS_def link_page_def)
qed

end
