(* ===== verification/TopBar.thy ===== *)
theory TopBar
  imports WsBehaviour Jsx
begin

section \<open>The top bar (server/dashboard/src/components/TopBar)\<close>

text \<open>
  The page title, taken from the path, and the indicator of the connection.  The title of a
  project page is decoded with \<open>decodeURIComponent\<close>, which works on percent escapes of UTF-8
  and raises a \<open>URIError\<close> on anything malformed.  Its result may leave ASCII, so titles are
  lists of UTF-16 code units.
\<close>

subsection \<open>decodeURIComponent\<close>

type_synonym units = "nat list"

definition units_of :: "string \<Rightarrow> units" where
  "units_of s = map of_char s"

definition hex_byte :: "char \<Rightarrow> char \<Rightarrow> nat option" where
  "hex_byte a b =
     (case (hex_digit a, hex_digit b) of (Some m, Some n) \<Rightarrow> Some (16 * m + n) | _ \<Rightarrow> None)"

text \<open>The next \<open>n\<close> percent-escaped octets and what follows them.\<close>

fun escaped_octets :: "nat \<Rightarrow> string \<Rightarrow> (nat list \<times> string) option" where
  "escaped_octets 0 s = Some ([], s)"
| "escaped_octets (Suc n) (c # a # b # s) =
     (if c = CHR ''%'' then
        (case (hex_byte a b, escaped_octets n s) of
           (Some x, Some (xs, r)) \<Rightarrow> Some (x # xs, r)
         | _ \<Rightarrow> None)
      else None)"
| "escaped_octets (Suc n) s = None"

text \<open>How many octets follow a leading octet of 128 or more.\<close>

definition following :: "nat \<Rightarrow> nat option" where
  "following b =
     (if 192 \<le> b \<and> b < 224 then Some 1
      else if 224 \<le> b \<and> b < 240 then Some 2
      else if 240 \<le> b \<and> b < 248 then Some 3 else None)"

text \<open>A UTF-8 sequence as a code point: no stray octets, overlong forms or surrogates.\<close>

definition utf8_point :: "nat \<Rightarrow> nat list \<Rightarrow> nat option" where
  "utf8_point b xs =
     (if \<not> list_all (\<lambda>x. 128 \<le> x \<and> x < 192) xs then None
      else (case xs of
              [x] \<Rightarrow> let v = (b - 192) * 64 + (x - 128) in if 128 \<le> v then Some v else None
            | [x, y] \<Rightarrow>
                let v = (b - 224) * 4096 + (x - 128) * 64 + (y - 128)
                in if 2048 \<le> v \<and> \<not> (55296 \<le> v \<and> v < 57344) then Some v else None
            | [x, y, z] \<Rightarrow>
                let v = (b - 240) * 262144 + (x - 128) * 4096 + (y - 128) * 64 + (z - 128)
                in if 65536 \<le> v \<and> v < 1114112 then Some v else None
            | _ \<Rightarrow> None))"

definition utf16 :: "nat \<Rightarrow> units" where
  "utf16 v =
     (if v < 65536 then [v]
      else [55296 + (v - 65536) div 1024, 56320 + (v - 65536) mod 1024])"

lemma escaped_octets_shorter: "escaped_octets n s = Some (xs, r) \<Longrightarrow> length r \<le> length s"
  by (induction n s arbitrary: xs r rule: escaped_octets.induct)
    (auto split: if_splits option.splits)

function decodeURIComponent :: "string \<Rightarrow> js_error + units" where
  "decodeURIComponent [] = Inr []"
| "decodeURIComponent (c # s) =
     (if c \<noteq> CHR ''%'' then map_sum id (\<lambda>us. of_char c # us) (decodeURIComponent s)
      else case escaped_octets 1 (c # s) of
             Some ([b], r) \<Rightarrow>
               if b < 128 then map_sum id (\<lambda>us. b # us) (decodeURIComponent (drop 2 s))
               else (case following b of
                       None \<Rightarrow> Inl URIError
                     | Some n \<Rightarrow>
                         (case escaped_octets n (drop 2 s) of
                            None \<Rightarrow> Inl URIError
                          | Some (xs, r') \<Rightarrow>
                              (case utf8_point b xs of
                                 None \<Rightarrow> Inl URIError
                               | Some v \<Rightarrow>
                                   map_sum id (\<lambda>us. utf16 v @ us) (decodeURIComponent (drop (2 + 3 * n) s)))))
           | _ \<Rightarrow> Inl URIError)"
  by pat_completeness auto
termination
  by (relation "measure length") auto

declare decodeURIComponent.simps(2) [simp del]

lemma decode_plain: "CHR ''%'' \<notin> set s \<Longrightarrow> decodeURIComponent s = Inr (units_of s)"
  by (induction s) (auto simp: decodeURIComponent.simps units_of_def)

lemma decode_prefix:
  "CHR ''%'' \<notin> set s \<Longrightarrow>
     decodeURIComponent (s @ t) = map_sum id (\<lambda>us. units_of s @ us) (decodeURIComponent t)"
  by (cases "decodeURIComponent t"; induction s)
    (auto simp: decodeURIComponent.simps(2) units_of_def)

subsection \<open>The title\<close>

definition PAGE_TITLES :: "(string \<times> string) list" where
  "PAGE_TITLES = [(''/'', ''Projects''), (''/team'', ''Team''), (''/settings/api-keys'', ''API Keys'')]"

definition pageTitle :: "string \<Rightarrow> js_error + units" where
  "pageTitle pathname =
     (if starts_with pathname ''/projects/'' then
        (let name = split_at CHR ''/'' pathname ! 2
         in if name \<noteq> [] then decodeURIComponent name else Inr (units_of ''Project''))
      else Inr (units_of (case map_of PAGE_TITLES pathname of Some t \<Rightarrow> t | None \<Rightarrow> ''Dashboard'')))"

subsection \<open>The indicator\<close>

text \<open>
  \<open>WsIndicator\<close> renders first with the manager's status, and its effect, which runs some time
  after that, registers its state setter as a listener.  What it shows is the last status
  delivered to that listener since, or the status of the first render.
\<close>

definition indicator_status :: "nat \<Rightarrow> ws_status \<Rightarrow> (nat \<times> ws_status) list \<Rightarrow> ws_status" where
  "indicator_status fn s0 delivered =
     foldl (\<lambda>shown (f, s). if f = fn then s else shown) s0 delivered"

fun status_label :: "ws_status \<Rightarrow> string" where
  "status_label Connected = ''Live''"
| "status_label Connecting = ''Connecting&hellip;''"
| "status_label Disconnected = ''Disconnected''"

fun status_class :: "ws_status \<Rightarrow> string" where
  "status_class Connected = ''connected''"
| "status_class Connecting = ''connecting''"
| "status_class Disconnected = ''disconnected''"

definition WsIndicator_view :: "ws_status \<Rightarrow> 'a node" where
  "WsIndicator_view s =
     El ''div'' [Cls (''wsStatus '' @ status_class s), Attr ''title'' (''WebSocket: '' @ status_label s)]
       [El ''span'' [Cls ''dot''] [],
        El ''span'' [Cls ''wsLabel''] [Txt (status_label s)]]"

text \<open>The bar: its title, in code units, and the indicator.\<close>

definition TopBar_view :: "string \<Rightarrow> ws_status \<Rightarrow> js_error + units \<times> 'a node" where
  "TopBar_view pathname s =
     (case pageTitle pathname of Inl e \<Rightarrow> Inl e | Inr title \<Rightarrow> Inr (title, WsIndicator_view s))"

subsection \<open>Every operation tells its listeners the status it ends with\<close>

definition follows :: "nat \<Rightarrow> world \<Rightarrow> world \<Rightarrow> bool" where
  "follows fn w w' \<longleftrightarrow>
     fn \<in> set (listeners w) \<longrightarrow>
     fn \<in> set (listeners w') \<and>
     (\<exists>l. notified w' = notified w @ l \<and> indicator_status fn (status w) l = status w')"

named_theorems follow_intros "one fact per operation: the operation informs its listeners"

lemma follows_same [intro]:
  "listeners w' = listeners w \<Longrightarrow> notified w' = notified w \<Longrightarrow> status w' = status w \<Longrightarrow> follows fn w w'"
  by (simp add: follows_def indicator_status_def)

lemma follows_trans: "follows fn u v \<Longrightarrow> follows fn v w \<Longrightarrow> follows fn u w"
  by (fastforce simp: follows_def indicator_status_def)

lemma indicator_deaf: "\<nexists>t. (fn, t) \<in> set delivered \<Longrightarrow> indicator_status fn s delivered = s"
  by (induction delivered arbitrary: s) (auto simp: indicator_status_def)

lemma indicator_heard:
  "\<exists>t. (fn, t) \<in> set delivered \<Longrightarrow> indicator_status fn s delivered = indicator_status fn s' delivered"
proof (induction delivered arbitrary: s s')
  case (Cons x xs)
  then show ?case
    by (cases x) (auto simp: indicator_status_def)
qed simp

lemma indicator_told:
  "fn \<in> set fs \<or> s0 = s \<Longrightarrow> indicator_status fn s0 (map (\<lambda>f. (f, s)) fs) = s"
  by (induction fs arbitrary: s0) (auto simp: indicator_status_def)

lemma setStatus_follows [follow_intros]: "follows fn w (setStatus s w)"
  by (auto simp: follows_def setStatus_def indicator_told) (simp add: indicator_status_def)

lemma setStatus_then:
  "listeners w' = listeners (setStatus s w) \<Longrightarrow> notified w' = notified (setStatus s w) \<Longrightarrow>
     status w' = s \<Longrightarrow> listeners w0 = listeners w \<Longrightarrow> notified w0 = notified w \<Longrightarrow>
     status w0 = status w \<Longrightarrow> follows fn w0 w'"
  using setStatus_follows [of fn w s] by (simp add: follows_def)

lemma open_socket_follows [follow_intros]: "follows fn w (open_socket c w)"
  unfolding open_socket_def Let_def
  by (auto intro: setStatus_then)

lemma detach_quiet [simp]: "notified (detach w) = notified w" "status (detach w) = status w"
  by (simp_all add: detach_def Let_def split: option.split)

lemma teardown_follows [follow_intros]: "follows fn w (teardown w)"
  unfolding teardown_def Let_def
  by (rule follows_trans [OF follows_same setStatus_follows]) (auto split: option.split)

lemma reconnect_follows [follow_intros]: "follows fn w (reconnect c w)"
  unfolding reconnect_def
  by (rule follows_trans [OF _ open_socket_follows]) auto

lemma subscribe_follows [follow_intros]: "follows fn w (subscribe c v w)"
  unfolding subscribe_def
  by (auto intro: follows_trans [OF follows_same reconnect_follows])

lemma unsubscribe_follows [follow_intros]: "follows fn w (unsubscribe c v w)"
  unfolding unsubscribe_def Let_def
  by (auto intro: follows_trans [OF follows_same reconnect_follows]
      follows_trans [OF follows_same teardown_follows])

lemma scheduleReconnect_follows [follow_intros]: "follows fn w (scheduleReconnect w)"
  unfolding scheduleReconnect_def Let_def
  by (auto intro: setStatus_then)

lemma set_ready_follows [follow_intros]: "follows fn w (set_ready i r w)"
  by (rule follows_same) (simp_all add: set_ready_def)

lemma handle_open_follows [follow_intros]: "follows fn w (handle_open (set_ready i r w))"
proof -
  let ?w = "setStatus Connected ((set_ready i r w)\<lparr>retryDelay := 1000\<rparr>)"
  have "follows fn w ?w"
    by (rule follows_trans [OF follows_same setStatus_follows]) (simp_all add: set_ready_def)
  moreover have "follows fn ?w (ws_send j m ?w)" for j m
    by (auto simp: ws_send_def raise_uncaught_def split: ready_state.split)
  ultimately show ?thesis
    unfolding handle_open_def Let_def
    by (auto split: option.split intro: follows_trans)
qed

lemma handle_message_follows [follow_intros]: "follows fn w (handle_message c d w)"
  by (rule follows_same)
    (auto simp: handle_message_def raise_uncaught_def split: msg_data.split option.split sum.split)

lemma socket_closed_follows [follow_intros]: "follows fn w (socket_closed i w)"
proof -
  have "follows fn w (set_ready i CLOSED w)"
    by (rule set_ready_follows)
  moreover have "follows fn u (handle_close u)" for u
    unfolding handle_close_def
    by (rule follows_trans [OF setStatus_follows scheduleReconnect_follows])
  ultimately show ?thesis
    unfolding socket_closed_def Let_def
    by (auto intro: follows_trans)
qed

lemma retry_fired_follows [follow_intros]: "follows fn w (retry_fired c (clear_timer t w))"
  unfolding retry_fired_def
  by (rule follows_trans [OF follows_same open_socket_follows]) (simp_all add: clear_timer_def)

lemma onStatusChange_follows [follow_intros]: "follows fn w (onStatusChange g w)"
  by (simp add: follows_def onStatusChange_def indicator_status_def)

lemma offStatusChange_follows: "g \<noteq> fn \<Longrightarrow> follows fn w (offStatusChange g w)"
  by (simp add: follows_def offStatusChange_def indicator_status_def)

lemma ws_step_follows: "ws_step c w e w' \<Longrightarrow> e \<noteq> Unlisten fn \<Longrightarrow> follows fn w w'"
  by (cases rule: ws_step.cases, assumption)
    (auto intro: follow_intros offStatusChange_follows)

lemma ws_runs_follows: "runs (ws_step c) w es w' \<Longrightarrow> Unlisten fn \<notin> set es \<Longrightarrow> follows fn w w'"
  by (induction rule: runs.induct) (auto intro: ws_step_follows follows_trans)

subsection \<open>Properties\<close>

text \<open>
  C28: the indicator, rendered first at one moment and listening from its effect at a later one
  until its clean-up, shows the manager's status as soon as one was delivered to it, and before
  that the status of its first render.  So, if the status was the same at the effect or one was
  delivered since, it says Disconnected exactly when no vehicle is subscribed, and Live only
  while the current socket is open or closing; a change between the first render and the effect
  is not shown until the next one.
\<close>

theorem indicator_shows_status:
  assumes "ws_runs c es wr" and "runs (ws_step c) wr gs w0" and "runs (ws_step c) (onStatusChange fn w0) fs w"
    and "Unlisten fn \<notin> set fs" and "notified w = notified w0 @ delivered"
  shows "(indicator_status fn (status wr) delivered
           = (if \<exists>s. (fn, s) \<in> set delivered then status w else status wr)) \<and>
         (status wr = status w0 \<or> (\<exists>s. (fn, s) \<in> set delivered) \<longrightarrow>
           (WsIndicator_view (indicator_status fn (status wr) delivered) :: 'a node)
             = WsIndicator_view (status w) \<and>
           (status_label (indicator_status fn (status wr) delivered) = ''Disconnected'' \<longleftrightarrow>
              subscribedIds w = []) \<and>
           (status_label (indicator_status fn (status wr) delivered) = ''Live'' \<longrightarrow>
              (\<exists>i. ws w = Some i \<and> ready w i \<in> {OPEN, CLOSING})))"
proof -
  have eq: "indicator_status fn (status w0) delivered = status w"
    using ws_runs_follows [OF assms(3,4)] assms(5) by (auto simp: follows_def onStatusChange_def)
  have heard: "indicator_status fn s delivered = (if \<exists>t. (fn, t) \<in> set delivered then status w else s)" for s
    using indicator_heard [of fn delivered s "status w0"] indicator_deaf [of fn delivered] eq by auto
  have "ws_runs c (es @ gs @ Listen fn # fs) w"
    using assms(1-3) by (auto simp: runs_append runs_Cons_iff intro: step_listen)
  then have inv: "ws_inv w" by (rule runs_inv)
  have "status_label (status w) = ''Disconnected'' \<longleftrightarrow> status w = Disconnected"
    "status_label (status w) = ''Live'' \<longleftrightarrow> status w = Connected"
    by (cases "status w"; simp)+
  moreover have "status w = Disconnected \<longleftrightarrow> subscribedIds w = []"
    "status w = Connected \<Longrightarrow> \<exists>i. ws w = Some i \<and> ready w i \<in> {OPEN, CLOSING}"
    using inv link_status by (auto simp: ws_inv_def conn_inv_def ready_def split: if_splits)
  moreover have "indicator_status fn (status wr) delivered = status w"
    if "status wr = status w0 \<or> (\<exists>s. (fn, s) \<in> set delivered)"
    using that eq heard [of "status wr"] by auto
  ultimately show ?thesis
    using heard [of "status wr"] by auto
qed

theorem indicator_shows_status_witness:
  "status_label (indicator_status 7 Connecting [(7, Connected)]) = ''Live'' \<and>
   (\<exists>w i. ws w = Some i \<and> ready w i \<in> {OPEN, CLOSING} \<and> notified w = [(7, Connected)])"
proof -
  let ?start = "demo_connecting"
  let ?w = "handle_open (set_ready 0 OPEN (onStatusChange 7 ?start))"
  have w0: "notified ?start = []" "listeners ?start = []"
    by (simp_all add: demo_connecting_def ws_ops world_init_def)
  have "ws_step demo_config (onStatusChange 7 ?start) (SocketOpen 0) ?w"
    by (rule step_open) (simp_all add: onStatusChange_def demo_connecting_state ready_def)
  then have run: "runs (ws_step demo_config) (onStatusChange 7 ?start) [SocketOpen 0] ?w"
    by (auto simp: runs_Cons_iff)
  have told: "notified ?w = notified ?start @ [(7, Connected)]"
    by (simp add: onStatusChange_def ws_ops demo_connecting_state w0)
  have live: "status_label (indicator_status 7 (status ?start) [(7, Connected)]) = ''Live''"
    by (simp add: indicator_status_def)
  show ?thesis
    using indicator_shows_status [OF demo_connecting_run runs_Nil run _ told] live told [unfolded w0 append_Nil]
    by (simp add: demo_connecting_state(4)) blast
qed

text \<open>
  On a project page the title is the path's second segment, decoded: for a name without a
  percent sign the name as it is, and every other path has its fixed title.
\<close>

theorem title_of_project:
  assumes "CHR ''%'' \<notin> set name" and "CHR ''/'' \<notin> set name"
  shows "pageTitle (''/projects/'' @ name) = Inr (units_of (if name = [] then ''Project'' else name)) \<and>
         pageTitle (''/projects/'' @ name @ CHR ''/'' # rest) = pageTitle (''/projects/'' @ name) \<and>
         (starts_with other ''/projects/'' \<or> other \<in> {''/'', ''/team'', ''/settings/api-keys''} \<or>
            pageTitle other = Inr (units_of ''Dashboard''))"
proof -
  have "split_at CHR ''/'' (''/projects/'' @ name) = [[], ''projects'', name]"
    "split_at CHR ''/'' (''/projects/'' @ name @ CHR ''/'' # rest)
       = [[], ''projects'', name] @ split_at CHR ''/'' rest"
    using assms(2) by (simp_all add: split_at_absent split_at_append_sep)
  then show ?thesis
    using decode_plain [OF assms(1)]
    by (auto simp: pageTitle_def starts_with_def PAGE_TITLES_def)
qed

theorem title_of_project_witness:
  "pageTitle ''/projects/fleet-1'' = Inr (units_of ''fleet-1'')"
  using title_of_project [of "''fleet-1''" "[]" "[]"] by simp

text \<open>
  On the path of a project whose name has a percent sign that no two hexadecimal digits follow
  the bar raises a \<open>URIError\<close> while rendering, whatever the status; the project list navigates
  to \<open>/projects/\<close> followed by the name as it is.
\<close>

theorem malformed_name_breaks_bar:
  assumes "CHR ''/'' \<notin> set (p @ t)" and "CHR ''%'' \<notin> set p"
    and "length t < 2 \<or> hex_byte (t ! 0) (t ! 1) = None"
  shows "(TopBar_view (''/projects/'' @ p @ CHR ''%'' # t) s :: js_error + units \<times> 'a node) = Inl URIError"
proof -
  have "escaped_octets 1 (CHR ''%'' # t) = None"
    using assms(3) by (cases t; cases "tl t") (auto split: option.split)
  then have "decodeURIComponent (CHR ''%'' # t) = Inl URIError"
    by (simp add: decodeURIComponent.simps(2))
  then have "decodeURIComponent (p @ CHR ''%'' # t) = Inl URIError"
    using decode_prefix [OF assms(2)] by simp
  moreover have "split_at CHR ''/'' (''/projects/'' @ p @ CHR ''%'' # t) = [[], ''projects'', p @ CHR ''%'' # t]"
    using assms(1) by (simp add: split_at_absent)
  ultimately show ?thesis
    by (simp add: TopBar_view_def pageTitle_def starts_with_def)
qed

theorem malformed_name_breaks_bar_witness:
  "(TopBar_view ''/projects/100%'' Connected :: js_error + units \<times> nat node) = Inl URIError"
  using malformed_name_breaks_bar [of "''100''" "[]" Connected] by simp

end
