(* ===== verification/DashboardView.thy ===== *)
theory DashboardView
  imports DashboardBehaviour NavSidebar TopBar
begin

section \<open>What the whole dashboard renders\<close>

text \<open>
  The tree of elements of the mounted page inside the layout of the sign-in guard: the
  sidebar, the top bar and the page, with the stores' \<open>hook\<close> that handles what the pages select.  The actions of each component are tagged with where they
  come from.  The title of the bar is a list of code units and is given next to the tree.
  Rendering raises when any of the components does; \<open>active\<close> and \<open>copied_buttons\<close> are the
  active links and the copy buttons just used, \<open>shown_status\<close> the state of the indicator.
\<close>

datatype dash_action =
    ByLogin login_action
  | ByNav nav_action
  | ByHome home_action
  | ByProject project_action
  | ByTeam team_action
  | ByKeys keys_action

definition callback_view :: "'a node" where
  "callback_view = El ''div'' [] [El ''div'' [Cls ''spinner''] []]"

definition guard_spinner :: "'a node" where
  "guard_spinner = El ''div'' [] [El ''span'' [Cls ''spinner''] []]"

definition guard_layout ::
  "engine \<Rightarrow> (string \<Rightarrow> bool \<Rightarrow> bool) \<Rightarrow> ws_status \<Rightarrow> dashboard \<Rightarrow> js_error + dash_action node \<Rightarrow>
     js_error + units \<times> dash_action node" where
  "guard_layout eng active shown_status d outlet =
     and_then (NavSidebar_view active (session d)) (\<lambda>nav.
     and_then (TopBar_view (location d) shown_status) (\<lambda>(title, indicator).
     and_then outlet (\<lambda>content.
       Inr (title,
            El ''div'' []
              [embed ByNav nav,
               El ''div'' []
                 [El ''header'' [Cls ''topbar''] [El ''span'' [Cls ''title''] [], indicator],
                  El ''main'' [] [content]]]))))"

definition dash_view ::
  "store_hook \<Rightarrow> engine \<Rightarrow> (string \<Rightarrow> bool \<Rightarrow> bool) \<Rightarrow> (nat \<Rightarrow> bool) \<Rightarrow> ws_status \<Rightarrow> dashboard \<Rightarrow>
     js_error + units \<times> dash_action node" where
  "dash_view hook eng active copied_buttons shown_status d =
     (let admin = isAdmin (session d);
          inside = guard_layout eng active shown_status d
      in case screen d of
           OnLogin \<Rightarrow> Inr ([], embed ByLogin LoginPage_view)
         | OnCallback \<Rightarrow> Inr ([], callback_view)
         | OnSpinner \<Rightarrow> Inr ([], guard_spinner)
         | OnBlank \<Rightarrow> Inr ([], El ''div'' [] [])
         | OnError e \<Rightarrow> Inl e
         | OnHome h \<Rightarrow> inside (map_sum id (embed ByHome) (HomePage_mounted hook eng (session d) h))
         | OnProject p \<Rightarrow> inside (map_sum id (embed ByProject) (ProjectPage_view hook eng admin p))
         | OnTeam t \<Rightarrow> inside (Inr (embed ByTeam (TeamPage_view t)))
         | OnKeys k \<Rightarrow> inside (map_sum id (embed ByKeys) (ApiKeysPage_view eng (session d) copied_buttons k)))"

subsection \<open>The actions offered\<close>







subsection \<open>Properties\<close>








subsection \<open>The table of a project on screen\<close>

lemma embed_row: "embed f (table_row cells) = table_row cells"
  by (simp add: table_row_def td_def)

lemma project_on_screen:
  assumes "dash_view hook eng active copied_buttons st d = Inr (title, v)" and "screen d = OnProject p"
  shows "\<exists>u. project_elements eng (isAdmin (session d)) (project_alerts p) p = Inr u \<and>
           embed ByProject ` set (descendants u) \<subseteq> set (descendants v)"
proof -
  obtain u where u: "project_elements eng (isAdmin (session d)) (project_alerts p) p = Inr u"
    and view: "ProjectPage_view hook eng (isAdmin (session d)) p = Inr u"
    using assms by (cases "ProjectPage_view hook eng (isAdmin (session d)) p")
      (auto simp: dash_view_def guard_layout_def and_then_def ProjectPage_view_Inr split: sum.splits)
  then have "set (descendants (embed ByProject u)) \<subseteq> set (descendants v)"
    using assms by (auto simp: dash_view_def guard_layout_def and_then_def split: sum.splits)
  then show ?thesis
    unfolding descendants_embed set_map using u by blast
qed

lemma table_on_screen:
  assumes "dash_view hook eng active copied_buttons st d = Inr (title, v)"
    and "screen d = OnProject p" and "page_ready p" and "shown_tab p = DataTab" and "feedRows p \<noteq> []"
  shows "\<exists>rows. El ''tbody'' [] (map table_row rows) \<in> set (descendants v) \<and>
           list_all2 (tells eng (deviceNameMap (devices p))) (feedRows p) rows"
proof -
  obtain u where u: "project_elements eng (isAdmin (session d)) (project_alerts p) p = Inr u"
    and in_v: "embed ByProject ` set (descendants u) \<subseteq> set (descendants v)"
    using project_on_screen [OF assms(1,2)] by blast
  obtain rows where body: "El ''tbody'' [] (map table_row rows) \<in> set (descendants u)"
    and told: "list_all2 (tells eng (deviceNameMap (devices p))) (feedRows p) rows"
    using elements_table [OF assms(3-5) u] by blast
  have "embed ByProject (El ''tbody'' [] (map table_row rows)) = El ''tbody'' [] (map table_row rows)"
    by (simp add: comp_def embed_row)
  then have "El ''tbody'' [] (map table_row rows) \<in> set (descendants v)"
    using in_v body by (metis imageI subset_iff)
  then show ?thesis using told by blast
qed

lemma row_on_screen:
  assumes "dash_view hook eng active copied_buttons st d = Inr (title, v)" and "screen d = OnProject p"
    and "project_elements eng (isAdmin (session d)) (project_alerts p) p = Inr u"
    and "table_row cells \<in> set (descendants u)"
  shows "table_row cells \<in> set (descendants v)"
  using project_on_screen [OF assms(1,2)] assms(3,4) embed_row [of ByProject cells]
  by (metis Inr_inject image_subset_iff)

text \<open>A frame of the feed has its row among the elements of the page.\<close>

lemma row_of_frame:
  assumes "project_elements eng admin shown p = Inr u" and "page_ready p" and "shown_tab p = DataTab"
    and "f \<in> set (feedRows p)"
  shows "\<exists>cells. table_row cells \<in> set (descendants u) \<and> tells eng (deviceNameMap (devices p)) f cells"
proof -
  have "feedRows p \<noteq> []"
    using assms(4) by auto
  then obtain rows where body: "El ''tbody'' [] (map table_row rows) \<in> set (descendants u)"
    and told: "list_all2 (tells eng (deviceNameMap (devices p))) (feedRows p) rows"
    using elements_table [OF assms(2,3) _ assms(1)] by blast
  have "set (map table_row rows) \<subseteq> set (descendants u)"
    using body by (auto dest!: descendants_child simp: table_row_def)
  moreover obtain cells where "cells \<in> set rows" "tells eng (deviceNameMap (devices p)) f cells"
    using list_all2_partner [OF told assms(4)] by blast
  ultimately show ?thesis by auto
qed

text \<open>
  C13: the table of a project tells its frames: among the elements a call of the project page's
  component returns, and in every tree of the dashboard with that page on screen, there is one
  row per frame of the feed, in its order, with the name of the device (or the first eight
  characters of its identifier), the time, latitude and longitude off by at most half a
  millionth, the altitude by at most five hundredths, and exactly the sequence number.
\<close>

theorem table_shows_feed:
  assumes "page_ready p" and "shown_tab p = DataTab" and "feedRows p \<noteq> []"
  shows "(\<forall>u. project_elements eng admin shown p = Inr u \<longrightarrow>
            (\<exists>rows. El ''tbody'' [] (map table_row rows) \<in> set (descendants u) \<and>
               list_all2 (tells eng (deviceNameMap (devices p))) (feedRows p) rows)) \<and>
         (dash_view hook eng active copied_buttons st d = Inr (title, v) \<and> screen d = OnProject p \<longrightarrow>
            (\<exists>rows. El ''tbody'' [] (map table_row rows) \<in> set (descendants v) \<and>
               list_all2 (tells eng (deviceNameMap (devices p))) (feedRows p) rows))"
  using elements_table [OF assms] table_on_screen [OF _ _ assms] by blast

text \<open>A frame with a fractional latitude, on the page of an operator without claims.\<close>

definition table_frame :: json where
  "table_frame = JObj [(''vehicle_id'', JStr ''v1-long-name''), (''ts'', JNum 0), (''lat'', JNum (3 / 2)),
     (''lon'', JNum (- 1)), (''alt'', JNum 100), (''seq'', JNum 7)]"

definition table_dash :: dashboard where
  "table_dash = (dash_start demo_config exact_match demo_param ''/login'')
     \<lparr>location := ''/team'', screen := OnProject (demo_page\<lparr>feedRows := [table_frame]\<rparr>)\<rparr>"

lemma table_dash_view: "\<exists>v. dash_view None demo_engine (\<lambda>u b. False) (\<lambda>i. False) Connected table_dash = Inr v"
proof -
  let ?p = "demo_page\<lparr>feedRows := [table_frame]\<rparr>"
  have screen: "screen table_dash = OnProject ?p" "location table_dash = ''/team''"
    by (simp_all add: table_dash_def)
  have session: "session table_dash = auth_init"
    by (simp add: table_dash_def dash_start_def rerender_def numeral_3_eq_3 Let_def App_def exact_match_def
        place_guard_def static_pattern_def route_table_eq enter_def leave_def chain_of_def world_init_def)
  obtain u where u: "project_elements demo_engine False (project_alerts ?p) ?p = Inr u"
    by (simp add: project_elements_def demo_page_state data_tab_def feed_row_def table_frame_def field_def
        device_label_def fixed_text_def react_child_def formatTs_def row_key_def primitive_def template_text_def)
  have "case NavSidebar_view (\<lambda>u b. False) auth_init of Inl e \<Rightarrow> False | Inr v \<Rightarrow> True"
    by code_simp
  then obtain nav where "NavSidebar_view (\<lambda>u b. False) auth_init = Inr nav"
    by (cases "NavSidebar_view (\<lambda>u b. False) auth_init") simp_all
  moreover have "case pageTitle ''/team'' of Inl e \<Rightarrow> False | Inr v \<Rightarrow> True"
    by code_simp
  then obtain t where "pageTitle ''/team'' = Inr t"
    by (cases "pageTitle ''/team''") simp_all
  moreover have "\<not> isAdmin auth_init"
    by (simp add: isAdmin_def auth_init_def is_string_def)
  moreover have "ProjectPage_view None demo_engine False ?p = Inr u"
    using u by (simp add: ProjectPage_view_Inr)
  ultimately show ?thesis
    by (simp add: dash_view_def screen session guard_layout_def TopBar_view_def)
qed

theorem table_shows_feed_witness:
  "\<exists>v rows. dash_view None demo_engine (\<lambda>u b. False) (\<lambda>i. False) Connected table_dash = Inr v \<and>
     El ''tbody'' [] (map table_row rows) \<in> set (descendants (snd v)) \<and>
     list_all2 (tells demo_engine (deviceNameMap (devices demo_page))) [table_frame] rows"
proof -
  let ?p = "demo_page\<lparr>feedRows := [table_frame]\<rparr>"
  obtain title v where view: "dash_view None demo_engine (\<lambda>u b. False) (\<lambda>i. False) Connected table_dash = Inr (title, v)"
    using table_dash_view by auto
  have screen: "screen table_dash = OnProject ?p"
    by (simp add: table_dash_def)
  have "page_ready ?p" "shown_tab ?p = DataTab" "feedRows ?p \<noteq> []"
    by (simp_all add: page_ready_def demo_page_state)
  from table_shows_feed [OF this] have "\<exists>rows. El ''tbody'' [] (map table_row rows) \<in> set (descendants v) \<and>
      list_all2 (tells demo_engine (deviceNameMap (devices ?p))) (feedRows ?p) rows"
    using view screen by blast
  then show ?thesis using view by auto
qed

end
