(* ===== verification/JsonText.thy ===== *)
theory JsonText
  imports Js_Values
begin

section \<open>JSON texts: JSON.parse and JSON.stringify\<close>

text \<open>
  What \<open>WsManager\<close> uses of the language's \<open>JSON\<close> object, on strings of ASCII code units: the
  parser of ECMA-404 as functions from a text to a value and the rest of the text, and the
  writer.  The parser's recursion is bounded by fuel; \<open>parse_fuel\<close> shows that the fuel
  \<open>json_parse\<close> gives is never what makes it fail.  An escape of a code unit outside ASCII has no
  counterpart in the model's strings and is refused.  How a number is written is the
  argument \<open>num\<close>: \<open>number_string\<close> when the dashboard writes, another function when the gateway
  does; \<open>read_as num rd r\<close> says that what is written for \<open>r\<close> is read as \<open>rd r\<close>, the number itself
  for the numbers the language prints, the nearest double for the digits of a whole number.
\<close>

definition json_space :: "char \<Rightarrow> bool" where
  "json_space c \<longleftrightarrow> c = CHR '' '' \<or> c = CHR 0x09 \<or> c = CHR 0x0A \<or> c = CHR 0x0D"

definition skip_space :: "string \<Rightarrow> string" where
  "skip_space = dropWhile json_space"

subsection \<open>Strings\<close>

definition simple_escapes :: "(char \<times> char) list" where
  "simple_escapes =
     [(CHR 0x22, CHR 0x22), (CHR 0x5C, CHR 0x5C), (CHR ''/'', CHR ''/''), (CHR ''b'', CHR 0x08),
      (CHR ''f'', CHR 0x0C), (CHR ''n'', CHR 0x0A), (CHR ''r'', CHR 0x0D), (CHR ''t'', CHR 0x09)]"

fun hex4 :: "string \<Rightarrow> (nat \<times> string) option" where
  "hex4 (a # b # c # d # s) =
     (case (hex_digit a, hex_digit b, hex_digit c, hex_digit d) of
        (Some i, Some j, Some k, Some l) \<Rightarrow> Some (((i * 16 + j) * 16 + k) * 16 + l, s)
      | _ \<Rightarrow> None)"
| "hex4 s = None"

text \<open>One character of a string, escaped or not; a control character must be escaped.\<close>

fun read_char :: "string \<Rightarrow> (char \<times> string) option" where
  "read_char [] = None"
| "read_char (c # t) =
     (if c = CHR 0x5C then
        (case t of
           [] \<Rightarrow> None
         | e # u \<Rightarrow>
             if e = CHR ''u'' then
               (case hex4 u of Some (n, v) \<Rightarrow> if n < 128 then Some (char_of n, v) else None | None \<Rightarrow> None)
             else map_option (\<lambda>x. (x, u)) (map_of simple_escapes e))
      else if (of_char c :: nat) < 32 then None
      else Some (c, t))"

lemma hex4_shorter: "hex4 s = Some (n, t) \<Longrightarrow> length t < length s"
  by (cases s rule: hex4.cases) (auto split: option.splits)

lemma read_char_shorter: "read_char s = Some (x, t) \<Longrightarrow> length t < length s"
  by (cases s) (auto split: if_splits list.splits option.splits dest: hex4_shorter)

declare read_char.simps [simp del]

text \<open>The characters up to the closing quotation mark.\<close>

function read_string :: "string \<Rightarrow> (string \<times> string) option" where
  "read_string s =
     (case s of
        [] \<Rightarrow> None
      | c # t \<Rightarrow>
          if c = CHR 0x22 then Some ([], t)
          else (case read_char s of
                  None \<Rightarrow> None
                | Some (x, u) \<Rightarrow> map_option (\<lambda>(xs, v). (x # xs, v)) (read_string u)))"
  by pat_completeness auto
termination
  by (relation "measure length") (use read_char_shorter in fastforce)+

declare read_string.simps [simp del]

lemma read_string_Nil [simp]: "read_string [] = None"
  by (simp add: read_string.simps)

lemma read_string_Cons:
  "read_string (c # t) =
     (if c = CHR 0x22 then Some ([], t)
      else (case read_char (c # t) of
              None \<Rightarrow> None
            | Some (x, u) \<Rightarrow> map_option (\<lambda>(xs, v). (x # xs, v)) (read_string u)))"
  by (subst read_string.simps) simp

lemma read_string_shorter: "read_string s = Some (xs, t) \<Longrightarrow> length t < length s"
proof (induction "length s" arbitrary: s xs rule: less_induct)
  case less
  show ?case
  proof (cases s)
    case Nil
    with less.prems show ?thesis by simp
  next
    case (Cons c r)
    show ?thesis
    proof (cases "c = CHR 0x22")
      case True
      with less.prems Cons show ?thesis by (simp add: read_string_Cons)
    next
      case False
      then obtain x u ys where "read_char s = Some (x, u)" "read_string u = Some (ys, t)"
        using less.prems Cons by (auto simp: read_string_Cons split: option.splits)
      then show ?thesis
        using less.hyps read_char_shorter less_trans by blast
    qed
  qed
qed

definition hex_char :: "nat \<Rightarrow> char" where
  "hex_char n = char_of (if n < 10 then 48 + n else 87 + n)"

definition escape_char :: "char \<Rightarrow> string" where
  "escape_char c =
     (if c = CHR 0x22 then [CHR 0x5C, CHR 0x22]
      else if c = CHR 0x5C then [CHR 0x5C, CHR 0x5C]
      else if c = CHR 0x08 then [CHR 0x5C, CHR ''b'']
      else if c = CHR 0x09 then [CHR 0x5C, CHR ''t'']
      else if c = CHR 0x0A then [CHR 0x5C, CHR ''n'']
      else if c = CHR 0x0C then [CHR 0x5C, CHR ''f'']
      else if c = CHR 0x0D then [CHR 0x5C, CHR ''r'']
      else let n = of_char c :: nat
           in if n < 32 then
                [CHR 0x5C, CHR ''u'', CHR ''0'', CHR ''0'', hex_char (n div 16), hex_char (n mod 16)]
              else [c])"

definition string_text :: "string \<Rightarrow> string" where
  "string_text s = CHR 0x22 # concat (map escape_char s) @ [CHR 0x22]"

lemma hex_digit_char: "n < 16 \<Longrightarrow> hex_digit (hex_char n) = Some n"
  by (simp add: hex_digit_def hex_char_def Let_def)

text \<open>The writer's form of a character is read back, whatever follows.\<close>

lemma read_escaped: "read_char (escape_char c @ t) = Some (c, t)"
proof -
  have hex0: "hex_digit CHR ''0'' = Some 0"
    by (simp add: hex_digit_def)
  have small: "read_char (CHR 0x5C # CHR ''u'' # CHR ''0'' # CHR ''0'' # hex_char (n div 16) # hex_char (n mod 16) # t)
      = Some (char_of n, t)" if "n < 32" for n :: nat
    using that by (simp add: read_char.simps hex0 hex_digit_char)
  show ?thesis
    using small [of "of_char c"]
    by (auto simp: escape_char_def read_char.simps simple_escapes_def Let_def)
qed

lemma escape_char_not_quote: "\<exists>d ds. escape_char c = d # ds \<and> d \<noteq> CHR 0x22"
  by (simp add: escape_char_def Let_def)

lemma read_string_text: "read_string (concat (map escape_char s) @ CHR 0x22 # t) = Some (s, t)"
proof (induction s)
  case Nil
  then show ?case by (simp add: read_string_Cons)
next
  case (Cons c s)
  let ?rest = "concat (map escape_char s) @ CHR 0x22 # t"
  obtain d ds where d: "escape_char c = d # ds" "d \<noteq> CHR 0x22"
    using escape_char_not_quote by blast
  then have "read_string (escape_char c @ ?rest) = map_option (\<lambda>(xs, v). (c # xs, v)) (read_string ?rest)"
    using read_escaped [of c ?rest] by (simp add: read_string_Cons)
  with Cons.IH show ?case by simp
qed

subsection \<open>Values\<close>

text \<open>Members of an object: a later value for a name replaces the earlier, in its place.\<close>

definition set_prop :: "(string \<times> json) list \<Rightarrow> string \<times> json \<Rightarrow> (string \<times> json) list" where
  "set_prop ps kv =
     (if fst kv \<in> fst ` set ps then map (\<lambda>p. if fst p = fst kv then kv else p) ps else ps @ [kv])"

definition object_of :: "(string \<times> json) list \<Rightarrow> json" where
  "object_of kvs = JObj (foldl set_prop [] kvs)"

definition literals :: "(string \<times> json) list" where
  "literals = [(''true'', JBool True), (''false'', JBool False), (''null'', JNull)]"

fun read_literal :: "(string \<times> json) list \<Rightarrow> string \<Rightarrow> (json \<times> string) option" where
  "read_literal [] s = None"
| "read_literal ((w, v) # ls) s =
     (if starts_with s w then Some (v, drop (length w) s) else read_literal ls s)"

fun expect :: "char \<Rightarrow> string \<Rightarrow> string option" where
  "expect c [] = None"
| "expect c (d # s) = (if d = c then Some s else None)"

text \<open>\<open>fuel\<close> bounds the calls; a closing bracket ends a list of elements, a comma continues it.\<close>

fun parse_value :: "nat \<Rightarrow> string \<Rightarrow> (json \<times> string) option"
and parse_elements :: "nat \<Rightarrow> string \<Rightarrow> (json list \<times> string) option"
and parse_members :: "nat \<Rightarrow> string \<Rightarrow> ((string \<times> json) list \<times> string) option" where
  "parse_value 0 s = None"
| "parse_value (Suc n) s =
     (case skip_space s of
        [] \<Rightarrow> None
      | c # t \<Rightarrow>
          if c = CHR 0x22 then map_option (\<lambda>(x, r). (JStr x, r)) (read_string t)
          else if c = CHR ''['' then
            (case expect (CHR '']'') (skip_space t) of
               Some r \<Rightarrow> Some (JArr [], r)
             | None \<Rightarrow> map_option (\<lambda>(vs, r). (JArr vs, r)) (parse_elements n t))
          else if c = CHR ''{'' then
            (case expect (CHR ''}'') (skip_space t) of
               Some r \<Rightarrow> Some (JObj [], r)
             | None \<Rightarrow> map_option (\<lambda>(kvs, r). (object_of kvs, r)) (parse_members n t))
          else (case read_literal literals (c # t) of
                  Some vr \<Rightarrow> Some vr
                | None \<Rightarrow> map_option (\<lambda>(x, r). (JNum x, r)) (read_number (c # t))))"
| "parse_elements 0 s = None"
| "parse_elements (Suc n) s =
     (case parse_value n s of
        None \<Rightarrow> None
      | Some (v, r) \<Rightarrow>
          (case skip_space r of
             [] \<Rightarrow> None
           | d # u \<Rightarrow>
               if d = CHR '','' then map_option (\<lambda>(vs, r'). (v # vs, r')) (parse_elements n u)
               else if d = CHR '']'' then Some ([v], u)
               else None))"
| "parse_members 0 s = None"
| "parse_members (Suc n) s =
     (case Option.bind (expect (CHR 0x22) (skip_space s)) read_string of
        None \<Rightarrow> None
      | Some (k, r) \<Rightarrow>
          (case Option.bind (expect (CHR '':'') (skip_space r)) (parse_value n) of
             None \<Rightarrow> None
           | Some (v, r1) \<Rightarrow>
               (case skip_space r1 of
                  [] \<Rightarrow> None
                | d # u \<Rightarrow>
                    if d = CHR '','' then map_option (\<lambda>(kvs, r'). ((k, v) # kvs, r')) (parse_members n u)
                    else if d = CHR ''}'' then Some ([(k, v)], u)
                    else None)))"

definition json_parse :: "string \<Rightarrow> json option" where
  "json_parse s =
     (case parse_value (2 * length s + 2) s of
        None \<Rightarrow> None
      | Some (v, r) \<Rightarrow> if skip_space r = [] then Some v else None)"

fun json_text :: "(rat \<Rightarrow> string) \<Rightarrow> json \<Rightarrow> string" where
  "json_text num JNull = ''null''"
| "json_text num (JBool b) = (if b then ''true'' else ''false'')"
| "json_text num (JNum r) = num r"
| "json_text num (JStr s) = string_text s"
| "json_text num (JArr vs) = CHR ''['' # join '','' (map (json_text num) vs) @ [CHR '']'']"
| "json_text num (JObj kvs) =
     CHR ''{'' # join '','' (map (\<lambda>(k, v). string_text k @ CHR '':'' # json_text num v) kvs) @ [CHR ''}'']"

subsection \<open>The fuel suffices\<close>

lemma skip_space_shorter: "length (skip_space s) \<le> length s"
  by (simp add: skip_space_def length_dropWhile_le)

lemma expect_Some: "expect c s = Some t \<longleftrightarrow> s = c # t"
  by (cases s) auto

lemma read_literal_shorter: "read_literal ls s = Some (v, t) \<Longrightarrow> [] \<notin> fst ` set ls \<Longrightarrow> length t < length s"
proof (induction ls s rule: read_literal.induct)
  case (2 w u ls s)
  show ?case
  proof (cases "starts_with s w")
    case True
    then have "t = drop (length w) s" "0 < length w" "s \<noteq> []"
      using 2(2,3) by (auto simp: starts_with_def)
    then show ?thesis by simp
  next
    case False
    then show ?thesis using 2 by simp
  qed
qed simp

lemma literals_shorter: "read_literal literals s = Some (v, t) \<Longrightarrow> length t < length s"
  by (erule read_literal_shorter) (simp add: literals_def)

lemma skip_space_Cons: "skip_space s = c # t \<Longrightarrow> length t < length s"
  using skip_space_shorter [of s] by simp

text \<open>What a call that succeeds has done.\<close>

lemma parse_value_Some:
  "parse_value (Suc n) s = Some (v, t) \<Longrightarrow> \<exists>c u. skip_space s = c # u \<and>
     ((\<exists>x. read_string u = Some (x, t)) \<or> skip_space u = CHR '']'' # t \<or> skip_space u = CHR ''}'' # t \<or>
      (\<exists>vs. parse_elements n u = Some (vs, t)) \<or> (\<exists>kvs. parse_members n u = Some (kvs, t)) \<or>
      read_literal literals (c # u) = Some (v, t) \<or> (\<exists>x. read_number (c # u) = Some (x, t)))"
  by (auto simp: expect_Some split: list.splits if_splits option.splits)

lemma parse_elements_Some:
  "parse_elements (Suc n) s = Some (vs, t) \<longleftrightarrow> (\<exists>v r d u. parse_value n s = Some (v, r) \<and> skip_space r = d # u \<and>
     (d = CHR '','' \<and> (\<exists>ws. parse_elements n u = Some (ws, t) \<and> vs = v # ws) \<or>
      d = CHR '']'' \<and> vs = [v] \<and> t = u))"
  by (auto split: list.splits if_splits option.splits)

lemma parse_members_Some:
  "parse_members (Suc n) s = Some (kvs, t) \<longleftrightarrow> (\<exists>y k r y2 v r1 d u.
     skip_space s = CHR 0x22 # y \<and> read_string y = Some (k, r) \<and> skip_space r = CHR '':'' # y2 \<and>
     parse_value n y2 = Some (v, r1) \<and> skip_space r1 = d # u \<and>
     (d = CHR '','' \<and> (\<exists>ws. parse_members n u = Some (ws, t) \<and> kvs = (k, v) # ws) \<or>
      d = CHR ''}'' \<and> kvs = [(k, v)] \<and> t = u))"
  by (force simp: expect_Some bind_eq_Some_conv split: list.splits if_splits option.splits)

lemma parse_shorter:
  "(\<forall>s v t. parse_value n s = Some (v, t) \<longrightarrow> length t < length s) \<and>
   (\<forall>s vs t. parse_elements n s = Some (vs, t) \<longrightarrow> length t < length s) \<and>
   (\<forall>s kvs t. parse_members n s = Some (kvs, t) \<longrightarrow> length t < length s)"
proof (induction n)
  case (Suc n)
  have "length t < length s" if parsed: "parse_value (Suc n) s = Some (v, t)" for s v t
  proof -
    obtain c u where cu: "skip_space s = c # u" and
      cases: "(\<exists>x. read_string u = Some (x, t)) \<or> skip_space u = CHR '']'' # t \<or> skip_space u = CHR ''}'' # t \<or>
        (\<exists>vs. parse_elements n u = Some (vs, t)) \<or> (\<exists>kvs. parse_members n u = Some (kvs, t)) \<or>
        read_literal literals (c # u) = Some (v, t) \<or> (\<exists>x. read_number (c # u) = Some (x, t))"
      using parse_value_Some [OF parsed] by blast
    have "length t < length (c # u)"
      using cases
    proof (elim disjE exE)
      show "length t < length (c # u)" if "read_string u = Some (x, t)" for x
        using read_string_shorter [OF that] by simp
      show "length t < length (c # u)" if "skip_space u = CHR '']'' # t"
        using skip_space_Cons [OF that] by simp
      show "length t < length (c # u)" if "skip_space u = CHR ''}'' # t"
        using skip_space_Cons [OF that] by simp
      show "length t < length (c # u)" if "parse_elements n u = Some (vs, t)" for vs
        using Suc.IH that by fastforce
      show "length t < length (c # u)" if "parse_members n u = Some (kvs, t)" for kvs
        using Suc.IH that by fastforce
      show "length t < length (c # u)" if "read_literal literals (c # u) = Some (v, t)"
        using literals_shorter [OF that] .
      show "length t < length (c # u)" if "read_number (c # u) = Some (x, t)" for x
        using read_number_shorter [OF that] .
    qed
    also have "\<dots> \<le> length s"
      using skip_space_shorter [of s] by (simp add: cu)
    finally show ?thesis .
  qed
  moreover have "length t < length s" if "parse_elements (Suc n) s = Some (vs, t)" for s vs t
    using that Suc.IH skip_space_Cons unfolding parse_elements_Some by (meson less_trans)
  moreover have "length t < length s" if "parse_members (Suc n) s = Some (kvs, t)" for s kvs t
    using that Suc.IH skip_space_Cons read_string_shorter unfolding parse_members_Some by (meson less_trans)
  ultimately show ?case by blast
qed simp

text \<open>
  Fuel above twice the length of the text makes no difference: the calls nest at most two deep
  for each character consumed.
\<close>

lemma parse_value_Suc:
  assumes "\<And>u. length u < length s \<Longrightarrow> parse_elements n u = parse_elements m u \<and> parse_members n u = parse_members m u"
  shows "parse_value (Suc n) s = parse_value (Suc m) s"
proof (cases "skip_space s")
  case (Cons c t)
  then have "parse_elements n t = parse_elements m t" "parse_members n t = parse_members m t"
    using assms skip_space_Cons by blast+
  with Cons show ?thesis by (simp del: read_literal.simps split: option.split)
qed simp

lemma parse_elements_Suc:
  assumes "parse_value n s = parse_value m s"
    and "\<And>u. length u < length s \<Longrightarrow> parse_elements n u = parse_elements m u"
  shows "parse_elements (Suc n) s = parse_elements (Suc m) s"
proof (cases "parse_value n s")
  case (Some vr)
  obtain v r where vr: "vr = (v, r)" by (cases vr)
  then have "length r < length s" using Some parse_shorter by blast
  then have "parse_elements n u = parse_elements m u" if "skip_space r = d # u" for d u
    using assms(2) skip_space_Cons [OF that] less_trans by blast
  then show ?thesis
    using Some assms(1) vr by (simp split: list.split)
qed (use assms(1) in simp)

lemma parse_members_Suc:
  assumes "\<And>u. length u < length s \<Longrightarrow> parse_value n u = parse_value m u \<and> parse_members n u = parse_members m u"
  shows "parse_members (Suc n) s = parse_members (Suc m) s"
proof (cases "Option.bind (expect (CHR 0x22) (skip_space s)) read_string")
  case (Some kr)
  obtain k r where kr: "kr = (k, r)" by (cases kr)
  obtain y where "skip_space s = CHR 0x22 # y" "read_string y = Some (k, r)"
    using Some kr by (auto simp: bind_eq_Some_conv expect_Some)
  then have r: "length r < length s"
    using skip_space_Cons read_string_shorter less_trans by blast
  have colon: "Option.bind (expect (CHR '':'') (skip_space r)) (parse_value n)
      = Option.bind (expect (CHR '':'') (skip_space r)) (parse_value m)"
  proof (cases "expect (CHR '':'') (skip_space r)")
    case (Some y2)
    then have "length y2 < length s" using skip_space_Cons [of r] r by (auto simp: expect_Some)
    then show ?thesis using assms Some by simp
  qed simp
  have "parse_members n u = parse_members m u"
    if v: "Option.bind (expect (CHR '':'') (skip_space r)) (parse_value m) = Some (v, r1)"
      and u: "skip_space r1 = d # u" for v r1 d u
  proof -
    obtain y2 where "skip_space r = CHR '':'' # y2" "parse_value m y2 = Some (v, r1)"
      using v by (auto simp: bind_eq_Some_conv expect_Some)
    then have "length r1 < length s"
      using skip_space_Cons [of r] parse_shorter [of m] r by fastforce
    then show ?thesis using assms skip_space_Cons [OF u] less_trans by blast
  qed
  then show ?thesis
    using Some kr colon by (auto split: option.split list.split)
qed simp

lemma parse_fuel:
  "(\<forall>s m. 2 * length s + 1 \<le> n \<longrightarrow> n \<le> m \<longrightarrow> parse_value n s = parse_value m s) \<and>
   (\<forall>s m. 2 * length s + 2 \<le> n \<longrightarrow> n \<le> m \<longrightarrow> parse_elements n s = parse_elements m s) \<and>
   (\<forall>s m. 2 * length s + 2 \<le> n \<longrightarrow> n \<le> m \<longrightarrow> parse_members n s = parse_members m s)"
proof (induction n)
  case (Suc n)
  have "parse_value (Suc n) s = parse_value m s" if enough: "2 * length s + 1 \<le> Suc n" "Suc n \<le> m" for s m
  proof -
    obtain k where m: "m = Suc k" "n \<le> k" using enough(2) by (cases m) auto
    show ?thesis unfolding m(1) using enough(1) m(2) Suc.IH by (intro parse_value_Suc) simp
  qed
  moreover have "parse_elements (Suc n) s = parse_elements m s" if enough: "2 * length s + 2 \<le> Suc n" "Suc n \<le> m" for s m
  proof -
    obtain k where m: "m = Suc k" "n \<le> k" using enough(2) by (cases m) auto
    show ?thesis unfolding m(1) using enough(1) m(2) Suc.IH by (intro parse_elements_Suc) simp_all
  qed
  moreover have "parse_members (Suc n) s = parse_members m s" if enough: "2 * length s + 2 \<le> Suc n" "Suc n \<le> m" for s m
  proof -
    obtain k where m: "m = Suc k" "n \<le> k" using enough(2) by (cases m) auto
    show ?thesis unfolding m(1) using enough(1) m(2) Suc.IH by (intro parse_members_Suc) simp
  qed
  ultimately show ?case by blast
qed simp

lemma json_parse_fuel:
  "2 * length s + 2 \<le> n \<Longrightarrow>
     json_parse s = (case parse_value n s of None \<Rightarrow> None | Some (v, r) \<Rightarrow> if skip_space r = [] then Some v else None)"
  using parse_fuel [of "2 * length s + 2"] by (simp add: json_parse_def)

subsection \<open>What is written is read back\<close>

text \<open>What can follow a value, and the numbers whose printed form is read back in front of it.\<close>

definition ends_value :: "string \<Rightarrow> bool" where
  "ends_value rest \<longleftrightarrow> rest = [] \<or> hd rest \<in> {CHR '','', CHR '']'', CHR ''}''}"

text \<open>The printer \<open>num\<close> writes \<open>r\<close> as a text that is read as \<open>f r\<close>.\<close>

definition read_as :: "(rat \<Rightarrow> string) \<Rightarrow> (rat \<Rightarrow> rat) \<Rightarrow> rat \<Rightarrow> bool" where
  "read_as num f r \<longleftrightarrow> (\<forall>rest. ends_value rest \<longrightarrow> read_number (num r @ rest) = Some (f r, rest))"

text \<open>Values that can be written: no name twice in an object, and the numbers read as \<open>f\<close> says.\<close>

fun writable :: "(rat \<Rightarrow> string) \<Rightarrow> (rat \<Rightarrow> rat) \<Rightarrow> json \<Rightarrow> bool" where
  "writable num f (JNum r) = read_as num f r"
| "writable num f (JArr vs) = (\<forall>v \<in> set vs. writable num f v)"
| "writable num f (JObj kvs) = (distinct (map fst kvs) \<and> (\<forall>kv \<in> set kvs. writable num f (snd kv)))"
| "writable num f v = True"

fun map_numbers :: "(rat \<Rightarrow> rat) \<Rightarrow> json \<Rightarrow> json" where
  "map_numbers f (JNum r) = JNum (f r)"
| "map_numbers f (JArr vs) = JArr (map (map_numbers f) vs)"
| "map_numbers f (JObj kvs) = JObj (map (\<lambda>(k, v). (k, map_numbers f v)) kvs)"
| "map_numbers f v = v"

lemma map_numbers_id [simp]: "map_numbers (\<lambda>r. r) j = j"
  by (induction j) (auto intro!: map_idI)

lemma join_simps [simp]:
  "join sep [] = []" "join sep [x] = x" "join sep (x # y # ys) = x @ sep @ join sep (y # ys)"
  by (simp_all add: join_def)

lemma skip_space_first [simp]: "\<not> json_space c \<Longrightarrow> skip_space (c # t) = c # t"
  by (simp add: skip_space_def)

lemma json_space_simps [simp]:
  "\<not> json_space CHR 0x22" "\<not> json_space CHR '',''" "\<not> json_space CHR '']''" "\<not> json_space CHR ''}''"
  "\<not> json_space CHR '':''" "\<not> json_space CHR ''[''" "\<not> json_space CHR ''{''" "\<not> json_space CHR ''n''"
  "\<not> json_space CHR ''t''" "\<not> json_space CHR ''f''" "\<not> json_space CHR ''-''"
  by (simp_all add: json_space_def)

lemma object_of_distinct: "distinct (map fst kvs) \<Longrightarrow> object_of kvs = JObj kvs"
proof -
  have "distinct (map fst (acc @ kvs)) \<Longrightarrow> foldl set_prop acc kvs = acc @ kvs" for acc
  proof (induction kvs arbitrary: acc)
    case (Cons kv kvs)
    then have "set_prop acc kv = acc @ [kv]" by (auto simp: set_prop_def)
    with Cons.IH [of "acc @ [kv]"] Cons.prems show ?case by simp
  qed simp
  from this [of "[]"] show "distinct (map fst kvs) \<Longrightarrow> object_of kvs = JObj kvs"
    by (simp add: object_of_def)
qed

lemma read_number_first: "read_number (c # t) = Some (r, u) \<Longrightarrow> c = CHR ''-'' \<or> is_digit c"
  by (auto simp: read_number_def read_decimal_def bind_eq_Some_conv dest: read_unsigned_no_sign split: if_splits)

lemma number_first:
  assumes "read_as num f r"
  shows "\<exists>c t. num r = c # t \<and> (c = CHR ''-'' \<or> is_digit c)"
proof -
  have "read_number (num r @ []) = Some (f r, [])"
    using assms unfolding read_as_def ends_value_def by blast
  then show ?thesis
    using read_number_first by (cases "num r") (auto simp: read_number_def read_decimal_def)
qed

lemma digit_first: "c = CHR ''-'' \<or> is_digit c \<Longrightarrow>
    \<not> json_space c \<and> c \<notin> {CHR 0x22, CHR ''['', CHR ''{'', CHR '']'', CHR ''}'', CHR ''t'', CHR ''f'', CHR ''n''}"
  by (auto simp: json_space_def is_digit_def)

lemma no_literal: "c \<notin> {CHR ''t'', CHR ''f'', CHR ''n''} \<Longrightarrow> read_literal literals (c # t) = None"
  by (simp add: literals_def starts_with_def)

lemma text_first:
  "writable num f j \<Longrightarrow> \<exists>c t. json_text num j = c # t \<and> \<not> json_space c \<and> c \<noteq> CHR '']''"
proof (cases j)
  case (JNum r)
  assume "writable num f j"
  then have "read_as num f r" by (simp add: JNum)
  then obtain c t where "num r = c # t" "c = CHR ''-'' \<or> is_digit c"
    using number_first by blast
  then show ?thesis using digit_first [of c] JNum by simp
qed (simp_all add: string_text_def)

text \<open>The text of an array's elements and of an object's members, up to the closing bracket.\<close>

abbreviation elements_text :: "(rat \<Rightarrow> string) \<Rightarrow> json list \<Rightarrow> string" where
  "elements_text num vs \<equiv> join '','' (map (json_text num) vs)"

abbreviation members_text :: "(rat \<Rightarrow> string) \<Rightarrow> (string \<times> json) list \<Rightarrow> string" where
  "members_text num kvs \<equiv> join '','' (map (\<lambda>(k, v). string_text k @ CHR '':'' # json_text num v) kvs)"

definition value_read :: "(rat \<Rightarrow> string) \<Rightarrow> (rat \<Rightarrow> rat) \<Rightarrow> json \<Rightarrow> bool" where
  "value_read num f j \<longleftrightarrow> (\<forall>n rest. ends_value rest \<longrightarrow> length (json_text num j) \<le> n \<longrightarrow>
     parse_value n (json_text num j @ rest) = Some (map_numbers f j, rest))"

lemma elements_read:
  "vs \<noteq> [] \<Longrightarrow> \<forall>v \<in> set vs. value_read num f v \<and> writable num f v \<Longrightarrow> Suc (length (elements_text num vs)) \<le> n \<Longrightarrow>
     parse_elements n (elements_text num vs @ CHR '']'' # rest) = Some (map (map_numbers f) vs, rest)"
proof (induction vs arbitrary: n rule: list_nonempty_induct)
  case (single v)
  then obtain m where n: "n = Suc m" "length (json_text num v) \<le> m" by (cases n) auto
  then have "parse_value m (json_text num v @ CHR '']'' # rest) = Some (map_numbers f v, CHR '']'' # rest)"
    using single by (simp add: value_read_def ends_value_def)
  then show ?case by (simp add: n)
next
  case (cons v vs)
  obtain w ws where vs: "vs = w # ws" using cons.hyps by (cases vs) auto
  obtain c t where first: "json_text num v = c # t" using cons.prems text_first by fastforce
  obtain m where n: "n = Suc m" using cons.prems(2) by (cases n) auto
  have len: "length (json_text num v) \<le> m" "Suc (length (elements_text num vs)) \<le> m"
    using cons.prems(2) first by (simp_all add: n vs)
  have "parse_value m (json_text num v @ CHR '','' # elements_text num vs @ CHR '']'' # rest)
      = Some (map_numbers f v, CHR '','' # elements_text num vs @ CHR '']'' # rest)"
    using cons.prems(1) len(1) by (simp add: value_read_def ends_value_def)
  then show ?case
    using cons.IH [OF _ len(2)] cons.prems(1) by (simp add: n vs)
qed

lemma members_read:
  "kvs \<noteq> [] \<Longrightarrow> \<forall>kv \<in> set kvs. value_read num f (snd kv) \<Longrightarrow> Suc (length (members_text num kvs)) \<le> n \<Longrightarrow>
     parse_members n (members_text num kvs @ CHR ''}'' # rest) = Some (map (\<lambda>(k, v). (k, map_numbers f v)) kvs, rest)"
proof (induction kvs arbitrary: n rule: list_nonempty_induct)
  case (single kv)
  obtain k v where kv: "kv = (k, v)" by (cases kv)
  obtain m where n: "n = Suc m" "length (json_text num v) \<le> m"
    using single(2) by (cases n) (auto simp: kv)
  then have "parse_value m (json_text num v @ CHR ''}'' # rest) = Some (map_numbers f v, CHR ''}'' # rest)"
    using single(1) by (simp add: value_read_def ends_value_def kv)
  then show ?case by (simp add: n kv string_text_def read_string_text)
next
  case (cons kv kvs)
  obtain k v where kv: "kv = (k, v)" by (cases kv)
  obtain w ws where kvs: "kvs = w # ws" using cons.hyps by (cases kvs) auto
  obtain m where n: "n = Suc m" using cons.prems(2) by (cases n) auto
  have len: "length (json_text num v) \<le> m" "Suc (length (members_text num kvs)) \<le> m"
    using cons.prems(2) by (simp_all add: n kv kvs string_text_def)
  have "parse_value m (json_text num v @ CHR '','' # members_text num kvs @ CHR ''}'' # rest)
      = Some (map_numbers f v, CHR '','' # members_text num kvs @ CHR ''}'' # rest)"
    using cons.prems(1) len(1) by (simp add: value_read_def ends_value_def kv)
  then show ?case
    using cons.IH [OF _ len(2)] cons.prems(1) by (simp add: n kv kvs string_text_def read_string_text)
qed

lemma value_text: "writable num f j \<Longrightarrow> value_read num f j"
proof (induction j)
  case JNull
  show ?case unfolding value_read_def
    by (auto simp: literals_def starts_with_def Suc_le_length_iff dest!: Suc_le_D)
next
  case (JBool b)
  show ?case unfolding value_read_def
    by (auto simp: literals_def starts_with_def dest!: Suc_le_D)
next
  case (JNum r)
  then have "read_as num f r" by simp
  then obtain c t where ct: "num r = c # t" "c = CHR ''-'' \<or> is_digit c"
    using number_first by blast
  note first = digit_first [OF ct(2)]
  have "parse_value (Suc n) (num r @ rest) = Some (JNum (f r), rest)" if "ends_value rest" for n rest
    using JNum that first no_literal [of c "t @ rest"] by (simp add: ct(1) read_as_def)
  then show ?case
    unfolding value_read_def by (auto simp: ct(1) dest!: Suc_le_D)
next
  case (JStr s)
  show ?case unfolding value_read_def
    by (auto simp: string_text_def read_string_text dest!: Suc_le_D)
next
  case (JArr vs)
  then have elements: "\<forall>v \<in> set vs. value_read num f v \<and> writable num f v" by simp
  have "parse_value (Suc n) (json_text num (JArr vs) @ rest) = Some (map_numbers f (JArr vs), rest)"
    if "Suc (length (elements_text num vs)) \<le> n" for n rest
  proof (cases vs)
    case (Cons v ws)
    obtain c t where "json_text num v = c # t" "\<not> json_space c" "c \<noteq> CHR '']''"
      using JArr.prems Cons text_first [of num f v] by auto
    moreover have "\<exists>t'. elements_text num vs = c # t'" if "json_text num v = c # t" for c t
      using that Cons by (cases ws) simp_all
    ultimately obtain t' where "elements_text num vs = c # t'" "\<not> json_space c" "c \<noteq> CHR '']''" by blast
    then show ?thesis
      using elements_read [of vs num f n rest] elements that Cons by (simp del: join_simps)
  qed simp
  then have "parse_value n (json_text num (JArr vs) @ rest) = Some (map_numbers f (JArr vs), rest)"
    if "length (json_text num (JArr vs)) \<le> n" for n rest
    using that by (cases n) simp_all
  then show ?case by (simp add: value_read_def)
next
  case (JObj kvs)
  then have members: "\<forall>kv \<in> set kvs. value_read num f (snd kv)" "distinct (map fst kvs)"
    by (auto simp: snds.simps)
  have "parse_value (Suc n) (json_text num (JObj kvs) @ rest) = Some (map_numbers f (JObj kvs), rest)"
    if "Suc (length (members_text num kvs)) \<le> n" for n rest
  proof (cases kvs)
    case (Cons kv ws)
    obtain t where "members_text num kvs = CHR 0x22 # t"
      using Cons by (cases ws) (auto simp: string_text_def case_prod_beta)
    then show ?thesis
      using members_read [of kvs num f n rest] members that Cons by (simp add: object_of_distinct o_def case_prod_beta del: join_simps)
  qed simp
  then have "parse_value n (json_text num (JObj kvs) @ rest) = Some (map_numbers f (JObj kvs), rest)"
    if "length (json_text num (JObj kvs)) \<le> n" for n rest
    using that by (cases n) simp_all
  then show ?case by (simp add: value_read_def)
qed

theorem json_round_trip: "writable num f j \<Longrightarrow> json_parse (json_text num j) = Some (map_numbers f j)"
  using value_text [of num f j] unfolding value_read_def json_parse_def
  by (auto simp: ends_value_def skip_space_def dest!: spec [of _ "2 * length (json_text num j) + 2"] spec [of _ "[]"])

subsection \<open>Whole numbers\<close>

text \<open>A whole number as its decimal digits, the way the gateway writes 64-bit integers.\<close>

definition int_text :: "int \<Rightarrow> string" where
  "int_text i = (if i < 0 then CHR ''-'' # nat_text (nat (- i)) else nat_text (nat i))"

definition whole_text :: "rat \<Rightarrow> string" where
  "whole_text r = int_text \<lfloor>r\<rfloor>"

lemma ends_value_number: "ends_value rest \<Longrightarrow> ends_number rest"
  by (auto simp: ends_value_def ends_number_def is_digit_def)

lemma read_nat_text: "ends_number rest \<Longrightarrow> read_unsigned (nat_text n @ rest) = Some (of_nat n, rest)"
  using read_integer_of [OF nat_text_digits(1,3,4) ends_numberD(1)] read_no_fraction [OF ends_numberD(2)]
    read_no_exponent
  by (simp add: read_unsigned_def nat_text_digits)

lemma read_int_text: "ends_number rest \<Longrightarrow> read_decimal (int_text i @ rest) = Some (of_int i, rest)"
  using read_decimal_minus [OF read_nat_text] read_decimal_unsigned [OF read_nat_text]
  by (simp add: int_text_def)

text \<open>
  The digits of a whole number, however many, are read as the nearest double; what the
  language itself prints for a double is read as that double.
\<close>

lemma whole_numbers: "\<bar>i\<bar> \<le> 2 ^ 1023 \<Longrightarrow> read_as whole_text round_double (of_int i)"
proof -
  assume i: "\<bar>i\<bar> \<le> 2 ^ 1023"
  then have "\<bar>of_int i :: rat\<bar> \<le> 2 ^ 1023"
    by (simp flip: of_int_abs)
  then have "to_double (of_int i) = Some (round_double (of_int i))"
    by (rule to_double_range)
  then show ?thesis
    using read_int_text ends_value_number
    by (simp add: read_as_def read_number_def whole_text_def)
qed

lemma printed_doubles: "is_double r \<Longrightarrow> read_as number_string (\<lambda>r. r) r"
  using number_string_read ends_value_number by (simp add: read_as_def)

end
