(* ===== verification/FrameTypes.thy ===== *)
theory FrameTypes
  imports ProjectView
begin

section \<open>The types of the gateway's frames (server/dashboard/src/types/telemetry.ts)\<close>

text \<open>
  \<open>WsManager\<close> casts what it parses to \<open>LiveFrame\<close>, and the pages read its properties without a
  check.  The interfaces are records, their union a datatype; \<open>read_frame\<close> is the typing
  judgement: the frame that a JSON value is, if it has the properties of one of the three
  interfaces (further properties are allowed).  The type invariant says that what the stores
  and the feed hold is typed; it is kept by every step as long as the frames that arrive are
  typed, and then nothing throws and the page renders.
\<close>

datatype alert_level = LevelInfo | LevelWarning | LevelError | LevelCritical

record telemetry_frame =
  tf_vehicle_id :: string
  tf_ts :: rat
  tf_lat :: rat
  tf_lon :: rat
  tf_alt :: rat
  tf_seq :: rat
  tf_payload_b64 :: string

record alert_frame =
  af_device :: string
  af_level :: alert_level
  af_message :: string

record assistance_frame =
  xf_device :: string
  xf_request_id :: string
  xf_reason :: string

text \<open>A stored row of telemetry; declared with the frames, but no part of the program uses it yet.\<close>

record telemetry_row =
  tr_vehicle_id :: string
  tr_timestamp :: string
  tr_stream_type :: string
  tr_lat :: rat
  tr_lon :: rat
  tr_alt_m :: rat
  tr_seq_num :: rat
  tr_payload_size :: rat

datatype live_frame =
    TelemetryFrame telemetry_frame
  | AlertFrame alert_frame
  | AssistanceFrame assistance_frame

subsection \<open>Reading and writing frames\<close>

definition level_names :: "(string \<times> alert_level) list" where
  "level_names = [(''info'', LevelInfo), (''warning'', LevelWarning), (''error'', LevelError),
                  (''critical'', LevelCritical)]"

definition string_prop :: "json \<Rightarrow> string \<Rightarrow> string option" where
  "string_prop j key = (case field j key of Some (JStr s) \<Rightarrow> Some s | _ \<Rightarrow> None)"

definition number_prop :: "json \<Rightarrow> string \<Rightarrow> rat option" where
  "number_prop j key = (case field j key of Some (JNum r) \<Rightarrow> Some r | _ \<Rightarrow> None)"

definition level_prop :: "json \<Rightarrow> string \<Rightarrow> alert_level option" where
  "level_prop j key = Option.bind (string_prop j key) (map_of level_names)"

definition read_telemetry :: "json \<Rightarrow> telemetry_frame option" where
  "read_telemetry j =
     Option.bind (string_prop j ''vehicle_id'') (\<lambda>vid.
     Option.bind (number_prop j ''ts'') (\<lambda>ts.
     Option.bind (number_prop j ''lat'') (\<lambda>lat.
     Option.bind (number_prop j ''lon'') (\<lambda>lon.
     Option.bind (number_prop j ''alt'') (\<lambda>alt.
     Option.bind (number_prop j ''seq'') (\<lambda>sq.
     Option.bind (string_prop j ''payload_b64'') (\<lambda>payload.
       Some \<lparr>tf_vehicle_id = vid, tf_ts = ts, tf_lat = lat, tf_lon = lon, tf_alt = alt, tf_seq = sq,
             tf_payload_b64 = payload\<rparr>)))))))"

definition read_alert :: "json \<Rightarrow> alert_frame option" where
  "read_alert j =
     Option.bind (string_prop j ''device'') (\<lambda>device.
     Option.bind (level_prop j ''level'') (\<lambda>level.
     Option.bind (string_prop j ''message'') (\<lambda>message.
       Some \<lparr>af_device = device, af_level = level, af_message = message\<rparr>)))"

definition read_assistance :: "json \<Rightarrow> assistance_frame option" where
  "read_assistance j =
     Option.bind (string_prop j ''device'') (\<lambda>device.
     Option.bind (string_prop j ''request_id'') (\<lambda>rid.
     Option.bind (string_prop j ''reason'') (\<lambda>reason.
       Some \<lparr>xf_device = device, xf_request_id = rid, xf_reason = reason\<rparr>)))"

definition read_frame :: "json \<Rightarrow> live_frame option" where
  "read_frame j =
     (case string_prop j ''type'' of
        None \<Rightarrow> None
      | Some t \<Rightarrow>
          if t = ''telemetry'' then map_option TelemetryFrame (read_telemetry j)
          else if t = ''alert'' then map_option AlertFrame (read_alert j)
          else if t = ''assistance_request'' then map_option AssistanceFrame (read_assistance j)
          else None)"

fun level_name :: "alert_level \<Rightarrow> string" where
  "level_name LevelInfo = ''info''"
| "level_name LevelWarning = ''warning''"
| "level_name LevelError = ''error''"
| "level_name LevelCritical = ''critical''"

fun frame_json :: "live_frame \<Rightarrow> json" where
  "frame_json (TelemetryFrame t) =
     JObj [(''type'', JStr ''telemetry''), (''vehicle_id'', JStr (tf_vehicle_id t)), (''ts'', JNum (tf_ts t)),
           (''lat'', JNum (tf_lat t)), (''lon'', JNum (tf_lon t)), (''alt'', JNum (tf_alt t)),
           (''seq'', JNum (tf_seq t)), (''payload_b64'', JStr (tf_payload_b64 t))]"
| "frame_json (AlertFrame a) =
     JObj [(''type'', JStr ''alert''), (''device'', JStr (af_device a)),
           (''level'', JStr (level_name (af_level a))), (''message'', JStr (af_message a))]"
| "frame_json (AssistanceFrame x) =
     JObj [(''type'', JStr ''assistance_request''), (''device'', JStr (xf_device x)),
           (''request_id'', JStr (xf_request_id x)), (''reason'', JStr (xf_reason x))]"

lemmas frame_props = string_prop_def number_prop_def level_prop_def field_def

lemma level_name_read: "map_of level_names (level_name l) = Some l"
  by (cases l) (simp_all add: level_names_def)

lemma read_frame_json: "read_frame (frame_json f) = Some f"
  by (cases f) (simp_all add: read_frame_def read_telemetry_def read_alert_def read_assistance_def
      frame_props level_name_read)

subsection \<open>What a typed value allows\<close>

lemma string_prop_Some: "string_prop j k = Some s \<longleftrightarrow> field j k = Some (JStr s)"
  by (auto simp: string_prop_def split: option.splits json.splits)

lemma number_prop_Some: "number_prop j k = Some r \<longleftrightarrow> field j k = Some (JNum r)"
  by (auto simp: number_prop_def split: option.splits json.splits)

lemmas read_defs = read_frame_def read_telemetry_def read_alert_def read_assistance_def
  string_prop_Some number_prop_Some bind_eq_Some_conv

lemma typed_telemetry:
  "read_frame j = Some (TelemetryFrame t) \<Longrightarrow>
     field j ''type'' = Some (JStr ''telemetry'') \<and> field j ''vehicle_id'' = Some (JStr (tf_vehicle_id t)) \<and>
     field j ''ts'' = Some (JNum (tf_ts t)) \<and> field j ''lat'' = Some (JNum (tf_lat t)) \<and>
     field j ''lon'' = Some (JNum (tf_lon t)) \<and> field j ''alt'' = Some (JNum (tf_alt t)) \<and>
     field j ''seq'' = Some (JNum (tf_seq t))"
  by (auto simp: read_defs split: option.splits if_splits)

lemma typed_alert:
  "read_frame j = Some (AlertFrame a) \<Longrightarrow>
     field j ''type'' = Some (JStr ''alert'') \<and> field j ''device'' = Some (JStr (af_device a)) \<and>
     (\<exists>l. field j ''level'' = Some (JStr l)) \<and> field j ''message'' = Some (JStr (af_message a))"
  by (auto simp: read_defs level_prop_def split: option.splits if_splits)

lemma typed_assistance:
  "read_frame j = Some (AssistanceFrame x) \<Longrightarrow>
     field j ''type'' = Some (JStr ''assistance_request'') \<and> field j ''device'' = Some (JStr (xf_device x)) \<and>
     field j ''reason'' = Some (JStr (xf_reason x))"
  by (auto simp: read_defs split: option.splits if_splits)

text \<open>The alert that \<open>WsManager\<close> makes of a request for assistance has the type it pretends to have.\<close>

lemma assistance_alert_typed:
  assumes "read_frame j = Some (AssistanceFrame x)"
  shows "\<exists>a. assistance_alert j = Inr a \<and>
           read_frame a = Some (AlertFrame \<lparr>af_device = xf_device x, af_level = LevelWarning,
             af_message = ''Assistance requested: '' @ xf_reason x\<rparr>)"
proof -
  have "assistance_alert j = Inr (frame_json (AlertFrame \<lparr>af_device = xf_device x, af_level = LevelWarning,
      af_message = ''Assistance requested: '' @ xf_reason x\<rparr>))"
    using typed_assistance [OF assms] by (simp add: assistance_alert_def)
  then show ?thesis by (intro exI conjI) (assumption, rule read_frame_json)
qed

lemma typed_row_displayable: "read_frame j = Some (TelemetryFrame t) \<Longrightarrow> displayable j"
  using typed_telemetry [of j t] by (auto simp: displayable_def react_child_def)

lemma typed_row_ts: "read_frame j = Some (TelemetryFrame t) \<Longrightarrow> frame_ts j = Some (tf_ts t)"
  using typed_telemetry [of j t] by (simp add: frame_ts_def to_number_def primitive_def)

lemma typed_alert_row: "read_frame j = Some (AlertFrame a) \<Longrightarrow> \<exists>n. alert_row names j = Inr n"
  using typed_alert [of j a] by (auto simp: alert_row_def react_child_def device_label_def)

subsection \<open>The type invariant\<close>

fun typed_push :: "(json option, json) telemetry_event \<Rightarrow> bool" where
  "typed_push (Push k f) = (\<exists>t. read_frame f = Some (TelemetryFrame t) \<and> k = Some (JStr (tf_vehicle_id t)))"
| "typed_push e = True"

definition typed_telemetry_store :: "(json option, json) telemetry_state \<Rightarrow> bool" where
  "typed_telemetry_store st \<longleftrightarrow>
     (\<exists>evs. st = foldl telemetry_step telemetry_init evs \<and> list_all typed_push evs)"

definition typed_alerts :: "json list \<Rightarrow> bool" where
  "typed_alerts as \<longleftrightarrow> list_all (\<lambda>a. \<exists>f. read_frame a = Some (AlertFrame f)) as"

definition typed_rows :: "json list \<Rightarrow> bool" where
  "typed_rows rows \<longleftrightarrow> list_all (\<lambda>f. \<exists>t. read_frame f = Some (TelemetryFrame t)) rows"

definition typed_world :: "world \<Rightarrow> bool" where
  "typed_world w \<longleftrightarrow>
     typed_telemetry_store (store_telemetry w) \<and> typed_alerts (alerts (store_alerts w)) \<and> uncaught w = []"

definition typed_page :: "page_world \<Rightarrow> bool" where
  "typed_page s \<longleftrightarrow> typed_world (net s) \<and> typed_rows (feedRows s) \<and> page_errors s = []"

text \<open>An event is typed if the text it delivers, where it is JSON at all, is a typed frame.\<close>

definition typed_event :: "ws_config \<Rightarrow> ws_event \<Rightarrow> bool" where
  "typed_event c e \<longleftrightarrow> (case frame_of c e of None \<Rightarrow> True | Some f \<Rightarrow> read_frame f \<noteq> None)"

lemma typed_push_held:
  "list_all typed_push evs \<Longrightarrow> foldl family_step Map.empty evs k = Some fs \<Longrightarrow> f \<in> set fs \<Longrightarrow>
     \<exists>t. read_frame f = Some (TelemetryFrame t) \<and> k = Some (JStr (tf_vehicle_id t))"
proof (induction evs arbitrary: k fs rule: rev_induct)
  case (snoc e evs)
  then show ?case
    by (cases e) (fastforce split: if_splits option.splits)+
qed simp

lemma typed_device_frames:
  assumes "typed_telemetry_store st" and "f \<in> set (device_frames st i)"
  shows "\<exists>t. read_frame f = Some (TelemetryFrame t) \<and> tf_vehicle_id t = i"
proof -
  obtain evs where evs: "st = foldl telemetry_step telemetry_init evs" "list_all typed_push evs"
    using assms(1) unfolding typed_telemetry_store_def by blast
  then obtain fs where "foldl family_step Map.empty evs (Some (JStr i)) = Some fs" "f \<in> set (last_n CAPACITY fs)"
    using assms(2) unfolding evs(1) device_frames_logged
    by (cases "foldl family_step Map.empty evs (Some (JStr i))") (auto simp: logged_def)
  then show ?thesis
    using typed_push_held [OF evs(2)] set_last_n by fastforce
qed

lemma typed_events_push: "typed_event c e \<Longrightarrow> list_all typed_push (telemetry_events c e)"
proof (cases "frame_of c e")
  case None
  then show ?thesis by (cases e) (simp_all add: telemetry_events_def)
next
  case (Some f)
  assume "typed_event c e"
  with Some obtain l where l: "read_frame f = Some l"
    by (auto simp: typed_event_def)
  have "telemetry_events c e
      = (if is_string (field f ''type'') ''telemetry''
         then [if by_identity (field f ''vehicle_id'') then PushObject else Push (field f ''vehicle_id'') f] else [])"
    using Some by (cases e) (simp_all add: telemetry_events_def frame_of_def)
  then show ?thesis
    using l typed_telemetry typed_alert typed_assistance by (cases l) (auto simp: is_string_def)
qed

lemma typed_alerts_push: "typed_event c e \<Longrightarrow> typed_alerts (alerts s) \<Longrightarrow>
    typed_alerts (alerts (foldl alert_step s (alert_events c e)))"
proof (cases "frame_of c e")
  case None
  assume "typed_alerts (alerts s)"
  then show ?thesis
    using None by (cases e) (simp_all add: alert_events_def alert_clear_def typed_alerts_def)
next
  case (Some f)
  assume "typed_event c e" and as: "typed_alerts (alerts s)"
  with Some obtain l where l: "read_frame f = Some l"
    by (auto simp: typed_event_def)
  have more: "typed_alerts (take MAX_ALERTS (a # alerts s))" if "\<exists>x. read_frame a = Some (AlertFrame x)" for a
    using as that by (auto simp: typed_alerts_def list_all_iff dest!: in_set_takeD)
  have "alert_events c e = (if is_string (field f ''type'') ''alert'' then [AlertPush f]
      else if is_string (field f ''type'') ''assistance_request'' then (case assistance_alert f of Inl e \<Rightarrow> [] | Inr a \<Rightarrow> [AlertPush a]) else [])"
    using Some by (cases e) (simp_all add: alert_events_def frame_of_def)
  note events = this
  show ?thesis
  proof (cases l)
    case (TelemetryFrame t)
    then show ?thesis using l as typed_telemetry by (simp add: events is_string_def)
  next
    case (AlertFrame a)
    then show ?thesis using l more typed_alert by (simp add: events is_string_def alert_push_def)
  next
    case (AssistanceFrame x)
    then obtain a where "assistance_alert f = Inr a" and "\<exists>y. read_frame a = Some (AlertFrame y)"
      using l assistance_alert_typed by blast
    then show ?thesis
      using l AssistanceFrame more typed_assistance by (simp add: events is_string_def alert_push_def)
  qed
qed

lemma typed_no_errors: "typed_event c e \<Longrightarrow> console_errors c e = []"
proof -
  have "\<not> throws f" if l: "read_frame f = Some l" for f l
  proof -
    have "f \<noteq> JNull" using l by (auto simp: read_frame_def string_prop_def field_def)
    then show ?thesis
      using l typed_telemetry [of f] typed_alert [of f] typed_assistance [of f]
      by (cases l) (auto simp: throws_def is_string_def)
  qed
  then show "typed_event c e \<Longrightarrow> console_errors c e = []"
    by (auto simp: typed_event_def console_errors_def split: option.splits)
qed

lemma typed_ws_step:
  assumes "ws_inv w" and "ws_step c w e w'" and "typed_event c e" and "typed_world w"
  shows "typed_world w'"
proof -
  obtain evs where evs: "store_telemetry w = foldl telemetry_step telemetry_init evs" "list_all typed_push evs"
    using assms(4) by (auto simp: typed_world_def typed_telemetry_store_def)
  have "typed_telemetry_store (store_telemetry w')"
    unfolding typed_telemetry_store_def
    using stores_step [OF assms(1,2)] evs typed_events_push [OF assms(3)]
    by (intro exI [of _ "evs @ telemetry_events c e"]) simp
  then show ?thesis
    using stores_step [OF assms(1,2)] assms(4) typed_alerts_push [OF assms(3)] typed_no_errors [OF assms(3)]
    by (simp add: typed_world_def)
qed

lemma typed_world_init: "typed_world world_init"
  by (auto simp: typed_world_def world_init_def typed_telemetry_store_def typed_alerts_def alert_init_def
      intro: exI [of _ "[]"])

subsection \<open>The page keeps the types\<close>

lemma calls_stores [simp]:
  "store_telemetry (subscribe_all c ids w) = store_telemetry w"
  "store_telemetry (unsubscribe_all c ids w) = store_telemetry w"
  "store_alerts (subscribe_all c ids w) = store_alerts w"
  "store_alerts (unsubscribe_all c ids w) = store_alerts w"
  "uncaught (subscribe_all c ids w) = uncaught w"
  "uncaught (unsubscribe_all c ids w) = uncaught w"
  by (induction ids arbitrary: w) (simp_all add: subscribe_all_def unsubscribe_all_def)

lemma set_devices_stores [simp]:
  "store_telemetry (net (set_devices c ds s)) = store_telemetry (net s)"
  "store_alerts (net (set_devices c ds s)) = store_alerts (net s)"
  "uncaught (net (set_devices c ds s)) = uncaught (net s)"
  "feedRows (set_devices c ds s) = feedRows s" "genRef (set_devices c ds s) = genRef s"
  "page_errors (set_devices c ds s) = page_errors s"
  by (simp_all add: set_devices_def feed_effect_def feed_cleanup_def request_frame_def cancel_frame_def Let_def)

lemma settled_stores [simp]:
  "store_telemetry (net (settled c p r s)) = store_telemetry (net s)"
  "store_alerts (net (settled c p r s)) = store_alerts (net s)"
  "uncaught (net (settled c p r s)) = uncaught (net s)"
  "feedRows (settled c p r s) = feedRows s" "genRef (settled c p r s) = genRef s"
  "page_errors (settled c p r s) = page_errors s"
  by (cases p; simp add: settled_def devices_settled_def provision_settled_def loadDevices_def Let_def
      split: sum.split)+

lemma dispatch_stores [simp]:
  "net (project_dispatch a s) = net s" "feedRows (project_dispatch a s) = feedRows s"
  "genRef (project_dispatch a s) = genRef s" "page_errors (project_dispatch a s) = page_errors s"
  by (cases a; simp add: loadDevices_def handleAddDevice_def)+

lemma merge_feed_typed: "typed_telemetry_store st \<Longrightarrow> \<exists>rows. merge_feed st ids = Inr rows \<and> typed_rows rows"
proof -
  assume typed: "typed_telemetry_store st"
  have "numeric_ts (concat (map (device_frames st) ids))"
    using typed typed_device_frames typed_row_ts by (fastforce simp: numeric_ts_def list_all_iff)
  then obtain rows where rows: "merge_feed st ids = Inr rows"
    using newest_feed_merge by blast
  then show ?thesis
    using merge_feed_elements [OF rows] typed typed_device_frames
    by (fastforce simp: typed_rows_def list_all_iff)
qed

lemma typed_page_step:
  assumes "feed_inv c s" and "typed_page s" and "page_step c s e s'"
    and "\<forall>f. e = Env f \<longrightarrow> typed_event c f"
  shows "typed_page s'"
  using assms(3)
proof (rule page_stepE)
  fix f w assume "e = Env f" "s' = s\<lparr>net := w\<rparr>" and step: "ws_step c (net s) f w"
  moreover have "ws_inv (net s)"
    using assms(1) by (auto simp: feed_inv_def intro: reachable_inv)
  ultimately show ?thesis
    using typed_ws_step [OF _ step] assms(2,4) by (simp add: typed_page_def)
next
  fix h ids assume "s' = tick ids (cancel_frame h s)"
  moreover obtain rows where "merge_feed (store_telemetry (net s)) ids = Inr rows" "typed_rows rows"
    using assms(2) merge_feed_typed by (force simp: typed_page_def typed_world_def)
  ultimately show ?thesis
    using assms(2)
    by (auto simp: typed_page_def typed_world_def tick_def request_frame_def cancel_frame_def Let_def)
qed (use assms(2) in \<open>auto simp: typed_page_def typed_world_def\<close>)

lemma typed_page_runs:
  "runs (page_step c) s es s' \<Longrightarrow> feed_inv c s \<Longrightarrow> typed_page s \<Longrightarrow>
     \<forall>f. Env f \<in> set es \<longrightarrow> typed_event c f \<Longrightarrow> typed_page s'"
proof (induction rule: runs.induct)
  case (runs_Cons s e t es u)
  then show ?case
    using typed_page_step [OF runs_Cons.prems(1,2) runs_Cons.hyps(1)] page_step_feed by simp
qed simp

lemma typed_page_mount: "typed_world w \<Longrightarrow> typed_page (page_mount name w)"
  by (simp add: typed_page_def page_mount_def loadDevices_def typed_rows_def)

lemma typed_page_renders: "typed_page s \<Longrightarrow> \<exists>v. project_elements eng admin (project_alerts s) s = Inr v"
proof -
  assume typed: "typed_page s"
  have rows: "\<exists>ns. map_or_raise f xs = Inr ns" if "\<forall>x \<in> set xs. \<exists>n. f x = Inr n"
    for f :: "json \<Rightarrow> js_error + project_action node" and xs
    using that by (induction xs) (auto simp: and_then_def)
  have "\<forall>row \<in> set (feedRows s). \<exists>n. feed_row eng (deviceNameMap (devices s)) row = Inr n"
    using typed typed_row_displayable feed_row_displayable
    by (fastforce simp: typed_page_def typed_rows_def list_all_iff)
  from rows [OF this] have "\<exists>ns. data_tab eng s = Inr ns"
    by (auto simp: data_tab_def)
  moreover have "\<forall>a \<in> set (project_alerts s). \<exists>n. alert_row (deviceNameMap (devices s)) a = Inr n"
    using typed typed_alert_row
    by (fastforce simp: typed_page_def typed_world_def typed_alerts_def list_all_iff project_alerts_def)
  from rows [OF this] have "\<exists>ns. alerts_tab (project_alerts s) s = Inr ns"
    by (auto simp: alerts_tab_def)
  ultimately show ?thesis
    by (auto simp: project_elements_def split: tab.split)
qed

text \<open>What the stores and the feed hold is of the gateway's types.\<close>

lemma typed_world_holds:
  assumes "typed_world w"
  shows "uncaught w = []"
    and "f \<in> set (device_frames (store_telemetry w) i) \<Longrightarrow>
      \<exists>t. read_frame f = Some (TelemetryFrame t) \<and> tf_vehicle_id t = i \<and> frame_ts f = Some (tf_ts t)"
    and "a \<in> set (alerts (store_alerts w)) \<Longrightarrow> \<exists>x. read_frame a = Some (AlertFrame x)"
  using assms typed_device_frames [of "store_telemetry w" f i] typed_row_ts [of f]
  by (fastforce simp: typed_world_def typed_alerts_def list_all_iff)+

lemma typed_page_rows:
  "typed_page s \<Longrightarrow> page_errors s = []"
  "typed_page s \<Longrightarrow> f \<in> set (feedRows s) \<Longrightarrow> \<exists>t. read_frame f = Some (TelemetryFrame t)"
  by (auto simp: typed_page_def typed_rows_def list_all_iff)

subsection \<open>Properties\<close>

text \<open>
  Type soundness: if every JSON text the gateway delivers is a \<open>LiveFrame\<close> (text that is not
  JSON included), then in every state of a mounted page no handler and no tick has thrown, the
  page's component returns its elements on either tab, the buffer of a device holds telemetry frames of that device only,
  with numeric timestamps, every row of the feed is a telemetry frame and every alert, those
  made of requests for assistance included, is an \<open>AlertFrame\<close>.
\<close>

theorem typed_frames_are_safe:
  assumes "page_start c s0" and "typed_world (net s0)" and "runs (page_step c) s0 es s"
    and "\<forall>f. Env f \<in> set es \<longrightarrow> typed_event c f"
  shows "uncaught (net s) = [] \<and> page_errors s = [] \<and> (\<exists>v. project_elements eng admin (project_alerts s) s = Inr v) \<and>
         (\<forall>i. \<forall>f \<in> set (device_frames (store_telemetry (net s)) i).
            (\<exists>t. read_frame f = Some (TelemetryFrame t) \<and> tf_vehicle_id t = i \<and> frame_ts f = Some (tf_ts t))) \<and>
         (\<forall>f \<in> set (feedRows s). \<exists>t. read_frame f = Some (TelemetryFrame t)) \<and>
         (\<forall>a \<in> set (alerts (store_alerts (net s))). \<exists>x. read_frame a = Some (AlertFrame x))"
proof -
  obtain name w where "s0 = page_mount (Some name) w"
    using assms(1) by (auto simp: page_start_def)
  then have "typed_page s0"
    using assms(2) by (simp add: typed_page_mount)
  then have typed: "typed_page s"
    using typed_page_runs [OF assms(3) _ _ assms(4)] page_start_inv [OF assms(1)] by (simp add: page_inv_def)
  then have "typed_world (net s)"
    by (simp add: typed_page_def)
  then show ?thesis
    using typed_world_holds typed_page_rows(1) [OF typed] typed_page_rows(2) [OF typed]
      typed_page_renders [OF typed] by blast
qed

text \<open>A configuration whose gateway sends one typed frame.\<close>

definition fix_frame :: telemetry_frame where
  "fix_frame = \<lparr>tf_vehicle_id = ''v1'', tf_ts = 5, tf_lat = 1, tf_lon = 2, tf_alt = 3, tf_seq = 0,
     tf_payload_b64 = []\<rparr>"

definition typed_config :: ws_config where
  "typed_config = demo_config\<lparr>JSON_parse := (\<lambda>s. Some (frame_json (TelemetryFrame fix_frame)))\<rparr>"

lemma subscribe_typed: "subscribe typed_config v w = subscribe demo_config v w"
  by (simp add: subscribe_def reconnect_def open_socket_def ws_url_def typed_config_def demo_config_def)

definition typed_run :: "page_event list" where
  "typed_run = [Settle 0 (Inr (Some [sample_vehicle ''v1''])), Env (SocketOpen 0), Env (SocketMessage 0 (Text ''x''))]"

lemma typed_run_ok:
  "runs (page_step typed_config) (page_mount (Some ''fleet'') world_init) typed_run
     (demo_page\<lparr>net := handle_message typed_config (Text ''x'') demo_open\<rparr>)"
proof -
  have "page_step typed_config (page_mount (Some ''fleet'') world_init)
      (Settle 0 (Inr (Some [sample_vehicle ''v1'']))) demo_page"
    by (simp add: page_step_settle demo_page_def page_mount_def loadDevices_def truthy_str_def
        settled_def devices_settled_def set_devices_def feed_cleanup_def feed_effect_def
        subscribe_all_def subscribe_typed)
  moreover have "page_step typed_config demo_page (Env (SocketOpen 0)) (demo_page\<lparr>net := demo_open\<rparr>)"
  proof -
    have "ws_step typed_config demo_connecting (SocketOpen 0) demo_open"
      unfolding demo_open_def by (rule step_open) (simp_all add: demo_connecting_state ready_def)
    then show ?thesis by (intro page_env) (simp_all add: demo_page_state demo_connecting_def)
  qed
  moreover have "page_step typed_config (demo_page\<lparr>net := demo_open\<rparr>)
      (Env (SocketMessage 0 (Text ''x''))) (demo_page\<lparr>net := handle_message typed_config (Text ''x'') demo_open\<rparr>)"
    using page_env [of typed_config "demo_page\<lparr>net := demo_open\<rparr>", OF step_message]
    by (simp add: demo_open_state)
  ultimately show ?thesis
    unfolding typed_run_def runs_Cons_iff runs_Nil_iff by blast
qed

theorem typed_frames_are_safe_witness:
  "uncaught (handle_message typed_config (Text ''x'') demo_open) = [] \<and>
   (\<exists>v. project_elements demo_engine True
       (project_alerts (demo_page\<lparr>net := handle_message typed_config (Text ''x'') demo_open\<rparr>))
       (demo_page\<lparr>net := handle_message typed_config (Text ''x'') demo_open\<rparr>) = Inr v)"
proof -
  have "\<forall>f. Env f \<in> set typed_run \<longrightarrow> typed_event typed_config f"
    by (auto simp: typed_run_def typed_event_def frame_of_def typed_config_def read_frame_json
        simp del: frame_json.simps)
  from typed_frames_are_safe [OF demo_start _ typed_run_ok this]
  show ?thesis
    using typed_world_init by simp
qed

end
