(* ===== verification/GatewayText.thy ===== *)
theory GatewayText
  imports JsonText FrameTypes
begin

section \<open>The texts that cross the socket\<close>

text \<open>
  The WebSocket manager with the language's own JSON parser: what it sends on opening is read
  back by a JSON parser as its subscription, and the text of a frame of the gateway's types is
  dispatched to the store of its type.
\<close>

definition with_json :: "ws_config \<Rightarrow> ws_config" where
  "with_json c = c\<lparr>JSON_parse := json_parse\<rparr>"

lemma writable_subscription: "writable num rd (subscription_message w)"
  by (simp add: subscription_message_def)

text \<open>The frame that arrives: its numbers are those the parser makes of their texts.\<close>

definition telemetry_numbers :: "(rat \<Rightarrow> rat) \<Rightarrow> telemetry_frame \<Rightarrow> telemetry_frame" where
  "telemetry_numbers rd t =
     t\<lparr>tf_ts := rd (tf_ts t), tf_lat := rd (tf_lat t), tf_lon := rd (tf_lon t), tf_alt := rd (tf_alt t),
       tf_seq := rd (tf_seq t)\<rparr>"

fun frame_numbers :: "(rat \<Rightarrow> rat) \<Rightarrow> live_frame \<Rightarrow> live_frame" where
  "frame_numbers rd (TelemetryFrame t) = TelemetryFrame (telemetry_numbers rd t)"
| "frame_numbers rd f = f"

lemma map_numbers_frame: "map_numbers rd (frame_json f) = frame_json (frame_numbers rd f)"
  by (cases f) (simp_all add: telemetry_numbers_def)

definition numbers_of :: "telemetry_frame \<Rightarrow> rat set" where
  "numbers_of t = {tf_ts t, tf_lat t, tf_lon t, tf_alt t, tf_seq t}"

lemma writable_frame:
  "(\<And>t r. f = TelemetryFrame t \<Longrightarrow> r \<in> numbers_of t \<Longrightarrow> read_as num rd r) \<Longrightarrow> writable num rd (frame_json f)"
  by (cases f) (simp_all add: numbers_of_def)

lemma frame_arrives:
  "writable num rd (frame_json f) \<Longrightarrow>
     json_parse (json_text num (frame_json f)) = Some (frame_json (frame_numbers rd f))"
  using json_round_trip [of num rd "frame_json f"] by (simp add: map_numbers_frame)

text \<open>The store that a frame of the gateway's types goes to.\<close>

fun delivered :: "live_frame \<Rightarrow> world \<Rightarrow> world" where
  "delivered (TelemetryFrame t) w =
     w\<lparr>store_telemetry :=
         telemetry_push (Some (JStr (tf_vehicle_id t))) (frame_json (TelemetryFrame t)) (store_telemetry w)\<rparr>"
| "delivered (AlertFrame a) w = w\<lparr>store_alerts := alert_push (frame_json (AlertFrame a)) (store_alerts w)\<rparr>"
| "delivered (AssistanceFrame x) w =
     w\<lparr>store_alerts := alert_push (frame_json (AlertFrame \<lparr>af_device = xf_device x, af_level = LevelWarning,
         af_message = ''Assistance requested: '' @ xf_reason x\<rparr>)) (store_alerts w)\<rparr>"

lemma frame_handled:
  assumes "writable num rd (frame_json f)"
  shows "handle_message (with_json c) (Text (json_text num (frame_json f))) w = delivered (frame_numbers rd f) w"
proof -
  let ?j = "frame_json (frame_numbers rd f)"
  have "handle_message (with_json c) (Text (json_text num (frame_json f))) w =
      (if is_string (field ?j ''type'') ''telemetry'' then
         w\<lparr>store_telemetry := push_frame ?j (store_telemetry w)\<rparr>
       else if is_string (field ?j ''type'') ''alert'' then
         w\<lparr>store_alerts := alert_push ?j (store_alerts w)\<rparr>
       else if is_string (field ?j ''type'') ''assistance_request'' then
         (case assistance_alert ?j of
            Inl e \<Rightarrow> raise_uncaught e w
          | Inr a \<Rightarrow> w\<lparr>store_alerts := alert_push a (store_alerts w)\<rparr>)
       else w)"
    using frame_arrives [OF assms]
    by (cases "frame_numbers rd f") (simp_all add: handle_message_def with_json_def get_prop_field field_def
        is_string_def del: json_text.simps frame_numbers.simps)
  then show ?thesis
    by (cases "frame_numbers rd f") (simp_all add: is_string_def field_def assistance_alert_def push_frame_def
        del: json_text.simps frame_numbers.simps)
qed

text \<open>
  C12: what crosses the socket as text is understood: a JSON parser reads the message sent on
  opening as the vehicles subscribed, the streams and the format; and when the gateway writes
  a frame of its types, with numbers printed by \<open>num\<close> that the parser reads as \<open>rd\<close> says, the
  manager's handler puts the frame with these numbers into the store it belongs to, a request
  for assistance as the alert made of it.
\<close>

theorem texts_cross_socket:
  assumes "writable num rd (frame_json f)"
  shows "json_parse (json_text number_string (subscription_message w))
           = Some (JObj [(''vehicle_ids'', JArr (map JStr (subscribedIds w))),
                         (''streams'', JArr (map JStr (streams w))), (''format'', JStr ''json'')]) \<and>
         handle_message (with_json c) (Text (json_text num (frame_json f))) w =
           (case frame_numbers rd f of
              TelemetryFrame t \<Rightarrow>
                w\<lparr>store_telemetry :=
                    telemetry_push (Some (JStr (tf_vehicle_id t))) (frame_json (TelemetryFrame t)) (store_telemetry w)\<rparr>
            | AlertFrame a \<Rightarrow> w\<lparr>store_alerts := alert_push (frame_json (AlertFrame a)) (store_alerts w)\<rparr>
            | AssistanceFrame x \<Rightarrow>
                w\<lparr>store_alerts := alert_push (frame_json (AlertFrame \<lparr>af_device = xf_device x,
                    af_level = LevelWarning, af_message = ''Assistance requested: '' @ xf_reason x\<rparr>))
                    (store_alerts w)\<rparr>)"
proof -
  have "json_parse (json_text number_string (subscription_message w)) = Some (subscription_message w)"
    using json_round_trip [OF writable_subscription [of number_string "\<lambda>r. r" w]] by simp
  then show ?thesis
    using frame_handled [OF assms, of c w]
    by (cases "frame_numbers rd f") (simp_all add: subscription_message_def del: json_text.simps frame_numbers.simps)
qed

text \<open>
  A frame with a time in nanoseconds, written with the digits of its whole numbers: the time is
  read as the nearest double, 21 nanoseconds earlier.
\<close>

definition ns_frame :: telemetry_frame where
  "ns_frame = \<lparr>tf_vehicle_id = ''v1'', tf_ts = 1700000000123456789, tf_lat = 1, tf_lon = 2, tf_alt = 3, tf_seq = 0,
     tf_payload_b64 = []\<rparr>"

lemma ns_frame_writable: "writable whole_text round_double (frame_json (TelemetryFrame ns_frame))"
proof -
  have whole: "read_as whole_text round_double (of_int i)" if "i \<in> {0, 1, 2, 3, 1700000000123456789}" for i
    using that by (intro whole_numbers) auto
  show ?thesis
    using whole [of 0] whole [of 1] whole [of 2] whole [of 3] whole [of 1700000000123456789]
    by (intro writable_frame) (auto simp: ns_frame_def numbers_of_def)
qed

lemma ns_frame_arrives: "telemetry_numbers round_double ns_frame = ns_frame\<lparr>tf_ts := 1700000000123456768\<rparr>"
proof -
  have small: "round_double (of_int i) = of_int i" if "i \<in> {0, 1, 2, 3}" for i
    using that whole_double [of i] is_doubleD(1) by auto
  have "round_even (1700000000123456789 / 256) = 6640625000482253"
    by (rule round_even_unique) simp
  then have "round_double 1700000000123456789 = 1700000000123456768"
    by (simp add: round_double_def round_pos_big round_pos_int)
  then show ?thesis
    using small [of 0] small [of 1] small [of 2] small [of 3] by (simp add: telemetry_numbers_def ns_frame_def)
qed

theorem texts_cross_socket_witness:
  "store_telemetry (handle_message (with_json demo_config)
     (Text (json_text whole_text (frame_json (TelemetryFrame ns_frame)))) demo_open)
   = telemetry_push (Some (JStr ''v1'')) (frame_json (TelemetryFrame (ns_frame\<lparr>tf_ts := 1700000000123456768\<rparr>)))
       (store_telemetry demo_open)"
  using texts_cross_socket [OF ns_frame_writable, of demo_open demo_config]
  by (simp add: ns_frame_arrives del: json_text.simps frame_json.simps) (simp add: ns_frame_def)

subsection \<open>Times in nanoseconds\<close>

lemma round_nanoseconds:
  assumes "2 ^ 60 \<le> i" and "i < 2 ^ 61"
  shows "\<exists>k. round_double (of_int i) = of_int (256 * k) \<and> \<bar>256 * k - i\<bar> \<le> 128 \<and>
           (\<forall>m. \<bar>i - 256 * m\<bar> < 128 \<longrightarrow> k = m)"
proof -
  let ?r = "of_int i / 256 :: rat" and ?k = "round_even (of_int i / 256)"
  have "(2 ^ 60 :: rat) \<le> of_int i" "(of_int i :: rat) \<le> 2 ^ 61"
    using assms by simp_all
  then have r: "2 ^ 52 \<le> ?r" "?r \<le> 2 ^ 53" by simp_all
  have "round_double (of_int i) = round_pos (2 ^ 8 * ?r)"
    using assms by (simp add: round_double_def)
  then have stored: "round_double (of_int i) = of_int (256 * ?k)"
    by (simp only: round_pos_spaced [OF r]) simp
  have "of_int ?k - ?r \<le> 1 / 2" "?r - of_int ?k \<le> 1 / 2"
    using round_even_near [of ?r] by (simp_all only: abs_le_iff) simp_all
  then have "(of_int (256 * ?k) :: rat) \<le> of_int (i + 128)" "(of_int i :: rat) \<le> of_int (256 * ?k + 128)"
    by simp_all
  then have near: "\<bar>256 * ?k - i\<bar> \<le> 128"
    unfolding of_int_le_iff by simp
  have "?k = m" if "\<bar>i - 256 * m\<bar> < 128" for m
    using near that by linarith
  then show ?thesis
    using stored near by blast
qed

text \<open>
  C14: a time in nanoseconds does not survive the socket: any whole time of the years 2006 to
  2043 is stored as a multiple of 256 nanoseconds at most 128 away from the one written, and
  the times within less than 128 nanoseconds of one multiple are all stored as that.
\<close>

theorem timestamps_lose_nanoseconds:
  assumes "writable num round_double (frame_json (TelemetryFrame t))"
    and "tf_ts t = of_int i" and "2 ^ 60 \<le> i" and "i < 2 ^ 61"
  shows "\<exists>f k. handle_message (with_json c) (Text (json_text num (frame_json (TelemetryFrame t)))) w
             = w\<lparr>store_telemetry := telemetry_push (Some (JStr (tf_vehicle_id t))) f (store_telemetry w)\<rparr> \<and>
           frame_ts f = Some (of_int (256 * k)) \<and> \<bar>256 * k - i\<bar> \<le> 128 \<and>
           (\<forall>m. \<bar>i - 256 * m\<bar> < 128 \<longrightarrow> k = m)"
proof -
  let ?f = "frame_json (TelemetryFrame (telemetry_numbers round_double t))"
  obtain k where k: "round_double (of_int i) = of_int (256 * k)" "\<bar>256 * k - i\<bar> \<le> 128"
    "\<forall>m. \<bar>i - 256 * m\<bar> < 128 \<longrightarrow> k = m"
    using round_nanoseconds [OF assms(3,4)] by blast
  have "handle_message (with_json c) (Text (json_text num (frame_json (TelemetryFrame t)))) w
      = w\<lparr>store_telemetry := telemetry_push (Some (JStr (tf_vehicle_id t))) ?f (store_telemetry w)\<rparr>"
    using frame_handled [OF assms(1)] by (simp add: telemetry_numbers_def)
  moreover have "frame_ts ?f = Some (of_int (256 * k))"
    using k(1) assms(2) by (simp add: telemetry_numbers_def frame_ts_def field_def to_number_def primitive_def)
  ultimately show ?thesis
    using k(2,3) by blast
qed

theorem timestamps_lose_nanoseconds_witness:
  "\<exists>f k. handle_message (with_json demo_config) (Text (json_text whole_text (frame_json (TelemetryFrame ns_frame)))) demo_open
       = demo_open\<lparr>store_telemetry := telemetry_push (Some (JStr ''v1'')) f (store_telemetry demo_open)\<rparr> \<and>
     frame_ts f = Some (of_int (256 * k)) \<and> k = 6640625000482253"
proof -
  have "tf_ts ns_frame = of_int 1700000000123456789" "tf_vehicle_id ns_frame = ''v1''"
    by (simp_all add: ns_frame_def)
  from timestamps_lose_nanoseconds [OF ns_frame_writable this(1), of demo_config demo_open] this(2)
  obtain f k where "handle_message (with_json demo_config)
        (Text (json_text whole_text (frame_json (TelemetryFrame ns_frame)))) demo_open
       = demo_open\<lparr>store_telemetry := telemetry_push (Some (JStr ''v1'')) f (store_telemetry demo_open)\<rparr>"
    and "frame_ts f = Some (of_int (256 * k))"
    and "\<forall>m. \<bar>1700000000123456789 - 256 * m\<bar> < 128 \<longrightarrow> k = m"
    by auto
  moreover from this(3) have "k = 6640625000482253" by simp
  ultimately show ?thesis by blast
qed

end
