(* ===== verification/LiveDashboard.thy ===== *)
theory LiveDashboard
  imports DashboardView GatewayText
begin

section \<open>Facts of the project page, for the dashboard that mounts it\<close>

text \<open>
  The dashboard mounts, renames and unmounts the project page and shares its world with the
  router, the session and the other pages.  What is known of the page alone holds of the
  dashboard if it survives these: the locale \<open>page_property\<close> says what must be kept, by a mounted
  page (P) and by the world it leaves behind (Q), for the events of the environment that are
  \<open>ok\<close>.  Its first use is that a dashboard fed with typed frames does not break.
\<close>

definition held_by :: "(page_world \<Rightarrow> bool) \<Rightarrow> (world \<Rightarrow> bool) \<Rightarrow> dashboard \<Rightarrow> bool" where
  "held_by P Q d \<longleftrightarrow> Q (dash_world d) \<and> (\<forall>p. screen d = OnProject p \<longrightarrow> P p)"

locale page_property =
  fixes c :: ws_config
    and P :: "page_world \<Rightarrow> bool" and Q :: "world \<Rightarrow> bool" and ok :: "ws_event \<Rightarrow> bool"
  assumes initial: "Q world_init"
    and mounted: "Q w \<Longrightarrow> P (page_mount name w)"
    and renamed: "P p \<Longrightarrow> P (loadDevices n False (p\<lparr>page_name := n\<rparr>))"
    and unmounted: "P p \<Longrightarrow> Q (net (page_unmount c p))"
    and world_below: "P p \<Longrightarrow> Q (net p)"
    and page_signed: "P p \<Longrightarrow> P (p\<lparr>net := (net p)\<lparr>store_auth := s\<rparr>\<rparr>)"
    and world_signed: "Q w \<Longrightarrow> Q (w\<lparr>store_auth := s\<rparr>)"
    and page_stepped: "feed_inv c p \<Longrightarrow> P p \<Longrightarrow> page_step c p e p' \<Longrightarrow> (\<And>f. e = Env f \<Longrightarrow> ok f) \<Longrightarrow> P p'"
    and world_stepped: "ws_inv w \<Longrightarrow> Q w \<Longrightarrow> ws_step c w f w' \<Longrightarrow> ok f \<Longrightarrow> Q w'"
begin

lemma leave_held: "held_by P Q d \<Longrightarrow> held_by P Q (leave c d)"
  using unmounted by (auto simp: held_by_def leave_def split: screen.split)

lemma enter_held: "held_by P Q d \<Longrightarrow> (\<And>p. new \<noteq> OnProject p) \<Longrightarrow> held_by P Q (enter c new d)"
  using leave_held [of d] by (simp add: held_by_def enter_def)

lemma same_held: "screen d' = screen d \<Longrightarrow> dash_world d' = dash_world d \<Longrightarrow> held_by P Q d' = held_by P Q d"
  by (simp add: held_by_def)

lemma put_session_held:
  assumes "dash_world_inv c d" and "held_by P Q d"
  shows "held_by P Q (put_session s d)"
proof -
  have "Q (dash_world (put_session s d))"
    using assms(2) world_signed by (simp add: held_by_def put_session_def put_world_def)
  moreover have "P p'" if "screen (put_session s d) = OnProject p'" for p'
  proof -
    from that obtain p where p: "screen d = OnProject p" "p' = p\<lparr>net := (dash_world d)\<lparr>store_auth := s\<rparr>\<rparr>"
      by (cases "screen d") (auto simp: put_session_def put_world_def)
    then show ?thesis
      using assms page_signed [of p s] by (simp add: held_by_def dash_world_inv_def)
  qed
  ultimately show ?thesis by (simp add: held_by_def)
qed

lemma show_page_held:
  assumes "held_by P Q d"
  shows "held_by P Q (show_page c rp page d)"
proof (cases page)
  case ProjectPage
  then show ?thesis
    using assms mounted renamed by (auto simp: held_by_def Let_def split: screen.split)
next
  case AuthCallbackPage
  have "held_by P Q ((enter c OnCallback d)\<lparr>exchanges := n\<rparr>)" for n
    using enter_held [OF assms, of OnCallback] by (simp add: held_by_def)
  then show ?thesis
    using assms AuthCallbackPage by (simp split: screen.split)
qed (use assms enter_held [OF assms] in \<open>simp_all split: screen.split\<close>)

lemma place_held: "held_by P Q d \<Longrightarrow> held_by P Q (place c rm rp n d)"
proof (induction n arbitrary: d)
  case (Suc n)
  let ?d1 = "place_guard rm d"
  have d1: "held_by P Q ?d1"
    using Suc.prems same_held [of ?d1 d] by simp
  have "held_by P Q ((leave c ?d1)\<lparr>location := u\<rparr>)" for u
    using leave_held [OF d1] by (simp add: held_by_def)
  moreover have "held_by P Q (enter c (OnError e) ?d1)" for e
    using enter_held [OF d1, of "OnError e"] by simp
  ultimately show ?case
    using Suc.IH show_page_held [OF d1] enter_held [OF d1, of OnSpinner] leave_held [OF d1]
    by (simp add: Let_def split: outcome.split)
qed (simp add: leave_held)

lemma start_held: "held_by P Q (dash_start c rm rp path)"
  unfolding dash_start_def rerender_def by (rule place_held) (simp add: held_by_def initial)

lemma lookup_done_held:
  assumes "dash_world_inv c d" and "held_by P Q d"
  shows "held_by P Q (lookup_done i r d)"
proof -
  let ?d = "d\<lparr>lookups := remove_nth i (lookups d)\<rparr>"
  have "held_by P Q (put_session s ?d)" for s
    using assms same_held [of ?d d] by (intro put_session_held) simp_all
  then show ?thesis
    by (auto simp: lookup_done_def held_by_def Let_def split: prod.split option.split)
qed

lemma callback_done_held:
  assumes "dash_world_inv c d" and "held_by P Q d"
  shows "held_by P Q (callback_done r d)"
  using put_session_held [OF assms] by (auto simp: callback_done_def held_by_def split: prod.split)

lemma step_held:
  assumes "dash_inv c rm d" and "held_by P Q d" and "dash_step c rm rp d e d'"
    and "\<And>f. e = Net f \<Longrightarrow> ok f"
  shows "held_by P Q d'"
proof -
  have world: "dash_world_inv c d"
    using assms(1) by (simp add: dash_inv_def)
  note rendered = place_held [of _ rm rp 3, folded rerender_def]
  show ?thesis
    using assms(3)
  proof cases
    case (dash_goto u)
    then show ?thesis using rendered assms(2) same_held [of "d\<lparr>location := pathname u\<rparr>" d] by simp
  next
    case (dash_net f w)
    have "Q w"
      using world_stepped [OF _ _ dash_net(3)] world assms(2,4) dash_net(1)
      by (auto simp: dash_world_inv_def held_by_def intro: reachable_inv)
    moreover have "P (p\<lparr>net := w\<rparr>)" if "screen d = OnProject p" for p
      using that world assms(2,4) dash_net page_stepped [OF _ _ page_env [of c p f w]]
      by (auto simp: dash_world_inv_def held_by_def)
    ultimately show ?thesis
      by (auto simp: dash_net(2) held_by_def put_world_def split: screen.splits)
  next
    case (dash_project p e p')
    moreover have "e \<noteq> Env f" for f
      using dash_project(4) by auto
    ultimately have "P p'"
      using page_stepped [OF _ _ dash_project(5)] world assms(2)
      by (simp add: dash_world_inv_def held_by_def)
    then have "held_by P Q (d\<lparr>screen := OnProject p', dash_world := net p',
        location := follow (navigated p) (navigated p') (location d)\<rparr>)"
      using world_below by (simp add: held_by_def)
    then show ?thesis using rendered dash_project by simp
  next
    case (dash_home h a h')
    then have "held_by P Q (d\<lparr>screen := OnHome h',
        location := follow (home_navigated h) (home_navigated h') (location d)\<rparr>)"
      using assms(2) by (simp add: held_by_def)
    then show ?thesis using rendered dash_home by simp
  next
    case (dash_session e)
    show ?thesis unfolding dash_session(2) by (rule rendered [OF put_session_held [OF world assms(2)]])
  next
    case (dash_response code)
    show ?thesis unfolding dash_response(2) by (rule rendered [OF put_session_held [OF world assms(2)]])
  next
    case (dash_lookup i r)
    show ?thesis unfolding dash_lookup(2) by (rule rendered [OF lookup_done_held [OF world assms(2)]])
  next
    case (dash_callback r)
    show ?thesis unfolding dash_callback(2) by (rule rendered [OF callback_done_held [OF world assms(2)]])
  next
    case (dash_home_settle h i r h')
    then show ?thesis using assms(2) by (simp add: held_by_def)
  next
    case (dash_team t e t')
    then show ?thesis using assms(2) by (simp add: held_by_def)
  next
    case (dash_keys k e k')
    then show ?thesis using assms(2) by (simp add: held_by_def)
  qed
qed

lemma runs_held:
  "runs (dash_step c rm rp) d es d' \<Longrightarrow> documented_match rm \<Longrightarrow> dash_inv c rm d \<Longrightarrow> held_by P Q d \<Longrightarrow>
     \<forall>f. Net f \<in> set es \<longrightarrow> ok f \<Longrightarrow> held_by P Q d'"
proof (induction rule: runs.induct)
  case (runs_Cons s e t es u)
  then show ?case
    using step_held [OF runs_Cons.prems(2,3) runs_Cons.hyps(1)] dash_step_inv by auto
qed simp

lemma started_held:
  assumes "dash_started c rm rp d0" and "runs (dash_step c rm rp) d0 es d"
    and "\<forall>f. Net f \<in> set es \<longrightarrow> ok f"
  shows "held_by P Q d"
  using assms start_held dash_start_inv by (auto simp: dash_started_def intro!: runs_held [OF assms(2)])

end

subsection \<open>A dashboard fed with typed frames\<close>

lemma typed_world_signed: "typed_world (w\<lparr>store_auth := s\<rparr>) = typed_world w"
  by (simp add: typed_world_def)

lemma typed_page_cong:
  "store_telemetry (net p') = store_telemetry (net p) \<Longrightarrow> store_alerts (net p') = store_alerts (net p) \<Longrightarrow>
     uncaught (net p') = uncaught (net p) \<Longrightarrow> feedRows p' = feedRows p \<Longrightarrow> page_errors p' = page_errors p \<Longrightarrow>
     typed_page p' = typed_page p"
  by (simp add: typed_page_def typed_world_def)

lemma typed_unmount: "typed_page p \<Longrightarrow> typed_world (net (page_unmount c p))"
  by (simp add: typed_page_def typed_world_def page_unmount_def feed_cleanup_def cancel_frame_def Let_def)

interpretation typed_dash: page_property c typed_page typed_world "typed_event c" for c
proof
  show "typed_world world_init" by (rule typed_world_init)
  show "typed_world w \<Longrightarrow> typed_page (page_mount name w)" for name w by (rule typed_page_mount)
  show "typed_page p \<Longrightarrow> typed_page (loadDevices n False (p\<lparr>page_name := n\<rparr>))" for p n
    by (subst typed_page_cong [of _ p]) (simp_all add: loadDevices_def)
  show "typed_page p \<Longrightarrow> typed_world (net (page_unmount c p))" for p by (rule typed_unmount)
  show "typed_page p \<Longrightarrow> typed_world (net p)" for p by (simp add: typed_page_def)
  show "typed_page p \<Longrightarrow> typed_page (p\<lparr>net := (net p)\<lparr>store_auth := s\<rparr>\<rparr>)" for p s
    by (subst typed_page_cong [of _ p]) simp_all
  show "typed_world w \<Longrightarrow> typed_world (w\<lparr>store_auth := s\<rparr>)" for w s by (simp add: typed_world_signed)
  show "typed_page p'" if "feed_inv c p" "typed_page p" "page_step c p e p'" "\<And>f. e = Env f \<Longrightarrow> typed_event c f"
    for p e p' using typed_page_step that by blast
  show "typed_world w'" if "ws_inv w" "typed_world w" "ws_step c w f w'" "typed_event c f" for w f w'
    using typed_ws_step [OF that(1,3,4,2)] .
qed

lemma inside_raises:
  "(\<exists>e. guard_layout eng active st d outlet = Inl e) \<longleftrightarrow>
     (\<exists>e. NavSidebar_view active (session d) = Inl e) \<or> (\<exists>e. pageTitle (location d) = Inl e) \<or>
     (\<exists>e. outlet = Inl e)"
  by (cases "NavSidebar_view active (session d)"; cases "pageTitle (location d)"; cases outlet)
    (simp_all add: guard_layout_def TopBar_view_def and_then_def)

lemma project_page_breaks:
  assumes "documented_hook hook" and "screen d = OnProject p"
  shows "\<exists>e. dash_view hook eng active copied_buttons st d = Inl e"
proof -
  have "\<exists>e. ProjectPage_view hook eng (isAdmin (session d)) p = Inl e"
    using assms(1) by (auto simp: documented_hook_def ProjectPage_view_def alerts_selection_def)
  then show ?thesis
    using assms(2) by (auto simp: dash_view_def inside_raises)
qed

text \<open>
  A session with a token has claims whose vehicle set is a value of the store, so the project
  list never makes one.
\<close>

lemma reachable_session: "reachable c w \<Longrightarrow> \<exists>as. store_auth w = foldl auth_step auth_init as"
proof -
  have "runs (ws_step c) w es w' \<Longrightarrow> \<exists>as. store_auth w' = foldl auth_step (store_auth w) as" for es w w'
  proof (induction rule: runs.induct)
    case (runs_Cons w e t es u)
    have "\<exists>as. store_auth t = foldl auth_step (store_auth w) as"
    proof (cases "\<exists>a. e = AuthEvent a")
      case True
      then obtain a where "store_auth t = auth_step (store_auth w) a"
        using runs_Cons(1) by (auto elim!: ws_stepE)
      then show ?thesis by (intro exI [of _ "[a]"]) simp
    next
      case False
      then have "\<not> session_event e" by (cases e) simp_all
      with runs_Cons(1) have "store_auth t = store_auth w"
        by (rule ws_step_auth)
      then show ?thesis by (intro exI [of _ "[]"]) simp
    qed
    then show ?case
      using runs_Cons(3) by (metis foldl_append)
  qed (rule exI [of _ "[]"], simp)
  then show "reachable c w \<Longrightarrow> ?thesis"
    by (fastforce simp: reachable_def world_init_def)
qed

lemma home_selects_kept:
  assumes "reachable c w" and "truthy_str (auth_token (store_auth w))"
  shows "HomePage_mounted hook eng (store_auth w) h = Inr (HomePage_view eng (isAdmin (store_auth w)) h)"
proof -
  obtain as where "store_auth w = foldl auth_step auth_init as"
    using reachable_session [OF assms(1)] by blast
  then have "session_fields (foldl session_step None as) (store_auth w)"
    using auth_run by simp
  then obtain u where claims: "auth_claims (store_auth w) = Some (parseClaims u)"
    using assms(2) by (cases "foldl session_step None as") (auto simp: session_fields_def truthy_str_def)
  have "claim_vehicle_set (parseClaims u) \<noteq> JNull"
    by (auto simp: parseClaims_def nullish_cases Let_def)
  then show ?thesis
    by (simp add: HomePage_mounted_def vehicleSet_selection_def claims)
qed

text \<open>
  C4: type soundness: when the gateway sends only frames of its types, the dashboard does not
  break on them: whatever the operator, the services and the identity provider do, no handler
  and no tick throws; the buffer of a vehicle holds telemetry frames of that vehicle only, with
  their times as numbers, every row of a mounted project page is a telemetry frame and every
  alert, those made of requests for assistance included, is an \<open>AlertFrame\<close>; the component of
  a mounted project page returns its elements; and the whole tree renders, whichever page is
  mounted, except exactly where the layout itself raises, on claims the sidebar has no initials
  for or on an address whose title cannot be decoded, where the role guard raises on a claim
  that cannot be converted, and on the project page, whose selection the hook of the stores
  does not settle in the version the program names.
\<close>

theorem typed_dashboard_renders:
  assumes "dash_started c rm rp d0" and "runs (dash_step c rm rp) d0 es d"
    and "\<forall>f. Net f \<in> set es \<longrightarrow> typed_event c f"
  shows "uncaught (dash_world d) = [] \<and>
         (\<forall>i. \<forall>f \<in> set (device_frames (store_telemetry (dash_world d)) i).
            (\<exists>t. read_frame f = Some (TelemetryFrame t) \<and> tf_vehicle_id t = i \<and> frame_ts f = Some (tf_ts t))) \<and>
         (\<forall>p. screen d = OnProject p \<longrightarrow> page_errors p = [] \<and>
            (\<forall>f \<in> set (feedRows p). \<exists>t. read_frame f = Some (TelemetryFrame t)) \<and>
            (\<exists>u. project_elements eng (isAdmin (session d)) (project_alerts p) p = Inr u)) \<and>
         (\<forall>a \<in> set (alerts (store_alerts (dash_world d))). \<exists>x. read_frame a = Some (AlertFrame x)) \<and>
         ((\<exists>e. dash_view hook eng active copied_buttons st d = Inl e) \<longleftrightarrow>
            protected (screen d) \<and>
            ((\<exists>e. NavSidebar_view active (session d) = Inl e) \<or>
             (\<exists>e. pageTitle (location d) = Inl e) \<or>
             documented_hook hook \<and> (\<exists>p. screen d = OnProject p) \<or>
             (\<exists>e. screen d = OnError e)))"
proof -
  have typed: "typed_world (dash_world d)" "screen d = OnProject p \<Longrightarrow> typed_page p" for p
    using typed_dash.started_held [OF assms] by (simp_all add: held_by_def)
  have inv: "routed rm d" "reachable c (dash_world d)"
    using dash.inv_runs [OF assms(1,2)] by (simp_all add: dash_inv_def dash_world_inv_def)
  have elements: "\<exists>u. project_elements eng (isAdmin (session d)) (project_alerts p) p = Inr u"
    if "screen d = OnProject p" for p
    using typed_page_renders [OF typed(2) [OF that]] .
  have "(\<exists>e. dash_view hook eng active copied_buttons st d = Inl e) \<longleftrightarrow>
      protected (screen d) \<and>
      ((\<exists>e. NavSidebar_view active (session d) = Inl e) \<or> (\<exists>e. pageTitle (location d) = Inl e) \<or>
       documented_hook hook \<and> (\<exists>p. screen d = OnProject p) \<or> (\<exists>e. screen d = OnError e))"
  proof (cases "screen d")
    case (OnProject p)
    with elements obtain u where "project_elements eng (isAdmin (session d)) (project_alerts p) p = Inr u"
      by blast
    then have "(\<exists>e. map_sum id (embed ByProject) (ProjectPage_view hook eng (isAdmin (session d)) p) = Inl e)
        \<longleftrightarrow> documented_hook hook"
      by (cases hook) (simp_all add: ProjectPage_view_def alerts_selection_def documented_hook_def)
    then show ?thesis
      using OnProject by (simp add: dash_view_def protected_def inside_raises)
  next
    case (OnHome h)
    then have "truthy_str (auth_token (session d))"
      using protected_checked [OF inv(1)] by (simp add: protected_def)
    from home_selects_kept [OF inv(2) this] show ?thesis
      using OnHome by (simp add: dash_view_def protected_def inside_raises)
  next
    case (OnKeys k)
    then have "RoleGuard Admin True False (session d) = Inr True"
      using protected_checked [OF inv(1)] by (simp add: protected_def)
    then have "ApiKeysPage_view eng (session d) copied_buttons k = Inr (keys_content eng copied_buttons k)"
      unfolding ApiKeysPage_view_def by (subst RoleGuard_cases) simp
    then show ?thesis
      using OnKeys by (simp add: dash_view_def protected_def inside_raises)
  qed (simp_all add: dash_view_def protected_def inside_raises)
  then show ?thesis
    using typed_world_holds [OF typed(1)] typed_page_rows [OF typed(2)] elements by blast
qed

subsection \<open>A run to apply the properties to\<close>

text \<open>
  A signed-in viewer opens a project; its one device is loaded, the socket opens and the
  gateway sends a frame, written and read as JSON text.
\<close>

definition live_config :: ws_config where
  "live_config = with_json demo_config"

definition live_text :: string where
  "live_text = json_text whole_text (frame_json (TelemetryFrame ns_frame))"

abbreviation live_user :: oidc_user where
  "live_user \<equiv> sample_user ''viewer''"

definition live_signed :: world where
  "live_signed = world_init\<lparr>store_auth := set_session live_user auth_init\<rparr>"

definition live_connecting :: world where
  "live_connecting = subscribe live_config ''v1'' live_signed"

definition live_open :: world where
  "live_open = handle_open (set_ready 0 OPEN live_connecting)"

definition live_page :: page_world where
  "live_page = settled live_config (Loading False) (Inr (Some [sample_vehicle ''v1'']))
     ((page_mount (Some ''fleet'') live_signed)\<lparr>pending := []\<rparr>)"

definition live_dash :: "page_world \<Rightarrow> dashboard" where
  "live_dash p = \<lparr>location = ''/projects/fleet'', guard = Some (0, True), guards = 1, lookups = [], exchanges = 0,
     screen = OnProject p, dash_world = net p\<rparr>"

lemma live_connecting_state:
  "sockets live_connecting = [\<lparr>sock_url = ''ws://gw/ws?token=t1'', readyState = CONNECTING,
                               onclose = True, sent = []\<rparr>]"
  "ws live_connecting = Some 0" "store_auth live_connecting = set_session live_user auth_init"
  by (simp_all add: live_connecting_def live_signed_def world_init_def ws_ops ws_url_def live_config_def with_json_def
      demo_config_def auth_init_def set_session_def sample_user_def)

lemma live_page_state:
  "map v_id (devices live_page) = [''v1'']" "frames live_page = [(1, [''v1''])]"
  "page_name live_page = Some ''fleet''" "net live_page = live_connecting"
  "navigated live_page = []" "\<not> loading live_page" "load_error live_page = []"
  by (simp_all add: live_page_def settled_def devices_settled_def set_devices_def feed_cleanup_def
      feed_effect_def request_frame_def page_mount_def loadDevices_def truthy_str_def sample_vehicle_def
      subscribe_all_def live_connecting_def)

lemma live_open_step: "ws_step live_config live_connecting (SocketOpen 0) live_open"
  unfolding live_open_def by (rule step_open) (simp_all add: live_connecting_state ready_def)

definition live_received :: world where
  "live_received = handle_message live_config (Text live_text) live_open"

lemma live_received_step: "ws_step live_config live_open (SocketMessage 0 (Text live_text)) live_received"
  unfolding live_received_def
  by (rule step_message) (simp_all add: live_open_def ws_ops live_connecting_state)

lemma live_open_auth: "store_auth live_open = set_session live_user auth_init"
  using ws_step_auth [OF live_open_step] by (simp add: live_connecting_state)

lemma live_received_auth: "store_auth live_received = set_session live_user auth_init"
  using ws_step_auth [OF live_received_step] by (simp add: live_open_auth)

lemma live_chain: "chain_of demo_match ''/projects/fleet'' = [AuthGuardElement, Page ProjectPage]"
  by (simp add: chain_of_def demo_match_def route_table_eq)

lemma live_rerender:
  assumes "page_name p = Some ''fleet''" and "store_auth (net p) = set_session live_user auth_init"
  shows "rerender c demo_match demo_param (live_dash p) = live_dash p"
  using assms by (simp add: rerender_def numeral_3_eq_3 Let_def place_guard_def live_dash_def App_chain live_chain
      AuthGuard_def is_checked_def set_session_def sample_user_def truthy_str_def demo_param_def)

lemma live_opened:
  "dash_step c demo_match demo_param (dash_start c demo_match demo_param ''/projects/fleet'')
     (LookupDone 0 (Inr (Some live_user))) (live_dash (page_mount (Some ''fleet'') live_signed))"
proof -
  let ?d = "dash_start c demo_match demo_param ''/projects/fleet''"
  have start: "?d = \<lparr>location = ''/projects/fleet'', guard = Some (0, False), guards = 1, lookups = [0],
      exchanges = 0, screen = OnSpinner, dash_world = world_init\<rparr>"
    by (simp add: dash_start_def rerender_def numeral_3_eq_3 Let_def place_guard_def App_chain live_chain
        AuthGuard_def is_checked_def enter_def leave_def)
  have "lookup_done 0 (Inr (Some live_user)) ?d = ?d\<lparr>lookups := [], guard := Some (0, True), dash_world := live_signed\<rparr>"
    by (simp add: start lookup_done_def AuthGuard_checked_def loadExisting_def remove_nth_def put_session_def
        put_world_def live_signed_def set_session_def sample_user_def world_init_def)
  moreover have "rerender c demo_match demo_param (?d\<lparr>lookups := [], guard := Some (0, True), dash_world := live_signed\<rparr>)
      = live_dash (page_mount (Some ''fleet'') live_signed)"
    by (simp add: start rerender_def numeral_3_eq_3 Let_def place_guard_def App_chain live_chain AuthGuard_def
        is_checked_def live_signed_def set_session_def sample_user_def truthy_str_def demo_param_def live_dash_def)
  ultimately show ?thesis
    by (simp add: dash_step_lookup) (simp add: start)
qed

lemma live_project:
  assumes "page_step c p e p'" and "page_own_event e" and "navigated p' = navigated p"
    and "page_name p' = Some ''fleet''" and "store_auth (net p') = set_session live_user auth_init"
  shows "dash_step c demo_match demo_param (live_dash p) (ProjectDoes e) (live_dash p')"
  using dash_project [OF _ assms(2,1), of "live_dash p" demo_match demo_param]
    live_rerender [OF assms(4,5), of c] assms(3)
  by (simp add: live_dash_def follow_def)

lemma live_net:
  assumes "ws_step c (net p) e w" and "\<not> subscription_event e" and "\<not> session_event e"
  shows "dash_step c demo_match demo_param (live_dash p) (Net e) (live_dash (p\<lparr>net := w\<rparr>))"
  using dash_net [of c "live_dash p" e w demo_match demo_param] assms
  by (simp add: live_dash_def put_world_def)

definition live_run :: "dash_event list" where
  "live_run = [LookupDone 0 (Inr (Some live_user)), ProjectDoes (Settle 0 (Inr (Some [sample_vehicle ''v1'']))),
     Net (SocketOpen 0)]"

lemma live_run_ok:
  "runs (dash_step live_config demo_match demo_param) (dash_start live_config demo_match demo_param ''/projects/fleet'')
     live_run (live_dash (live_page\<lparr>net := live_open\<rparr>))"
proof -
  have "page_step live_config (page_mount (Some ''fleet'') live_signed)
      (Settle 0 (Inr (Some [sample_vehicle ''v1'']))) live_page"
    by (simp add: page_step_settle live_page_def page_mount_def loadDevices_def truthy_str_def remove_nth_def)
  moreover have "navigated (page_mount (Some ''fleet'') live_signed) = []"
    by (simp add: page_mount_def loadDevices_def)
  ultimately have loaded: "dash_step live_config demo_match demo_param
      (live_dash (page_mount (Some ''fleet'') live_signed))
      (ProjectDoes (Settle 0 (Inr (Some [sample_vehicle ''v1''])))) (live_dash live_page)"
    by (intro live_project) (simp_all add: live_page_state live_connecting_state)
  have "dash_step live_config demo_match demo_param (live_dash live_page) (Net (SocketOpen 0))
      (live_dash (live_page\<lparr>net := live_open\<rparr>))"
    using live_open_step by (intro live_net) (simp_all add: live_page_state)
  with loaded live_opened show ?thesis
    unfolding live_run_def runs_Cons_iff runs_Nil_iff by blast
qed

lemma live_started:
  "dash_started live_config demo_match demo_param (dash_start live_config demo_match demo_param ''/projects/fleet'')"
  using demo_match_documented by (auto simp: dash_started_def)

lemma live_text_parsed:
  "JSON_parse live_config live_text = Some (frame_json (frame_numbers round_double (TelemetryFrame ns_frame)))"
  using frame_arrives [OF ns_frame_writable] by (simp add: live_config_def with_json_def live_text_def)

lemma live_message:
  "dash_step live_config demo_match demo_param (live_dash (live_page\<lparr>net := live_open\<rparr>))
     (Net (SocketMessage 0 (Text live_text))) (live_dash (live_page\<lparr>net := live_received\<rparr>))"
  using live_net [of live_config "live_page\<lparr>net := live_open\<rparr>", OF _ _ _] live_received_step by simp

lemma live_events_typed: "\<forall>f. Net f \<in> set (live_run @ [Net (SocketMessage 0 (Text live_text))]) \<longrightarrow> typed_event live_config f"
  by (auto simp: live_run_def typed_event_def frame_of_def live_text_parsed read_frame_json simp del: frame_json.simps frame_numbers.simps)

lemma live_layout:
  assumes "store_auth (net p) = set_session live_user auth_init"
  shows "NavSidebar_view (\<lambda>u b. False) (session (live_dash p)) \<noteq> Inl e"
    and "pageTitle (location (live_dash p)) \<noteq> Inl e'"
proof -
  have "case NavSidebar_view (\<lambda>u b. False) (set_session live_user auth_init) of
      Inl e \<Rightarrow> False | Inr v \<Rightarrow> True"
    by code_simp
  then show "NavSidebar_view (\<lambda>u b. False) (session (live_dash p)) \<noteq> Inl e"
    using assms by (auto simp: live_dash_def)
  have "case pageTitle ''/projects/fleet'' of Inl e \<Rightarrow> False | Inr v \<Rightarrow> True"
    by code_simp
  then show "pageTitle (location (live_dash p)) \<noteq> Inl e'"
    by (auto simp: live_dash_def)
qed

theorem typed_dashboard_renders_witness:
  "\<exists>d p. screen d = OnProject p \<and> uncaught (dash_world d) = [] \<and>
     (\<exists>u. project_elements demo_engine (isAdmin (session d)) (project_alerts p) p = Inr u) \<and>
     (\<exists>v. dash_view None demo_engine (\<lambda>u b. False) (\<lambda>i. False) Connected d = Inr v) \<and>
     (\<exists>e. dash_view (Some RenderError) demo_engine (\<lambda>u b. False) (\<lambda>i. False) Connected d = Inl e)"
proof -
  let ?p = "live_page\<lparr>net := live_received\<rparr>"
  let ?view = "\<lambda>hook. dash_view hook demo_engine (\<lambda>u b. False) (\<lambda>i. False) Connected (live_dash ?p)"
  note all = typed_dashboard_renders [OF live_started runs_snocI [OF live_run_ok live_message] live_events_typed,
      where active = "\<lambda>u b. False" and copied_buttons = "\<lambda>i. False" and st = Connected and eng = demo_engine]
  have screen: "screen (live_dash ?p) = OnProject ?p"
    by (simp add: live_dash_def)
  have "store_auth (net ?p) = set_session live_user auth_init"
    using live_received_auth by simp
  from live_layout [OF this] have "\<nexists>e. ?view None = Inl e"
    using all [of None] by (simp add: documented_hook_def screen)
  then have "\<exists>v. ?view None = Inr v"
    by (cases "?view None") auto
  moreover have "\<exists>e. ?view (Some RenderError) = Inl e"
    using all [of "Some RenderError"] screen by (simp add: documented_hook_def protected_def)
  moreover have "uncaught (dash_world (live_dash ?p)) = [] \<and>
      (\<exists>u. project_elements demo_engine (isAdmin (session (live_dash ?p))) (project_alerts ?p) ?p = Inr u)"
    using all screen by blast
  ultimately show ?thesis
    using screen by blast
qed

end
