(* ===== verification/AlertsEndToEnd.thy ===== *)
theory AlertsEndToEnd
  imports LiveDashboard
begin

section \<open>From the text of an alert to the alerts tab\<close>

text \<open>
  Alerts and requests for assistance are among the elements of the page as soon as they are in
  the store: the page's component reads the store when it is called, so the message alone
  changes the alerts tab.
\<close>

subsection \<open>What the tab renders\<close>

fun level_badge :: "alert_level \<Rightarrow> string" where
  "level_badge LevelInfo = ''blue''"
| "level_badge LevelWarning = ''amber''"
| "level_badge LevelError = ''red''"
| "level_badge LevelCritical = ''red''"

definition alert_element :: "(string \<rightharpoonup> string) \<Rightarrow> alert_frame \<Rightarrow> 'a node" where
  "alert_element names a =
     El ''div'' [Cls ''alertRow'']
       [El ''span'' [Cls (''alertLevel badge '' @ level_badge (af_level a))] [Txt (level_name (af_level a))],
        El ''span'' [Cls ''alertDevice'']
          [Txt (case names (af_device a) of Some n \<Rightarrow> n | None \<Rightarrow> take 8 (af_device a))],
        El ''span'' [Cls ''alertMessage''] [Txt (af_message a)]]"

lemma level_read: "level_prop j k = Some l \<Longrightarrow> field j k = Some (JStr (level_name l))"
  by (auto simp: level_prop_def string_prop_Some bind_eq_Some_conv level_names_def split: if_splits)

lemma level_shown: "levelColor (Some (JStr (level_name l))) = level_badge l"
  by (cases l) (simp_all add: levelColor_def is_string_def)

lemma alert_shown:
  assumes "read_frame j = Some (AlertFrame a)"
  shows "alert_row names j = Inr (alert_element names a)"
proof -
  have "field j ''device'' = Some (JStr (af_device a))" "field j ''message'' = Some (JStr (af_message a))"
    using typed_alert [OF assms] by simp_all
  moreover have "field j ''level'' = Some (JStr (level_name (af_level a)))"
    using assms by (auto simp: read_defs split: option.splits if_splits dest!: level_read)
  ultimately show ?thesis
    by (simp add: alert_row_def react_child_def device_label_def alert_element_def level_shown)
qed

lemma alerts_shown:
  assumes "list_all2 (\<lambda>j a. read_frame j = Some (AlertFrame a)) js as"
  shows "map_or_raise (alert_row names) js = Inr (map (alert_element names) as)"
  using assms by (induction rule: list_all2_induct) (simp_all add: alert_shown)

lemma alerts_in_tab:
  assumes "page_ready p" and "shown_tab p = AlertsTab" and "js \<noteq> []"
    and "list_all2 (\<lambda>j a. read_frame j = Some (AlertFrame a)) js as"
  shows "\<exists>u. project_elements eng admin js p = Inr u \<and>
           El ''div'' [Cls ''tabContent''] (map (alert_element (deviceNameMap (devices p))) as) \<in> set (descendants u)"
  using assms(1-3) alerts_shown [OF assms(4)]
  by (auto simp: project_elements_def page_ready_def alerts_tab_def)

lemma tab_on_screen:
  assumes "dash_view hook eng active copied_buttons st d = Inr (title, v)" and "screen d = OnProject p"
    and "project_elements eng (isAdmin (session d)) (project_alerts p) p = Inr u"
    and "El ''div'' [Cls ''tabContent''] (map (alert_element names) as) \<in> set (descendants u)"
  shows "El ''div'' [Cls ''tabContent''] (map (alert_element names) as) \<in> set (descendants v)"
proof -
  have row: "embed ByProject (alert_element names a) = alert_element names a" for a
    by (simp add: alert_element_def)
  have same: "embed ByProject (El ''div'' [Cls ''tabContent''] (map (alert_element names) as))
      = El ''div'' [Cls ''tabContent''] (map (alert_element names) as)"
    by (simp add: comp_def row)
  have "embed ByProject ` set (descendants u) \<subseteq> set (descendants v)"
    using project_on_screen [OF assms(1,2)] assms(3) by auto
  then have "embed ByProject (El ''div'' [Cls ''tabContent''] (map (alert_element names) as)) \<in> set (descendants v)"
    using assms(4) by blast
  then show ?thesis
    unfolding same .
qed

subsection \<open>The message\<close>

text \<open>What an alert or a request for assistance is shown as.\<close>

fun shown_as :: "live_frame \<Rightarrow> alert_frame option" where
  "shown_as (TelemetryFrame t) = None"
| "shown_as (AlertFrame a) = Some a"
| "shown_as (AssistanceFrame x) =
     Some \<lparr>af_device = xf_device x, af_level = LevelWarning, af_message = ''Assistance requested: '' @ xf_reason x\<rparr>"

lemma dash_net_page:
  assumes "dash_world_inv c d" and "screen d = OnProject p" and "dash_step c rm rp d (Net e) d'"
  shows "\<exists>w. ws_step c (net p) e w \<and> screen d' = OnProject (p\<lparr>net := w\<rparr>) \<and> page_step c p (Env e) (p\<lparr>net := w\<rparr>)"
  using assms(3)
proof cases
  case (dash_net w)
  have same: "net p = dash_world d"
    using assms(1,2) by (simp add: dash_world_inv_def)
  then have "page_step c p (Env e) (p\<lparr>net := w\<rparr>)"
    using dash_net by (intro page_env) simp_all
  then show ?thesis
    using assms(2) dash_net same by (intro exI [of _ w]) (simp add: put_world_def)
qed

lemma alert_delivered:
  assumes "JSON_parse c = json_parse" and "shown_as f = Some a"
    and "ws_step c w (SocketMessage i (Text (json_text num (frame_json f)))) w'"
  shows "alerts (store_alerts w') = frame_json (AlertFrame a) # take 199 (alerts (store_alerts w))"
proof -
  have "with_json c = c"
    using assms(1) by (simp add: with_json_def flip: assms(1))
  moreover have "writable num (\<lambda>r. r) (frame_json f)"
    using assms(2) by (intro writable_frame) auto
  ultimately have "w' = delivered (frame_numbers (\<lambda>r. r) f) w"
    using frame_handled [of num "\<lambda>r. r" f c w] assms(3) by (simp add: ws_step_message)
  then show ?thesis
    using assms(2) by (cases f) (auto simp: alert_push_def MAX_ALERTS_def simp del: frame_json.simps)
qed

text \<open>
  C2: end to end: when a dashboard whose gateway sends frames of its types has a project page
  with the alerts tab selected, and the gateway writes an alert or a request for assistance of
  one of its devices as JSON text, then after that message alone the elements that a call of
  the page's component returns have it at the top of the tab, with its level and colour, the
  name of the device and the message, an assistance request as a warning with its reason;
  below it in their order are the project's alerts among the 199 newest before.  Every tree the
  dashboard then renders has them; but with the stores' hook as documented for the version the
  program names, the selection of the project page makes the tree raise instead.
\<close>

theorem alert_text_reaches_tab:
  assumes "dash_started c rm rp d0" and "runs (dash_step c rm rp) d0 es d"
    and "\<forall>f. Net f \<in> set es \<longrightarrow> typed_event c f" and "JSON_parse c = json_parse"
    and "screen d = OnProject p" and "page_ready p" and "shown_tab p = AlertsTab"
    and "shown_as f = Some a" and "af_device a \<in> set (ids_of p)"
    and "dash_step c rm rp d (Net (SocketMessage i (Text (json_text num (frame_json f))))) d1"
  shows "\<exists>q as u. screen d1 = OnProject q \<and>
         list_all2 (\<lambda>j b. read_frame j = Some (AlertFrame b))
           (filter (\<lambda>j. field j ''device'' \<in> Some ` JStr ` set (ids_of p))
              (take 199 (alerts (store_alerts (dash_world d))))) as \<and>
         project_elements eng (isAdmin (session d1)) (project_alerts q) q = Inr u \<and>
         El ''div'' [Cls ''tabContent''] (map (alert_element (deviceNameMap (devices p))) (a # as))
           \<in> set (descendants u) \<and>
         (\<forall>hook active copied_buttons st title v.
            dash_view hook eng active copied_buttons st d1 = Inr (title, v) \<longrightarrow>
            El ''div'' [Cls ''tabContent''] (map (alert_element (deviceNameMap (devices p))) (a # as))
              \<in> set (descendants v)) \<and>
         (\<forall>hook active copied_buttons st. documented_hook hook \<longrightarrow>
            (\<exists>e. dash_view hook eng active copied_buttons st d1 = Inl e))"
proof -
  let ?older = "filter (\<lambda>j. field j ''device'' \<in> Some ` JStr ` set (ids_of p))
      (take 199 (alerts (store_alerts (dash_world d))))"
  have world: "dash_world_inv c d"
    using dash.inv_runs [OF assms(1,2)] by (simp add: dash_inv_def)
  then have same: "net p = dash_world d"
    using assms(5) by (simp add: dash_world_inv_def)
  obtain w where w: "ws_step c (net p) (SocketMessage i (Text (json_text num (frame_json f)))) w"
    and d1: "screen d1 = OnProject (p\<lparr>net := w\<rparr>)"
    using dash_net_page [OF world assms(5,10)] by blast
  have "typed_world (dash_world d)"
    using typed_dash.started_held [OF assms(1-3)] by (simp add: held_by_def)
  then have "\<forall>j \<in> set ?older. \<exists>b. read_frame j = Some (AlertFrame b)"
    using typed_world_holds(3) by (auto dest!: in_set_takeD)
  from list_all2_choice [OF this] obtain as where older: "list_all2 (\<lambda>j b. read_frame j = Some (AlertFrame b)) ?older as"
    by blast
  have "project_alerts (p\<lparr>net := w\<rparr>) = frame_json (AlertFrame a) # ?older"
    using alert_delivered [OF assms(4,8) w] assms(9)
    by (auto simp: project_alerts_def Let_def same field_def image_image)
  moreover from this have "list_all2 (\<lambda>j b. read_frame j = Some (AlertFrame b)) (project_alerts (p\<lparr>net := w\<rparr>)) (a # as)"
    using older by (simp only: list_all2_Cons read_frame_json simp_thms)
  ultimately obtain u where u: "project_elements eng (isAdmin (session d1)) (project_alerts (p\<lparr>net := w\<rparr>)) (p\<lparr>net := w\<rparr>) = Inr u"
    and tab: "El ''div'' [Cls ''tabContent''] (map (alert_element (deviceNameMap (devices p))) (a # as)) \<in> set (descendants u)"
    using alerts_in_tab [of "p\<lparr>net := w\<rparr>" "project_alerts (p\<lparr>net := w\<rparr>)" "a # as" eng "isAdmin (session d1)"]
      assms(6,7) by (fastforce simp: page_ready_def)
  then show ?thesis
    using older d1 tab_on_screen [OF _ d1 u tab] project_page_breaks [OF _ d1] by blast
qed

text \<open>The gateway asks for assistance for the device of a project whose alerts are shown.\<close>

definition help_frame :: live_frame where
  "help_frame = AssistanceFrame \<lparr>xf_device = ''v1'', xf_request_id = ''r1'', xf_reason = ''stuck''\<rparr>"

definition help_alert :: alert_frame where
  "help_alert = \<lparr>af_device = ''v1'', af_level = LevelWarning, af_message = ''Assistance requested: stuck''\<rparr>"

definition help_text :: string where
  "help_text = json_text number_string (frame_json help_frame)"

definition alerts_page :: page_world where
  "alerts_page = live_page\<lparr>net := live_open, shown_tab := AlertsTab\<rparr>"

definition helped :: world where
  "helped = handle_message live_config (Text help_text) live_open"

lemma help_parsed: "JSON_parse live_config help_text = Some (frame_json help_frame)"
proof -
  have "writable number_string (\<lambda>r. r) (frame_json help_frame)"
    by (rule writable_frame) (simp add: help_frame_def)
  from frame_arrives [OF this] show ?thesis
    by (simp add: live_config_def with_json_def help_text_def) (simp add: help_frame_def)
qed

lemma helped_step: "ws_step live_config live_open (SocketMessage 0 (Text help_text)) helped"
  unfolding helped_def by (rule step_message) (simp_all add: live_open_def ws_ops live_connecting_state)

lemma alerts_page_run:
  "runs (dash_step live_config demo_match demo_param) (dash_start live_config demo_match demo_param ''/projects/fleet'')
     (live_run @ [ProjectDoes (Act (SelectTab AlertsTab))]) (live_dash alerts_page)"
proof (rule runs_snocI [OF live_run_ok live_project])
  show "page_step live_config (live_page\<lparr>net := live_open\<rparr>) (Act (SelectTab AlertsTab)) alerts_page"
    by (simp add: alerts_page_def)
qed (simp_all add: alerts_page_def live_page_state live_open_auth)

lemma help_step:
  "dash_step live_config demo_match demo_param (live_dash alerts_page)
     (Net (SocketMessage 0 (Text help_text))) (live_dash (alerts_page\<lparr>net := helped\<rparr>))"
  using live_net [of live_config alerts_page, OF _ _ _] helped_step by (simp add: alerts_page_def)

theorem alert_text_reaches_tab_witness:
  "\<exists>u as. project_elements demo_engine False (project_alerts (alerts_page\<lparr>net := helped\<rparr>)) (alerts_page\<lparr>net := helped\<rparr>) = Inr u \<and>
     El ''div'' [Cls ''tabContent''] (map (alert_element (deviceNameMap (devices live_page))) (help_alert # as))
       \<in> set (descendants u)"
proof -
  let ?es = "live_run @ [ProjectDoes (Act (SelectTab AlertsTab))]"
  have typed: "\<forall>f. Net f \<in> set ?es \<longrightarrow> typed_event live_config f"
    using live_events_typed by simp
  have screen: "screen (live_dash p) = OnProject p" for p
    by (simp add: live_dash_def)
  have "store_auth helped = set_session live_user auth_init"
    using ws_step_auth [OF helped_step] by (simp add: live_open_auth)
  then have "\<not> isAdmin (session (live_dash (alerts_page\<lparr>net := helped\<rparr>)))"
    by (simp add: live_dash_def isAdmin_def set_session_def sample_user_def is_string_def)
  moreover have "JSON_parse live_config = json_parse" "page_ready alerts_page" "shown_tab alerts_page = AlertsTab"
    "shown_as help_frame = Some help_alert" "af_device help_alert \<in> set (ids_of alerts_page)"
    by (simp_all add: live_config_def with_json_def alerts_page_def help_frame_def help_alert_def
        live_page_state page_ready_def)
  ultimately show ?thesis
    using alert_text_reaches_tab [OF live_started alerts_page_run typed _ screen _ _ _ _ help_step [unfolded help_text_def],
        of help_alert demo_engine]
    by (auto simp: screen alerts_page_def)
qed

end
