(* ===== verification/DashboardWaiting.thy ===== *)
theory DashboardWaiting
  imports DashboardBehaviour
begin

section \<open>Nothing on screen waits forever\<close>

text \<open>
  What the pages promise of their own spinners and disabled buttons holds in the dashboard that
  mounts them, and its own two waiting screens have a promise too: the guard's spinner a
  session lookup of this instance of the guard, the callback page a code exchange.  Pages are
  abandoned with their promises when they are unmounted, and a new page starts with its own.
\<close>

subsection \<open>What waits is awaited\<close>

text \<open>The router gives the project page a name: a pattern segment matches no empty segment.\<close>

definition named_routes :: "(string list \<Rightarrow> string \<Rightarrow> string option) \<Rightarrow> (string \<Rightarrow> string option) \<Rightarrow> bool" where
  "named_routes rm rp \<longleftrightarrow>
     (\<forall>path. rm (map fst route_table) path = Some ''/projects/:name'' \<longrightarrow> truthy_str (rp path))"

fun screen_served :: "nat \<Rightarrow> screen \<Rightarrow> bool" where
  "screen_served n (OnHome h) = home.served h"
| "screen_served n (OnProject p) = busy_inv p"
| "screen_served n (OnTeam t) = team.served t"
| "screen_served n (OnKeys k) = keys.served k"
| "screen_served n OnCallback = (0 < n)"
| "screen_served n x = True"

definition guard_served :: "dashboard \<Rightarrow> bool" where
  "guard_served d \<longleftrightarrow> (\<forall>k. guard d = Some (k, False) \<longrightarrow> k \<in> set (lookups d))"

definition awaited :: "(string \<Rightarrow> string option) \<Rightarrow> dashboard \<Rightarrow> bool" where
  "awaited rp d \<longleftrightarrow>
     guard_served d \<and> screen_served (exchanges d) (screen d) \<and>
     (\<forall>p. screen d = OnProject p \<longrightarrow> page_name p = rp (location d))"

text \<open>What is left of it before rendering: a callback page that has ended is on its way elsewhere.\<close>

definition almost_awaited :: "dashboard \<Rightarrow> bool" where
  "almost_awaited d \<longleftrightarrow>
     guard_served d \<and>
     (screen_served (exchanges d) (screen d) \<or> screen d = OnCallback \<and> location d \<in> {''/'', ''/login''})"

lemma page_mounts_served:
  "home.served (home_mount auth)" "team.served team_mount" "keys.served keys_mount"
  "truthy_str name \<Longrightarrow> busy_inv (page_mount name w)"
  unfolding home.served_def home_mount_def home_load_def team.served_def team_mount_def loadAll_def
    keys.served_def keys_mount_def keys_load_def form_inv_def
  by (auto elim: home_waiting.elims team_waiting.elims keys_waiting.elims
      simp: busy_inv_def page_mount_def loadDevices_def)

lemma busy_renamed: "busy_inv p \<Longrightarrow> truthy_str n \<Longrightarrow> busy_inv (loadDevices n False (p\<lparr>page_name := n\<rparr>))"
  by (auto simp: busy_inv_def loadDevices_def)

lemma busy_net [simp]: "busy_inv (p\<lparr>net := w\<rparr>) = busy_inv p"
  by (simp add: busy_inv_def)

subsection \<open>Rendering\<close>

lemma leave_exchanges [simp]: "exchanges (leave c d) = exchanges d"
  by (simp add: leave_def split: screen.split)

lemma leave_awaited: "guard_served d \<Longrightarrow> awaited rp (leave c d)"
  by (simp add: awaited_def guard_served_def)

lemma enter_awaited:
  "guard_served d \<Longrightarrow> screen_served (exchanges d) new \<Longrightarrow> (\<And>p. new \<noteq> OnProject p) \<Longrightarrow> awaited rp (enter c new d)"
  by (simp add: awaited_def guard_served_def enter_def)

lemma place_guard_served: "guard_served d \<Longrightarrow> guard_served (place_guard rm d)"
  by (auto simp: guard_served_def place_guard_def)

lemma show_page_awaited:
  assumes "guard_served d" and "screen_served (exchanges d) (screen d) \<or> screen d = OnCallback \<and> page \<noteq> AuthCallbackPage"
    and "page = ProjectPage \<Longrightarrow> truthy_str (rp (location d))"
  shows "awaited rp (show_page c rp page d)"
proof (cases page)
  case AuthCallbackPage
  have "awaited rp ((enter c OnCallback d)\<lparr>exchanges := exchanges d + 1\<rparr>)"
    using assms(1) by (simp add: awaited_def guard_served_def enter_def)
  then show ?thesis
    using assms AuthCallbackPage by (cases "screen d = OnCallback") (auto simp: awaited_def split: screen.split)
next
  case ProjectPage
  then show ?thesis
    using assms busy_renamed page_mounts_served(4)
    by (auto simp: awaited_def guard_served_def Let_def loadDevices_def page_mount_def split: screen.split)
qed (use assms page_mounts_served in \<open>auto simp: awaited_def guard_served_def enter_def split: screen.split\<close>)

lemma App_project_page: "App rm b s path = Rendered ProjectPage \<Longrightarrow> rm (map fst route_table) path = Some ''/projects/:name''"
  by (auto simp: App_chain chain_of_def route_table_eq AuthGuard_def AdminGuard_cases
      split: option.splits if_splits sum.splits)

lemma App_not_callback:
  "documented_match rm \<Longrightarrow> path \<in> {''/'', ''/login''} \<Longrightarrow> App rm b s path \<noteq> Rendered AuthCallbackPage"
  by (auto simp: App_home App_login AuthGuard_def split: if_splits)

lemma place_awaited:
  assumes "documented_match rm" and "named_routes rm rp"
  shows "almost_awaited d \<Longrightarrow> awaited rp (place c rm rp n d)"
proof (induction n arbitrary: d)
  case 0
  then show ?case by (simp add: almost_awaited_def leave_awaited)
next
  case (Suc n)
  let ?d = "place_guard rm d"
  have guard: "guard_served ?d"
    using Suc.prems by (simp add: almost_awaited_def place_guard_served)
  show ?case
  proof (cases "App rm (is_checked ?d) (session ?d) (location ?d)")
    case (Rendered page)
    have "awaited rp (show_page c rp page ?d)"
    proof (rule show_page_awaited [OF guard])
      show "screen_served (exchanges ?d) (screen ?d) \<or> screen ?d = OnCallback \<and> page \<noteq> AuthCallbackPage"
        using Suc.prems App_not_callback [OF assms(1)] Rendered by (auto simp: almost_awaited_def)
      show "truthy_str (rp (location ?d))" if "page = ProjectPage"
        using assms(2) App_project_page Rendered that by (auto simp: named_routes_def)
    qed
    then show ?thesis using Rendered by (simp add: Let_def)
  next
    case (Redirect u)
    have "almost_awaited ((leave c ?d)\<lparr>location := u\<rparr>)"
      using guard by (simp add: almost_awaited_def guard_served_def)
    then show ?thesis using Redirect Suc.IH by (simp add: Let_def)
  qed (use guard in \<open>simp_all add: Let_def enter_awaited leave_awaited\<close>)
qed

lemma rerender_awaited:
  "documented_match rm \<Longrightarrow> named_routes rm rp \<Longrightarrow> almost_awaited d \<Longrightarrow> awaited rp (rerender c rm rp d)"
  by (simp add: rerender_def place_awaited)

subsection \<open>Every event\<close>

lemma put_session_served [simp]:
  "screen_served n (screen (put_session s d)) = screen_served n (screen d)"
  "exchanges (put_session s d) = exchanges d" "guard_served (put_session s d) = guard_served d"
  by (simp_all add: put_session_def put_world_def guard_served_def split: screen.split)

lemma awaited_almost: "awaited rp d \<Longrightarrow> almost_awaited d"
  by (simp add: awaited_def almost_awaited_def)

lemma put_session_almost: "awaited rp d \<Longrightarrow> almost_awaited (put_session s d)"
  by (simp add: awaited_def almost_awaited_def)

lemma lookup_done_almost:
  assumes "awaited rp d" and "i < length (lookups d)"
  shows "almost_awaited (lookup_done i r d)"
proof -
  let ?d = "lookup_done i r d"
  have "guard_served ?d"
    using assms in_remove_nth [OF assms(2)]
    by (auto simp: lookup_done_def AuthGuard_checked_def guard_served_def awaited_def Let_def split: option.splits if_splits)
  moreover have "exchanges ?d = exchanges d" "screen_served n (screen ?d) = screen_served n (screen d)" for n
    by (simp_all add: lookup_done_def AuthGuard_checked_def Let_def put_session_def put_world_def
        split: option.split screen.split)
  ultimately show ?thesis
    using assms(1) by (simp add: awaited_def almost_awaited_def)
qed

lemma callback_done_almost:
  assumes "awaited rp d"
  shows "almost_awaited (callback_done r d)"
proof -
  have fields: "location (callback_done r d) \<in> {''/'', ''/login''}" "guard_served (callback_done r d) = guard_served d"
    "exchanges (callback_done r d) = exchanges d - 1"
    by (auto simp: callback_done_def callback_settled_def guard_served_def split: prod.split sum.split option.split)
  have "screen d \<noteq> OnCallback \<Longrightarrow> screen_served (exchanges d) (screen d) \<Longrightarrow> screen_served n (screen (callback_done r d))" for n
    by (cases "screen d")
      (auto simp: callback_done_def put_session_def put_world_def split: prod.split)
  moreover have "screen d = OnCallback \<Longrightarrow> screen (callback_done r d) = OnCallback"
    by (simp add: callback_done_def put_session_def put_world_def split: prod.split)
  ultimately show ?thesis
    using assms fields by (auto simp: awaited_def almost_awaited_def)
qed

lemma dash_step_awaited:
  assumes "documented_match rm" and "named_routes rm rp" and "awaited rp d" and "dash_step c rm rp d e d'"
  shows "awaited rp d'"
proof -
  note rendered = rerender_awaited [OF assms(1,2)]
  have guard: "guard_served d" and screen: "screen_served (exchanges d) (screen d)"
    using assms(3) by (simp_all add: awaited_def)
  have moved: "almost_awaited (d\<lparr>screen := new, dash_world := w, location := u\<rparr>)"
    "almost_awaited (d\<lparr>screen := new, location := u\<rparr>)"
    "awaited rp (d\<lparr>screen := new\<rparr>)"
    if "screen_served (exchanges d) new" "\<And>p. new \<noteq> OnProject p" for new w u
    using guard that by (simp_all add: almost_awaited_def awaited_def guard_served_def)
  from assms(4) show ?thesis
  proof cases
    case (dash_goto u)
    then show ?thesis
      using rendered guard screen by (simp add: almost_awaited_def guard_served_def)
  next
    case (dash_session e)
    then show ?thesis using rendered put_session_almost [OF assms(3)] by simp
  next
    case (dash_response code)
    then show ?thesis using rendered put_session_almost [OF assms(3)] by simp
  next
    case (dash_lookup i r)
    then show ?thesis using rendered lookup_done_almost [OF assms(3)] by simp
  next
    case (dash_callback r)
    then show ?thesis using rendered callback_done_almost [OF assms(3)] by simp
  next
    case (dash_net e w)
    then show ?thesis
      using assms(3) by (auto simp: awaited_def guard_served_def put_world_def split: screen.splits)
  next
    case (dash_project p e p')
    then have "busy_inv p'"
      using screen project_promises.served_step by fastforce
    then show ?thesis
      using dash_project rendered guard by (simp add: almost_awaited_def guard_served_def)
  next
    case (dash_home h a h')
    then have "home.served h'"
      using screen home.served_step by fastforce
    then show ?thesis
      using dash_home rendered moved(2) by simp
  next
    case (dash_home_settle h i r h')
    then have "home.served h'"
      using screen home.served_step by fastforce
    then show ?thesis
      using dash_home_settle moved(3) by simp
  next
    case (dash_team t e t')
    then have "team.served t'"
      using screen team.served_step by fastforce
    then show ?thesis
      using dash_team moved(3) by simp
  next
    case (dash_keys k e k')
    then have "keys.served k'"
      using screen keys.served_step by fastforce
    then show ?thesis
      using dash_keys moved(3) by simp
  qed
qed

lemma started_awaited: "dash_started c rm rp d \<Longrightarrow> named_routes rm rp \<Longrightarrow> awaited rp d"
  by (auto simp: dash_started_def dash_start_def almost_awaited_def guard_served_def intro!: rerender_awaited)

lemma runs_awaited:
  assumes "dash_started c rm rp d0" and "named_routes rm rp" and "runs (dash_step c rm rp) d0 es d"
  shows "awaited rp d"
proof -
  have "documented_match rm" using assms(1) by (simp add: dash_started_def)
  with assms(3) show ?thesis
    using started_awaited [OF assms(1,2)]
    by (induction rule: runs.induct) (blast intro: dash_step_awaited [OF _ assms(2)])+
qed

subsection \<open>The promises of the dashboard settle\<close>

datatype dash_flag =
    CheckingSession
  | SigningIn
  | HomeWaits home_flag
  | ProjectWaits page_flag
  | TeamWaits team_flag
  | KeysWaits keys_flag

fun dash_waiting :: "dash_flag \<Rightarrow> dashboard \<Rightarrow> bool" where
  "dash_waiting CheckingSession d = (screen d = OnSpinner)"
| "dash_waiting SigningIn d = (screen d = OnCallback)"
| "dash_waiting (HomeWaits f) d = (case screen d of OnHome h \<Rightarrow> home_waiting f h | _ \<Rightarrow> False)"
| "dash_waiting (ProjectWaits f) d = (case screen d of OnProject p \<Rightarrow> page_waiting f p | _ \<Rightarrow> False)"
| "dash_waiting (TeamWaits f) d = (case screen d of OnTeam t \<Rightarrow> team_waiting f t | _ \<Rightarrow> False)"
| "dash_waiting (KeysWaits f) d = (case screen d of OnKeys k \<Rightarrow> keys_waiting f k | _ \<Rightarrow> False)"

text \<open>How many settlings a flag may last: the requests its handler sends one after the other.\<close>

fun longest_wait :: "dash_flag \<Rightarrow> nat" where
  "longest_wait CheckingSession = 1"
| "longest_wait SigningIn = 1"
| "longest_wait (HomeWaits f) = (if f = ListSpinning then 2 else 3)"
| "longest_wait (ProjectWaits f) = (if f = Spinning then 1 else 2)"
| "longest_wait (TeamWaits f) = (if f = TeamSpinning then 2 else 3)"
| "longest_wait (KeysWaits f) = 1"

text \<open>The promises in flight, and which one an event settles, with whatever answer.\<close>

datatype dash_promise = Lookup nat | Exchange | Request nat

fun dash_settling :: "dash_event \<Rightarrow> dash_promise option" where
  "dash_settling (LookupDone i r) = Some (Lookup i)"
| "dash_settling (CallbackDone r) = Some Exchange"
| "dash_settling (HomeSettles i r) = Some (Request i)"
| "dash_settling (ProjectDoes (Settle i r)) = Some (Request i)"
| "dash_settling (TeamDoes (TeamSettle i r)) = Some (Request i)"
| "dash_settling (KeysDoes (KeysSettle i r)) = Some (Request i)"
| "dash_settling e = None"

fun_cases dash_settlingE: "dash_settling e = Some (Request i)" "dash_settling e = Some (Lookup i)"
  "dash_settling e = Some Exchange"

fun_cases team_settlingE: "team_settling e = Some (i, r)"
fun_cases keys_settlingE: "keys_settling e = Some (i, r)"

definition dash_settles ::
  "ws_config \<Rightarrow> (string list \<Rightarrow> string \<Rightarrow> string option) \<Rightarrow> (string \<Rightarrow> string option) \<Rightarrow>
     dashboard \<Rightarrow> dash_promise \<Rightarrow> dashboard \<Rightarrow> bool" where
  "dash_settles c rm rp d j d' \<longleftrightarrow> (\<exists>e. dash_settling e = Some j \<and> dash_step c rm rp d e d')"

lemma dash_settlesI:
  "dash_step c rm rp d e d' \<Longrightarrow> dash_settling e = Some j \<Longrightarrow> \<exists>d'. dash_settles c rm rp d j d'"
  by (auto simp: dash_settles_def)

lemma dash_settles_request:
  assumes "dash_settles c rm rp d (Request i) d'"
  obtains
    h h' r where "screen d = OnHome h" "home_step h (HomeSettle i (session d) r) h'" "d' = d\<lparr>screen := OnHome h'\<rparr>"
  | p p' r where "screen d = OnProject p" "page_step c p (Settle i r) p'"
      "d' = rerender c rm rp (d\<lparr>screen := OnProject p', dash_world := net p',
                                location := follow (navigated p) (navigated p') (location d)\<rparr>)"
  | t t' r where "screen d = OnTeam t" "team_step t (TeamSettle i r) t'" "d' = d\<lparr>screen := OnTeam t'\<rparr>"
  | k k' r where "screen d = OnKeys k" "keys_step k (KeysSettle i r) k'" "d' = d\<lparr>screen := OnKeys k'\<rparr>"
proof -
  obtain e where e: "dash_settling e = Some (Request i)" and step: "dash_step c rm rp d e d'"
    using assms by (auto simp: dash_settles_def)
  from step e show ?thesis
    by cases (auto elim!: dash_settlingE intro: that)
qed

lemma home_lifted:
  assumes "screen d = OnHome h" and "down_within n (settles home_settling home_step) (home_waiting f) h"
  shows "down_within n (dash_settles c rm rp) (dash_waiting (HomeWaits f)) d"
proof (rule down_within_simulated [where R = "\<lambda>h d. screen d = OnHome h" and k = Request, OF _ _ _ assms])
  fix h i h' and d :: dashboard assume d: "screen d = OnHome h" and "settles home_settling home_step h i h'"
  then obtain r where "i < length (home_pending h)" "home_answers (home_pending h ! i) r"
    by (auto simp: home.settles_iff)
  then obtain h2 where "home_step h (HomeSettle i (session d) r) h2"
    by (auto simp: home_step_settle)
  with d show "\<exists>d'. dash_settles c rm rp d (Request i) d'"
    by (intro dash_settlesI [OF dash_home_settle]) simp_all
next
  fix h i and d d' :: dashboard assume "screen d = OnHome h" and "dash_settles c rm rp d (Request i) d'"
  then show "\<exists>h'. settles home_settling home_step h i h' \<and> screen d' = OnHome h'"
    by (elim dash_settles_request) (auto simp: settles_def intro!: exI [of _ "HomeSettle i a b" for a b])
qed simp

lemma home_down:
  assumes "screen d = OnHome h" and "home.served h"
  shows "down_within (longest_wait (HomeWaits f)) (dash_settles c rm rp) (dash_waiting (HomeWaits f)) d"
proof -
  have "home_serves p f = Some m \<Longrightarrow> m < longest_wait (HomeWaits f)" for p m
    by (cases p) (auto split: if_splits)
  from home_lifted [OF assms(1) home.served_clears [OF assms(2) this]] show ?thesis .
qed

lemma team_lifted:
  assumes "screen d = OnTeam t" and "down_within n (settles team_settling team_step) (team_waiting f) t"
  shows "down_within n (dash_settles c rm rp) (dash_waiting (TeamWaits f)) d"
proof (rule down_within_simulated [where R = "\<lambda>t d. screen d = OnTeam t" and k = Request, OF _ _ _ assms])
  fix t i t' and d :: dashboard assume d: "screen d = OnTeam t" and "settles team_settling team_step t i t'"
  then obtain r where "team_step t (TeamSettle i r) t'"
    by (auto simp: settles_def elim!: team_settlingE)
  from dash_team [OF d this] show "\<exists>d'. dash_settles c rm rp d (Request i) d'"
    by (rule dash_settlesI) simp
next
  fix t i and d d' :: dashboard assume "screen d = OnTeam t" and "dash_settles c rm rp d (Request i) d'"
  then show "\<exists>t'. settles team_settling team_step t i t' \<and> screen d' = OnTeam t'"
    by (elim dash_settles_request) (auto simp: settles_def intro!: exI [of _ "TeamSettle i a" for a])
qed simp

lemma team_down:
  assumes "screen d = OnTeam t" and "team.served t"
  shows "down_within (longest_wait (TeamWaits f)) (dash_settles c rm rp) (dash_waiting (TeamWaits f)) d"
proof -
  have "team_serves p f = Some m \<Longrightarrow> m < longest_wait (TeamWaits f)" for p m
    by (cases p) (auto split: if_splits)
  from team_lifted [OF assms(1) team.served_clears [OF assms(2) this]] show ?thesis .
qed

lemma keys_lifted:
  assumes "screen d = OnKeys k" and "down_within n (settles keys_settling keys_step) (keys_waiting f) k"
  shows "down_within n (dash_settles c rm rp) (dash_waiting (KeysWaits f)) d"
proof (rule down_within_simulated [where R = "\<lambda>k d. screen d = OnKeys k" and k = Request, OF _ _ _ assms])
  fix t i t' and d :: dashboard assume d: "screen d = OnKeys t" and "settles keys_settling keys_step t i t'"
  then obtain r where "keys_step t (KeysSettle i r) t'"
    by (auto simp: settles_def elim!: keys_settlingE)
  from dash_keys [OF d this] show "\<exists>d'. dash_settles c rm rp d (Request i) d'"
    by (rule dash_settlesI) simp
next
  fix t i and d d' :: dashboard assume "screen d = OnKeys t" and "dash_settles c rm rp d (Request i) d'"
  then show "\<exists>t'. settles keys_settling keys_step t i t' \<and> screen d' = OnKeys t'"
    by (elim dash_settles_request) (auto simp: settles_def intro!: exI [of _ "KeysSettle i a" for a])
qed simp

lemma keys_down:
  assumes "screen d = OnKeys k" and "keys.served k"
  shows "down_within (longest_wait (KeysWaits f)) (dash_settles c rm rp) (dash_waiting (KeysWaits f)) d"
proof -
  have "keys_serves p f = Some m \<Longrightarrow> m < longest_wait (KeysWaits f)" for p m
    by (cases p) (auto split: if_splits)
  from keys_lifted [OF assms(1) keys.served_clears [OF assms(2) this]] show ?thesis .
qed

text \<open>The project page stays mounted, under its name, when a promise of its own settles.\<close>

lemma store_auth_subscribe_all [simp]: "store_auth (subscribe_all c ids w) = store_auth w"
  by (induction ids arbitrary: w) (simp_all add: subscribe_all_def subscribe_def Let_def)

lemma set_devices_session [simp]:
  "store_auth (net (set_devices c ds s)) = store_auth (net s)" "navigated (set_devices c ds s) = navigated s"
  by (simp_all add: set_devices_def feed_effect_def feed_cleanup_def request_frame_def cancel_frame_def Let_def)

lemma settled_session:
  "store_auth (net (settled c p r s)) = store_auth (net s)" "navigated (settled c p r s) = navigated s"
  by (cases p; simp add: settled_def devices_settled_def provision_settled_def loadDevices_def Let_def split: sum.split)+

lemma rerender_project_kept:
  assumes "routed rm d" and "screen d = OnProject p" and "store_auth (net p') = session d"
    and "page_name p' = rp (location d)"
  shows "screen (rerender c rm rp (d\<lparr>screen := OnProject p', dash_world := net p'\<rparr>)) = OnProject p'"
proof -
  let ?d = "d\<lparr>screen := OnProject p', dash_world := net p'\<rparr>"
  have kept: "place_guard rm ?d = ?d"
    using assms(1) by (cases d; cases "guard d") (auto simp: routed_def guarded_def place_guard_def)
  have "App rm (is_checked ?d) (session ?d) (location ?d) = Rendered ProjectPage"
    using assms by (simp add: routed_def is_checked_def)
  then show ?thesis
    unfolding rerender_def numeral_3_eq_3 using kept assms(4) by (simp add: Let_def)
qed

definition on_project :: "ws_config \<Rightarrow> (string list \<Rightarrow> string \<Rightarrow> string option) \<Rightarrow> (string \<Rightarrow> string option) \<Rightarrow>
    page_world \<Rightarrow> dashboard \<Rightarrow> bool" where
  "on_project c rm rp p d \<longleftrightarrow> screen d = OnProject p \<and> dash_inv c rm d \<and> awaited rp d"

lemma project_settled:
  assumes rm: "documented_match rm" and named: "named_routes rm rp" and on: "on_project c rm rp p d"
    and settle: "dash_settles c rm rp d (Request i) d'"
  shows "\<exists>p'. settles page_settling (page_step c) p i p' \<and> on_project c rm rp p' d'"
proof -
  have d: "screen d = OnProject p" "dash_inv c rm d" "awaited rp d"
    using on by (simp_all add: on_project_def)
  obtain p' r where step: "page_step c p (Settle i r) p'"
    and d': "d' = rerender c rm rp (d\<lparr>screen := OnProject p', dash_world := net p',
        location := follow (navigated p) (navigated p') (location d)\<rparr>)"
    using settle d(1) by (elim dash_settles_request) auto
  obtain e where "dash_step c rm rp d e d'"
    using settle by (auto simp: dash_settles_def)
  then have inv: "dash_inv c rm d'" "awaited rp d'"
    using dash_step_inv [OF rm d(2)] dash_step_awaited [OF rm named d(3)] by blast+
  have p': "store_auth (net p') = store_auth (net p)" "navigated p' = navigated p" "page_name p' = page_name p"
    using step by (auto simp: page_step_settle settled_session settled_promises)
  have "d' = rerender c rm rp (d\<lparr>screen := OnProject p', dash_world := net p'\<rparr>)"
    using d' p'(2) by (simp add: follow_def)
  moreover have "net p = dash_world d" "routed rm d" "page_name p = rp (location d)"
    using d by (simp_all add: dash_inv_def dash_world_inv_def awaited_def)
  ultimately have "screen d' = OnProject p'"
    using rerender_project_kept [of rm d p p' rp c] d(1) p' by simp
  moreover have "settles page_settling (page_step c) p i p'"
    using step unfolding settles_def by (intro exI [of _ "Settle i r"]) auto
  ultimately show ?thesis
    using inv by (auto simp: on_project_def)
qed

lemma project_lifted:
  assumes rm: "documented_match rm" and named: "named_routes rm rp" and "on_project c rm rp p d"
    and "down_within n (settles page_settling (page_step c)) (page_waiting f) p"
  shows "down_within n (dash_settles c rm rp) (dash_waiting (ProjectWaits f)) d"
proof (rule down_within_simulated [where R = "on_project c rm rp" and k = Request, OF _ _ _ assms(3,4)])
  fix p i p' and d :: dashboard
  assume "on_project c rm rp p d" and "settles page_settling (page_step c) p i p'"
  then obtain r where d: "screen d = OnProject p" and step: "page_step c p (Settle i r) p'"
    using page_settlingE unfolding settles_def on_project_def by blast
  have "page_own_event (Settle i r)" by simp
  from dash_project [OF d this step] show "\<exists>d'. dash_settles c rm rp d (Request i) d'"
    by (rule dash_settlesI) simp
qed (use project_settled [OF rm named] in \<open>simp_all add: on_project_def\<close>)

lemma project_down:
  assumes "documented_match rm" and "named_routes rm rp" and "dash_inv c rm d" and "awaited rp d"
    and "screen d = OnProject p"
  shows "down_within (longest_wait (ProjectWaits f)) (dash_settles c rm rp) (dash_waiting (ProjectWaits f)) d"
proof -
  have "busy_inv p" and on: "on_project c rm rp p d"
    using assms by (simp_all add: awaited_def on_project_def)
  moreover have "page_serves q f = Some m \<Longrightarrow> m < longest_wait (ProjectWaits f)" for q m
    by (cases "(q, f)" rule: page_serves.cases) (auto split: if_splits)
  ultimately have "down_within (longest_wait (ProjectWaits f)) (settles page_settling (page_step c)) (page_waiting f) p"
    by (intro project_promises.served_clears)
  from project_lifted [OF assms(1,2) on this] show ?thesis .
qed

text \<open>The waiting screens of the router.\<close>

lemma dash_settles_exchange:
  assumes "dash_settles c rm rp d Exchange d'"
  shows "\<exists>r. d' = rerender c rm rp (callback_done r d)"
proof -
  obtain e where e: "dash_settling e = Some Exchange" and step: "dash_step c rm rp d e d'"
    using assms by (auto simp: dash_settles_def)
  from step e show ?thesis
    by cases (auto elim!: dash_settlingE)
qed

lemma lookup_ends_spinner:
  assumes "documented_match rm" and "dash_inv c rm d" and "screen d = OnSpinner" and "awaited rp d"
  shows "down_within (Suc 0) (dash_settles c rm rp) (dash_waiting CheckingSession) d"
proof -
  have world: "dash_world_inv c d" and routed: "routed rm d"
    using assms(2) by (simp_all add: dash_inv_def)
  have waiting: "guarded rm (location d) \<and> \<not> is_checked d"
    using routed assms(3) chain_cases [of rm "location d"]
    by (auto simp: routed_def App_chain guarded_def AuthGuard_def AdminGuard_cases split: if_splits sum.splits)
  then obtain k where k: "guard d = Some (k, False)"
    using routed by (auto simp: routed_def is_checked_def split: option.splits)
  then obtain i where i: "i < length (lookups d)" "lookups d ! i = k"
    using assms(4) by (auto simp: awaited_def guard_served_def in_set_conv_nth)
  have "screen d' \<noteq> OnSpinner" if settles: "dash_settles c rm rp d (Lookup i) d'" for d'
  proof -
    obtain r where step: "dash_step c rm rp d (LookupDone i r) d'"
      using settles by (auto simp: dash_settles_def elim!: dash_settlingE)
    have "render_chain True (session d') (chain_of rm (location d)) \<noteq> Spinner"
      using guarded_App [of rm "location d" True "session d'"] render_tail [of rm "location d" True "session d'"] waiting
      by (auto simp: App_chain AuthGuard_def split: if_splits)
    moreover note lookup_leads [OF assms(1,2) conjunct1 [OF waiting] k [folded i(2)] step, THEN conjunct2]
    ultimately have "screen_outcome (screen d') \<noteq> Spinner"
      by (auto split: if_splits outcome.splits)
    then show ?thesis by auto
  qed
  moreover have "\<exists>d'. dash_settles c rm rp d (Lookup i) d'"
    using dash_lookup [OF i(1), of c rm rp "Inr None"] by (rule dash_settlesI) simp
  ultimately show ?thesis
    by (intro down_within_one) simp_all
qed

lemma home_or_login_no_callback:
  assumes "documented_match rm" and "dash_world_inv c d" and "location d \<in> {''/'', ''/login''}"
  shows "screen (rerender c rm rp d) \<noteq> OnCallback"
proof (cases "location d = ''/login''")
  case True
  then show ?thesis
    using placed_at_login [OF assms(1,2)] unfolding rerender_def numeral_3_eq_3 by simp
next
  case False
  then have home: "location d = ''/''" using assms(3) by simp
  show ?thesis
  proof (cases "App rm (is_checked (place_guard rm d)) (session d) (location d) = Redirect ''/login''")
    case True
    show ?thesis
      unfolding rerender_def numeral_3_eq_3 place_redirect [OF True]
      using placed_at_login [OF assms(1) redirected_inv [OF assms(2)]] by simp
  next
    case False
    then have "\<forall>u. App rm (is_checked (place_guard rm d)) (session d) (location d) \<noteq> Redirect u"
      and not: "App rm (is_checked (place_guard rm d)) (session d) (location d) \<noteq> Rendered AuthCallbackPage"
      by (auto simp: home App_home [OF assms(1)] AuthGuard_def split: if_splits)
    from place_entered [OF assms(2) this(1), of rp "Suc (Suc 0)"] not show ?thesis
      unfolding rerender_def numeral_3_eq_3 by (metis screen_outcome.simps(2))
  qed
qed

lemma exchange_ends_callback:
  assumes "documented_match rm" and "dash_inv c rm d" and "screen d = OnCallback" and "awaited rp d"
  shows "down_within (Suc 0) (dash_settles c rm rp) (dash_waiting SigningIn) d"
proof -
  have "0 < exchanges d"
    using assms(3,4) by (simp add: awaited_def)
  from dash_callback [OF this, of c rm rp "Inl TypeError"]
  have "\<exists>d'. dash_settles c rm rp d Exchange d'"
    by (rule dash_settlesI) simp
  moreover have "screen d' \<noteq> OnCallback" if settles: "dash_settles c rm rp d Exchange d'" for d'
  proof -
    obtain r where d': "d' = rerender c rm rp (callback_done r d)"
      using dash_settles_exchange [OF settles] by blast
    moreover have "location (callback_done r d) \<in> {''/'', ''/login''}"
      by (auto simp: callback_done_def callback_settled_def split: sum.split)
    moreover have "dash_world_inv c (callback_done r d)"
      using assms(2) callback_done_inv by (simp add: dash_inv_def)
    ultimately show ?thesis
      using home_or_login_no_callback [OF assms(1)] by blast
  qed
  ultimately show ?thesis
    by (intro down_within_one) simp_all
qed

text \<open>
  C5: nothing on screen waits forever: in every state of the dashboard each thing that may wait,
  the spinner of the session check, the callback page, the spinners of the four pages and
  their disabled buttons, is over after at most as many settlings of promises that are then in
  flight as its handler sends requests one after the other (one to three), whatever they
  settle with.
\<close>

theorem nothing_waits_forever:
  assumes "dash_started c rm rp d0" and "named_routes rm rp" and "runs (dash_step c rm rp) d0 es d"
  shows "down_within (longest_wait f) (dash_settles c rm rp) (dash_waiting f) d"
proof -
  have rm: "documented_match rm" and inv: "dash_inv c rm d"
    using dash.inv_runs [OF assms(1,3)] by simp_all
  have awaited: "awaited rp d"
    using runs_awaited [OF assms] .
  then have served: "screen_served (exchanges d) (screen d)"
    by (simp add: awaited_def)
  show ?thesis
  proof (cases "dash_waiting f d")
    case True
    show ?thesis
    proof (cases f)
      case CheckingSession
      with True show ?thesis using lookup_ends_spinner [OF rm inv _ awaited] by simp
    next
      case SigningIn
      with True show ?thesis using exchange_ends_callback [OF rm inv _ awaited] by simp
    next
      case (HomeWaits g)
      with True obtain h where "screen d = OnHome h" by (auto split: screen.splits)
      with served show ?thesis unfolding HomeWaits by (intro home_down) simp_all
    next
      case (ProjectWaits g)
      with True obtain p where "screen d = OnProject p" by (auto split: screen.splits)
      then show ?thesis unfolding ProjectWaits by (rule project_down [OF rm assms(2) inv awaited])
    next
      case (TeamWaits g)
      with True obtain t where "screen d = OnTeam t" by (auto split: screen.splits)
      with served show ?thesis unfolding TeamWaits by (intro team_down) simp_all
    next
      case (KeysWaits g)
      with True obtain k where "screen d = OnKeys k" by (auto split: screen.splits)
      with served show ?thesis unfolding KeysWaits by (intro keys_down) simp_all
    qed
  qed (rule down_within_down)
qed

text \<open>A project opened with the session still to be looked up.\<close>

lemma demo_named: "named_routes demo_match demo_param"
  by (auto simp: named_routes_def demo_match_def demo_param_def exact_match_def static_pattern_def truthy_str_def
      split: if_splits)

theorem nothing_waits_forever_witness:
  "screen (dash_start demo_config demo_match demo_param ''/projects/fleet'') = OnSpinner \<and>
   down_within 1 (dash_settles demo_config demo_match demo_param) (dash_waiting CheckingSession)
     (dash_start demo_config demo_match demo_param ''/projects/fleet'')"
proof -
  have "dash_started demo_config demo_match demo_param (dash_start demo_config demo_match demo_param ''/projects/fleet'')"
    using demo_match_documented by (auto simp: dash_started_def)
  moreover have "chain_of demo_match ''/projects/fleet'' = [AuthGuardElement, Page ProjectPage]"
    by (simp add: chain_of_def demo_match_def route_table_eq)
  then have "screen (dash_start demo_config demo_match demo_param ''/projects/fleet'') = OnSpinner"
    by (simp add: dash_start_def rerender_def numeral_3_eq_3 Let_def place_guard_def App_chain AuthGuard_def
        is_checked_def enter_def)
  ultimately show ?thesis
    using nothing_waits_forever [OF _ demo_named runs_Nil, of _ _ CheckingSession] by simp
qed

end
