(* ===== verification/DevServer.thy ===== *)
theory DevServer
  imports ApiClient
begin

section \<open>The configuration of the development server and the bundle (server/dashboard/vite.config.ts)\<close>

text \<open>
  The proxy rules of the development server, with the function each uses to rewrite a path, and
  the division of the libraries into chunks.  What Vite does with them is Vite's; the facts
  here are about the configuration itself: no path falls under two rules, a rule strips its
  prefix and nothing else, and its target is the default address of the service in env.ts.
\<close>

record proxy_rule =
  proxy_path :: string
  proxy_target :: string
  changeOrigin :: bool

definition dev_port :: nat where
  "dev_port = 5173"

definition proxy_rules :: "proxy_rule list" where
  "proxy_rules =
     [\<lparr>proxy_path = ''/api/fleet'', proxy_target = ''http://localhost:8080'', changeOrigin = True\<rparr>,
      \<lparr>proxy_path = ''/api/query'', proxy_target = ''http://localhost:8081'', changeOrigin = True\<rparr>,
      \<lparr>proxy_path = ''/api/command'', proxy_target = ''http://localhost:8082'', changeOrigin = True\<rparr>,
      \<lparr>proxy_path = ''/api/apikeys'', proxy_target = ''http://localhost:8083'', changeOrigin = True\<rparr>]"

text \<open>\<open>p.replace(/^prefix/, '')\<close>\<close>

definition rewrite :: "proxy_rule \<Rightarrow> string \<Rightarrow> string" where
  "rewrite r p = (if starts_with p (proxy_path r) then drop (length (proxy_path r)) p else p)"

definition manualChunks :: "(string \<times> string list) list" where
  "manualChunks =
     [(''vendor-react'', [''react'', ''react-dom'', ''react-router-dom'']),
      (''vendor-charts'', [''echarts'', ''echarts-for-react'']),
      (''vendor-maps'', [''leaflet'', ''react-leaflet'']),
      (''vendor-auth'', [''oidc-client-ts''])]"

text \<open>
  A path falls under at most one rule; below the prefix of a rule the rest of the path is what
  reaches the target; the targets are the defaults of the environment; and a library belongs to
  one chunk.
\<close>

lemma rewrite_strips:
  "rewrite r (proxy_path r @ rest) = rest" "\<not> starts_with p (proxy_path r) \<Longrightarrow> rewrite r p = p"
  by (simp_all add: rewrite_def starts_with_def)

lemma starts_with_nth: "starts_with p q \<Longrightarrow> i < length q \<Longrightarrow> take (length q) p ! i = q ! i"
  by (simp add: starts_with_def)

theorem one_rule_per_path:
  assumes "r1 \<in> set proxy_rules" and "r2 \<in> set proxy_rules"
    and "starts_with p (proxy_path r1)" and "starts_with p (proxy_path r2)"
  shows "r1 = r2"
proof -
  have "p ! 5 = proxy_path r ! 5" if "r \<in> set proxy_rules" "starts_with p (proxy_path r)" for r
  proof -
    have "5 < length (proxy_path r)"
      using that(1) by (auto simp: proxy_rules_def)
    then show ?thesis
      using starts_with_nth [OF that(2), of 5] by simp
  qed
  then have "proxy_path r1 ! 5 = proxy_path r2 ! 5"
    using assms by metis
  then show ?thesis
    using assms(1,2) by (auto simp: proxy_rules_def)
qed

theorem proxy_targets_are_defaults:
  "map proxy_target proxy_rules =
     (let env = dashboard_env \<lparr>VITE_KEYCLOAK_URL = None, VITE_KEYCLOAK_REALM = None, VITE_KEYCLOAK_CLIENT_ID = None,
        VITE_FLEET_API_URL = None, VITE_QUERY_API_URL = None, VITE_COMMAND_API_URL = None, VITE_APIKEY_URL = None,
        VITE_WS_GATEWAY_URL = None\<rparr>
      in [fleetApiUrl env, queryApiUrl env, commandApiUrl env, apikeyUrl env])"
  by (simp add: proxy_rules_def dashboard_env_def or_default_def)

theorem chunks_are_disjoint: "distinct (concat (map snd manualChunks))"
  by (simp add: manualChunks_def)

end
