(* ===== verification/Spec2Isabelle.thy ===== *)
theory Spec2Isabelle
  imports AlertsEndToEnd DashboardWaiting DevServer DashboardView Promises TelemetryStore AlertStore RoleGuard WsBehaviour NavSidebar TopBar ApiKeysPage
begin

text \<open>
  A verification development for the operator dashboard of SystemScale, the TypeScript program
  under server/dashboard/src.  Paths below are relative to that directory.

  The program.  Operators sign in with an OIDC provider; the session store keeps their token and
  claims.  A router with two guards decides which page they see.  The pages load projects,
  devices, members and keys over HTTP.  A WebSocket manager keeps one connection to the gateway
  for all subscribed vehicles, reconnects with back-off, and routes each frame it receives into
  the telemetry store (a circular buffer per vehicle and a generation counter) or the alert
  store.  The project page subscribes to its devices, and an animation loop copies the newest
  frames from the store into its feed whenever the generation changed.

  Theories and what they model.
    Prelude: runs of step relations, the locales for components with state, list lemmas.
    Promises: the locale of pages whose flags wait for promises that settle in any order, and
      what holds of a page inside a larger machine.
    Js_Numbers: doubles, as rationals with their rounding.  NumberText: numbers as text, with the
      grammar of JSON, String(x) and toFixed.
    Js_Values: the values and library functions of JavaScript the code uses (JSON, property
      access, Set, Map, strings, stable sorting, exceptions as the left of a sum).
    CircularBuffer: ws/CircularBuffer.ts.  TelemetryStore: store/telemetryStore.ts.
    AlertStore: store/alertStore.ts.  AuthStore: store/authStore.ts.
    RoleGuard: components/RoleGuard.tsx.
    WsManager: ws/WsManager.ts with the browser's sockets and timers as a step relation;
    WsInvariant: its invariant; WsBehaviour: its properties.
    JsonText: JSON.parse and JSON.stringify, which WsManager calls.
    ApiTypes: types of the services.  FrameTypes: types/telemetry.ts.  ApiClient: env.ts, api/*.ts and the settings of authStore.ts.
    Jsx: elements with handlers, event propagation, and components/Modal/Modal.tsx.
    App: App.tsx, pages/AuthCallback, pages/Login.  NavSidebar: components/NavSidebar.
    TopBar: components/TopBar, with decodeURIComponent.
    ProjectFeed, ProjectPage, ProjectBehaviour, ProjectView: pages/Project (the merge of frames,
      the state and its steps, the invariant and properties, the elements).
    HomePage: pages/Home.  TeamPage: pages/Team.  SetupGuide, ApiKeysPage: pages/ApiKeys.
    GatewayText: the texts that cross the socket, written and read, and what becomes of their numbers.
    Dashboard: App.tsx with everything it mounts, one machine of router, guards, session,
      pages, stores and socket; DashboardBehaviour: its invariant and where changes of the
      session lead; DashboardWaiting: its promises; DashboardView: the whole tree of elements;
      LiveDashboard: facts of the project page carried over to the dashboard.
    AlertsEndToEnd: from the text of the gateway to the alerts tab.
    DevServer: vite.config.ts.
    This theory: from the text of the gateway through socket, store and loop to the texts of
      the table.

  How the model reads.  A class or a component's state is a record whose fields are the code's
  fields, state variables and references; each method, handler, effect and promise continuation
  is one definition that maps a state to the next.  An async function is split at its awaits:
  one definition up to the request, one for the rest, which takes how the promise ended as an
  argument; the promises in flight are part of a page's state and settle in any order, each in an
  event that carries the answer.  Exceptions and rejections are the left of a sum.  Calls into the browser and the
  identity provider are recorded in the state; what these send back is an event chosen by the
  environment.  A view is a tree of elements whose handlers name the actions of the page.

  What the lemmas show.  The circular buffer refines the last items pushed, and the telemetry
  store a map of such logs (the locales bounded_log and log_family, interpreted on the code's
  model).  The session store refines one optional session.  The WebSocket manager keeps ws_inv in
  every reachable state, from which follow one live connection, a truthful status, recovery from
  every state within three events, the back-off schedule, silence without subscriptions and the
  delivery of frames.  The project page keeps page_inv: its subscriptions are its devices, its
  loop is one callback, its spinners have a promise in flight.  Every page interprets promise_page, so
  whatever waits (a spinner, a disabled button) has a promise in flight that ends it; by
  down_within_simulated this holds in the dashboard too, whose own waiting screens have one as well.  The
  dashboard keeps dash_inv: the mounted page is the one the router and the guards answer for,
  and only a mounted project page is subscribed; so without a token nothing of the product is
  on screen and the socket is silent, a 401 ends everything, and roles see their actions only.
  The locale page_property carries an invariant of the project page through mounting, renaming
  and unmounting to the dashboard: with frames of the declared types no handler throws, and a
  frame written as text ends up in the elements the project page returns, and in every tree that
  renders.  A number the language prints is read back as it
  is (17 digits are enough for every double), toFixed is off by at most half a unit of its last
  digit, and the table of a project tells of its frames accordingly; JSON text is read back as
  the value written, but a time in nanoseconds is stored as a multiple of 256.
  The guards, the router table and the sidebar agree.  The forms send what they show.  Several theorems state faults of the code
  exactly: the selector of the project page makes a new array at every call, on which the
  stores' hook of the locked version fails, an unknown role passes the role guard, a dialog that
  is open offers its submission to whoever sees it, a time that cannot be converted ends the
  loop of the feed, a frame that is the JSON null or a request for
  assistance whose reason cannot become a text makes the message handler throw, a null coordinate or a malformed percent escape makes rendering throw, a late
  list of devices replaces a newer one, Enter submits a device twice, an absent role is saved as
  the empty string, a late success of a dismissed dialog closes the next one.

  Parameters.  Code that is not under src/ enters as an argument: the JSON parser of the
  socket's configuration (with_json makes it json_parse of JsonText), how the gateway writes
  numbers (read_as says what they are read as, which whole_numbers shows for whole_text),
  the local times and dates the browser prints (engine), what the hook of the stores does with a
  selector that makes a new value at every call (hook, which documented_hook says raises in
  zustand 5, while earlier versions return the value), the matching of routes (route_match
  with the laws documented_match, which exact_match and demo_match satisfy, route_param for the
  name in a path, with the law named_routes that it is not empty), whether a link is active, the answers of the
  services, the users the identity provider delivers and the fields of the validated form.

  Bounds.  Redirects are followed with fuel 3, which is enough by redirects_settle and, for the
  dashboard's place, by rerender_inv; json_parse gives its recursion 2 * length + 2, and by
  json_parse_fuel more never changes the answer; rounding doubles a small number at most 1074
  times, the exponent of the smallest double, and seventeen_digits bounds the search of the
  shortest decimal; recovery takes
  at most three events by always_recovers; the capacities 1000, 200 and 500 are the code's.

  Choices of the model.  Strings are lists of ASCII code units, a character outside ASCII in a
  text of the program is written as its HTML entity, and only titles decoded from the address are
  lists of UTF-16 code units.  Numbers are the rationals that doubles denote: what is read is
  rounded, a literal that overflows is refused where the language has an infinity, and the sign
  of zero is left out.  The difference of two timestamps is exact, which by newest_first_rounded
  sorts like the rounded one.  An array comparator
  that is not a consistent order leaves the result of sorting to the engine; the properties of
  the feed assume numeric timestamps.  React runs the clean-up of an effect and the next effect
  after a state change that concerns it; development mode, which runs effects twice, is modelled
  for the callback page and the project page.  JSON strings with escapes above ASCII are not
  read (json_parse answers None), and a repeated key replaces the earlier one in place.  An
  object with a property named toString of its own raises a TypeError when it is converted
  (convertible, template_text, primitive), in the comparator of the feed too.  When rendering
  raises, React takes the tree off the screen, with the clean-ups of unmounting; the machine of
  the dashboard allows that but does not enforce it, and goes on as if the page stayed mounted.
  What follows a question mark or a number sign in a target of navigate is no part of the path
  (pathname).  A vehicle identifier that is an array or an object is a key of its own in the map
  of buffers, which no later frame can equal, so its buffer is left out (push_frame).  The
  gateway's address is one the WebSocket constructor accepts.

  Not modelled: style sheets, inline styles and drawings, the mounting of the root in main.tsx
  (its strict mode is) and the re-export in hooks, the plugins of the bundler and the options
  of the linter, the generated report of a browser test run, ky, react-hook-form, oidc-client-ts and
  react-router themselves, and the parts of the repository in other languages (agent, relay,
  services, client libraries, infrastructure).
\<close>

section \<open>From the socket to the rows of the feed\<close>

text \<open>The page never knows a later generation of the store than the store itself.\<close>

definition gen_inv :: "page_world \<Rightarrow> bool" where
  "gen_inv s \<longleftrightarrow> genRef s \<le> generation (store_telemetry (net s))"

lemma flush_generation: "generation s \<le> generation (flush s)"
  by (simp add: flush_def Let_def)

lemma flushes_generation: "generation s \<le> generation ((flush ^^ n) s)"
  by (induction n) (auto intro: order_trans [OF _ flush_generation])

lemma telemetry_step_generation: "generation s \<le> generation (telemetry_step s e)"
  using flushes_generation [of "s\<lparr>rafQueue := 0\<rparr>" "rafQueue s"]
  by (cases e) (simp_all add: telemetry_reset_def animation_frame_def)

lemma telemetry_steps_generation: "generation s \<le> generation (foldl telemetry_step s es)"
  by (induction es arbitrary: s) (auto intro: order_trans [OF telemetry_step_generation])

lemma page_step_gen:
  assumes "feed_inv c s" and "gen_inv s" and "page_step c s e s'"
  shows "gen_inv s'"
  using assms(3)
proof (rule page_stepE)
  fix e w assume "s' = s\<lparr>net := w\<rparr>" and step: "ws_step c (net s) e w"
  moreover have "ws_inv (net s)"
    using assms(1) by (auto simp: feed_inv_def intro: reachable_inv)
  ultimately show "gen_inv s'"
    using stores_step [OF _ step] assms(2) telemetry_steps_generation
    by (auto simp: gen_inv_def intro: order_trans)
next
  fix h ids assume "s' = tick ids (cancel_frame h s)"
  then show "gen_inv s'"
    using assms(2) by (simp add: gen_inv_def tick_def request_frame_def cancel_frame_def Let_def split: sum.split)
next
  fix a assume "s' = project_dispatch a s"
  then show "gen_inv s'"
    using assms(2) by (simp add: gen_inv_def)
next
  fix n assume "s' = loadDevices (Some n) False (s\<lparr>page_name := Some n\<rparr>)"
  then show "gen_inv s'"
    using assms(2) by (simp add: gen_inv_def loadDevices_def)
next
  fix i r assume "s' = settled c (pending s ! i) r (s\<lparr>pending := remove_nth i (pending s)\<rparr>)"
  then show "gen_inv s'"
    using assms(2) by (simp add: gen_inv_def)
qed

lemma page_runs_gen:
  "runs (page_step c) s es s' \<Longrightarrow> feed_inv c s \<Longrightarrow> gen_inv s \<Longrightarrow> gen_inv s'"
  by (induction rule: runs.induct) (blast intro: page_step_gen page_step_feed)+

lemma page_start_gen: "page_start c s \<Longrightarrow> gen_inv s"
  by (auto simp: page_start_def page_mount_def gen_inv_def loadDevices_def)

text \<open>A frame that is pushed and flushed raises the generation and is the last one held.\<close>

lemma pushed_and_flushed:
  assumes "store = foldl telemetry_step telemetry_init evs"
  shows "generation (animation_frame (telemetry_push (Some (JStr d)) f store)) = Suc (generation store) \<and>
         f \<in> set (device_frames (animation_frame (telemetry_push (Some (JStr d)) f store)) d)"
proof -
  let ?pushed = "telemetry_push (Some (JStr d)) f store"
  have "telemetry_inv store"
    using telemetry.inv_fold [of evs] by (simp add: assms)
  then have "telemetry_inv ?pushed"
    by (rule push_inv)
  then have "generation (animation_frame ?pushed) = Suc (generation store)"
    by (subst frame_pending) (auto simp: telemetry_inv_def split: if_splits)
  moreover have "animation_frame ?pushed
      = foldl telemetry_step telemetry_init (evs @ [Push (Some (JStr d)) f, Frame])"
    by (simp add: assms)
  moreover have "f \<in> set (logged (evs @ [Push (Some (JStr d)) f, Frame]) d)"
  proof -
    let ?old = "case foldl family_step Map.empty evs (Some (JStr d)) of None \<Rightarrow> [] | Some fs \<Rightarrow> fs"
    have "last (last_n CAPACITY (?old @ [f])) = f" "last_n CAPACITY (?old @ [f]) \<noteq> []"
      using last_last_n [of CAPACITY "?old @ [f]"] by (simp_all add: CAPACITY_def last_n_def)
    then have "f \<in> set (last_n CAPACITY (?old @ [f]))"
      by (metis last_in_set)
    then show ?thesis
      by (simp add: logged_def)
  qed
  ultimately show ?thesis
    by (simp only: device_frames_logged)
qed

lemma newest_feed_shows:
  assumes "newest_feed held rows" and "f \<in> set held"
  shows "f \<in> set rows \<or> (length rows = 500 \<and> (\<forall>g \<in> set rows. the (frame_ts f) \<le> the (frame_ts g)))"
proof (cases "f \<in> set rows")
  case False
  then have out: "f \<in># mset held - mset rows"
    using assms(2) by (simp add: in_diff_count count_mset_0_iff [THEN iffD2])
  have "mset rows \<subset># mset held"
    using assms False by (auto simp: newest_feed_def subset_mset_def dest: mset_eq_setD)
  then have "length rows < length held"
    using mset_subset_size by fastforce
  with assms(1) out show ?thesis
    by (auto simp: newest_feed_def)
qed simp

text \<open>A frame delivered to a mounted page, and the next animation frame and tick.\<close>

lemma delivered_to_feed:
  assumes feed: "feed_inv c s" and "gen_inv s"
    and "page_step c s (Env (SocketMessage i (Text txt))) s1"
    and "page_step c s1 (Env AnimationFrame) s2" and "page_step c s2 (FrameFired h) s3"
    and "JSON_parse c txt = Some f" and "is_string (field f ''type'') ''telemetry''"
    and "field f ''vehicle_id'' = Some (JStr d)" and "d \<in> set (ids_of s)"
    and "numeric_ts (concat (map (device_frames (store_telemetry (net s2))) (ids_of s2)))"
  shows "f \<in> set (feedRows s3) \<or>
         (length (feedRows s3) = 500 \<and>
          (\<forall>g \<in> set (feedRows s3). the (frame_ts f) \<le> the (frame_ts g)))"
proof -
  have gen: "genRef s \<le> generation (store_telemetry (net s))"
    using assms(2) by (simp add: gen_inv_def)
  obtain evs where evs: "store_telemetry (net s) = foldl telemetry_step telemetry_init evs"
    using reachable_telemetry feed unfolding feed_inv_def by blast
  have "f \<noteq> JNull"
    using assms(8) by (auto simp: field_def)
  then have s1: "devices s1 = devices s" "genRef s1 = genRef s"
    "store_telemetry (net s1) = telemetry_push (Some (JStr d)) f (store_telemetry (net s))"
    using assms(3,6,7,8)
    by (auto simp: ws_step_message handle_message_def push_frame_def get_prop_field elim!: page_stepE)
  have s2: "devices s2 = devices s" "genRef s2 = genRef s"
    "store_telemetry (net s2) = animation_frame (store_telemetry (net s1))"
    using assms(4) s1 by (auto elim!: page_stepE ws_stepE)
  have feed2: "feed_inv c s2"
    using page_step_feed [OF page_step_feed [OF feed assms(3)] assms(4)] .
  have new: "generation (store_telemetry (net s2)) \<noteq> genRef s2"
    and held: "f \<in> set (concat (map (device_frames (store_telemetry (net s2))) (ids_of s2)))"
    using pushed_and_flushed [OF evs, of d f] gen assms(9) by (auto simp: s2 s1)
  obtain evs2 where evs2: "store_telemetry (net s2) = foldl telemetry_step telemetry_init evs2"
    and feed: "newest_feed (concat (map (logged evs2) (ids_of s2))) (feedRows s3)"
    using tick_feed [OF feed2 assms(5,10)] new by auto
  then show ?thesis
    using newest_feed_shows [OF feed] held unfolding evs2 device_frames_logged by blast
qed

text \<open>
  A telemetry frame the gateway delivers for a device of the page is on the screen after the
  next animation frame and tick, unless the feed has 500 rows that are all at least as new.
\<close>

theorem delivered_frame_is_shown:
  assumes "page_start c s0" and "runs (page_step c) s0 es s"
    and "page_step c s (Env (SocketMessage i (Text txt))) s1"
    and "page_step c s1 (Env AnimationFrame) s2" and "page_step c s2 (FrameFired h) s3"
    and "JSON_parse c txt = Some f" and "is_string (field f ''type'') ''telemetry''"
    and "field f ''vehicle_id'' = Some (JStr d)" and "d \<in> set (ids_of s)"
    and "numeric_ts (concat (map (device_frames (store_telemetry (net s2))) (ids_of s2)))"
  shows "f \<in> set (feedRows s3) \<or>
         (length (feedRows s3) = 500 \<and>
          (\<forall>g \<in> set (feedRows s3). the (frame_ts f) \<le> the (frame_ts g)))"
proof -
  have "feed_inv c s"
    using project.inv_runs [OF assms(1,2)] by (simp add: page_inv_def)
  moreover have "gen_inv s"
    using page_runs_gen [OF assms(2)] page_start_inv [OF assms(1)] page_start_gen [OF assms(1)]
    by (simp add: page_inv_def)
  ultimately show ?thesis
    using assms(3-10) by (rule delivered_to_feed)
qed

theorem delivered_frame_is_shown_witness:
  "gps_frame \<in> set (feedRows (tick [''v1''] (cancel_frame 1 gps_page))) \<or>
   length (feedRows (tick [''v1''] (cancel_frame 1 gps_page))) = 500"
proof -
  have "runs (page_step gps_config) (page_mount (Some ''fleet'') world_init)
      [Settle 0 (Inr (Some [sample_vehicle ''v1''])), Env (SocketOpen 0)] (demo_page\<lparr>net := demo_open\<rparr>)"
    unfolding runs_Cons_iff runs_Nil_iff using gps_page_steps(1,2) by blast
  from delivered_frame_is_shown [OF demo_start this gps_page_steps(3,4) gps_page_tick, of gps_frame "''v1''"]
  show ?thesis
    unfolding gps_page_held using gps_frame_numeric
    by (auto simp: gps_config_def gps_frame_def field_def is_string_def demo_page_state)
qed

section \<open>From the text of the gateway to the rows of the dashboard\<close>

lemma gen_inv_cong:
  "genRef p' = genRef p \<Longrightarrow> store_telemetry (net p') = store_telemetry (net p) \<Longrightarrow> gen_inv p' = gen_inv p"
  by (simp add: gen_inv_def)

interpretation gen_dash: page_property c gen_inv "\<lambda>w. True" "\<lambda>f. True" for c
proof
  show "gen_inv (page_mount name w)" for name w
    by (simp add: gen_inv_def page_mount_def loadDevices_def)
  show "gen_inv p \<Longrightarrow> gen_inv (loadDevices n False (p\<lparr>page_name := n\<rparr>))" for p n
    by (subst gen_inv_cong [of _ p]) (simp_all add: loadDevices_def)
  show "gen_inv p \<Longrightarrow> gen_inv (p\<lparr>net := (net p)\<lparr>store_auth := s\<rparr>\<rparr>)" for p s
    by (subst gen_inv_cong [of _ p]) simp_all
  show "gen_inv p'" if "feed_inv c p" "gen_inv p" "page_step c p e p'" for p e p'
    using page_step_gen that by blast
qed simp_all

lemma rerender_project:
  assumes "routed rm d" and "screen d = OnProject p" and "store_auth (net p') = session d"
  shows "\<exists>q. screen (rerender c rm rp (d\<lparr>screen := OnProject p', dash_world := net p'\<rparr>)) = OnProject q \<and>
             feedRows q = feedRows p'"
proof -
  let ?d = "d\<lparr>screen := OnProject p', dash_world := net p'\<rparr>"
  have kept: "place_guard rm ?d = ?d"
    using assms(1) by (cases d; cases "guard d") (auto simp: routed_def guarded_def place_guard_def)
  have "App rm (is_checked ?d) (session ?d) (location ?d) = Rendered ProjectPage"
    using assms by (simp add: routed_def is_checked_def)
  then show ?thesis
    unfolding rerender_def numeral_3_eq_3 using kept by (simp add: Let_def loadDevices_def)
qed

lemma sent_typed:
  assumes "JSON_parse c = json_parse" and "writable num rd (frame_json (TelemetryFrame t))"
  shows "typed_event c (SocketMessage i (Text (json_text num (frame_json (TelemetryFrame t)))))"
proof -
  have "JSON_parse c (json_text num (frame_json (TelemetryFrame t)))
      = Some (frame_json (TelemetryFrame (telemetry_numbers rd t)))"
    using frame_arrives [OF assms(2)] assms(1) by simp
  then show ?thesis
    by (simp add: typed_event_def frame_of_def read_frame_json del: frame_json.simps)
qed

lemma frame_text_reaches_rows:
  assumes "dash_started c rm rp d0" and "runs (dash_step c rm rp) d0 es d"
    and "\<forall>f. Net f \<in> set es \<longrightarrow> typed_event c f"
    and "JSON_parse c = json_parse" and "writable num rd (frame_json (TelemetryFrame t))"
    and "screen d = OnProject p" and "tf_vehicle_id t \<in> set (ids_of p)"
    and "dash_step c rm rp d (Net (SocketMessage i (Text (json_text num (frame_json (TelemetryFrame t)))))) d1"
    and "dash_step c rm rp d1 (Net AnimationFrame) d2"
    and "dash_step c rm rp d2 (ProjectDoes (FrameFired h)) d3"
  shows "\<exists>q. screen d3 = OnProject q \<and>
     (frame_json (TelemetryFrame (telemetry_numbers rd t)) \<in> set (feedRows q) \<or>
      (length (feedRows q) = 500 \<and> (\<forall>g \<in> set (feedRows q). rd (tf_ts t) \<le> the (frame_ts g))))"
proof -
  let ?t = "telemetry_numbers rd t"
  let ?f = "frame_json (TelemetryFrame ?t)" and ?txt = "json_text num (frame_json (TelemetryFrame t))"
  let ?msg = "SocketMessage i (Text ?txt)"
  have parsed: "JSON_parse c ?txt = Some ?f"
    using frame_arrives [OF assms(5)] assms(4) by simp
  have key: "tf_vehicle_id ?t = tf_vehicle_id t" "tf_ts ?t = rd (tf_ts t)"
    by (simp_all add: telemetry_numbers_def)
  note run1 = runs_snocI [OF assms(2,8)] and run2 = runs_snocI [OF runs_snocI [OF assms(2,8)] assms(9)]
  have inv: "dash_inv c rm d" "dash_inv c rm d1" "dash_inv c rm d2"
    using dash.inv_runs [OF assms(1)] assms(2) run1 run2 by blast+
  have feed: "feed_inv c p"
    using inv(1) assms(6) by (simp add: dash_inv_def dash_world_inv_def)
  have gen: "gen_inv p"
    using gen_dash.started_held [OF assms(1,2)] assms(6) by (simp add: held_by_def)
  obtain p1 where p1: "screen d1 = OnProject p1" "page_step c p (Env ?msg) p1" "devices p1 = devices p"
    using dash_net_page [OF _ assms(6,8)] inv(1) by (auto simp: dash_inv_def)
  obtain p2 where p2: "screen d2 = OnProject p2" "page_step c p1 (Env AnimationFrame) p2" "devices p2 = devices p1"
    using dash_net_page [OF _ p1(1) assms(9)] inv(2) by (auto simp: dash_inv_def)
  obtain p3 where p3: "page_step c p2 (FrameFired h) p3"
    and d3: "d3 = rerender c rm rp (d2\<lparr>screen := OnProject p3, dash_world := net p3,
        location := follow (navigated p2) (navigated p3) (location d2)\<rparr>)"
    using assms(10) p2(1) by cases auto
  have "typed_event c ?msg"
    by (rule sent_typed [OF assms(4,5)])
  moreover have "typed_event c AnimationFrame"
    by (simp add: typed_event_def frame_of_def)
  ultimately have "typed_page p2"
    using typed_dash.started_held [OF assms(1) run2] assms(3) p2(1) by (auto simp: held_by_def)
  then have "numeric_ts (concat (map (device_frames (store_telemetry (net p2))) (ids_of p2)))"
    using typed_device_frames typed_row_ts
    by (fastforce simp: numeric_ts_def list_all_iff typed_page_def typed_world_def)
  moreover have "is_string (field ?f ''type'') ''telemetry''" "field ?f ''vehicle_id'' = Some (JStr (tf_vehicle_id t))"
    by (simp_all add: field_def is_string_def key)
  ultimately have shown: "?f \<in> set (feedRows p3) \<or>
      (length (feedRows p3) = 500 \<and> (\<forall>g \<in> set (feedRows p3). the (frame_ts ?f) \<le> the (frame_ts g)))"
    using delivered_to_feed [OF feed gen p1(2) p2(2) p3 parsed _ _ assms(7)] by blast
  have tick: "navigated p3 = navigated p2" "net p3 = net p2"
    using p3 by (auto simp: page_step_frame)
  have "net p2 = dash_world d2"
    using inv(3) p2(1) by (simp add: dash_inv_def dash_world_inv_def)
  then obtain q where q: "screen d3 = OnProject q" "feedRows q = feedRows p3"
    using rerender_project [of rm d2 p2 p3 c rp] inv(3) p2(1) tick by (auto simp: d3 follow_def dash_inv_def)
  moreover have "?f \<in> set (feedRows q) \<or>
      (length (feedRows q) = 500 \<and> (\<forall>g \<in> set (feedRows q). rd (tf_ts t) \<le> the (frame_ts g)))"
    using shown q(2) typed_row_ts [OF read_frame_json [of "TelemetryFrame ?t"]] key(2) by (simp del: frame_json.simps)
  ultimately show ?thesis by blast
qed

text \<open>
  C1: end to end: when a dashboard whose gateway sends frames of its types has mounted a project page, and
  the gateway writes a telemetry frame of one of its devices as JSON text, then after the
  message, the next animation frame and the next tick of the page's loop that frame, with its
  numbers as the parser reads them, is among the rows the page's state holds, unless these are
  500 and all at least as new; and with the data tab selected a call of the page's component
  returns elements with a row whose texts tell this frame, a row that every tree the dashboard
  then renders has; but with the stores' hook as documented for the version the program names,
  the selection of the project page makes the tree raise instead.
\<close>

theorem frame_text_reaches_table:
  assumes "dash_started c rm rp d0" and "runs (dash_step c rm rp) d0 es d"
    and "\<forall>f. Net f \<in> set es \<longrightarrow> typed_event c f"
    and "JSON_parse c = json_parse" and "writable num rd (frame_json (TelemetryFrame t))"
    and "screen d = OnProject p" and "tf_vehicle_id t \<in> set (ids_of p)"
    and "dash_step c rm rp d (Net (SocketMessage i (Text (json_text num (frame_json (TelemetryFrame t)))))) d1"
    and "dash_step c rm rp d1 (Net AnimationFrame) d2"
    and "dash_step c rm rp d2 (ProjectDoes (FrameFired h)) d3"
  shows "\<exists>q. screen d3 = OnProject q \<and>
     (frame_json (TelemetryFrame (telemetry_numbers rd t)) \<in> set (feedRows q) \<or>
      (length (feedRows q) = 500 \<and> (\<forall>g \<in> set (feedRows q). rd (tf_ts t) \<le> the (frame_ts g)))) \<and>
     (frame_json (TelemetryFrame (telemetry_numbers rd t)) \<in> set (feedRows q) \<and> page_ready q \<and> shown_tab q = DataTab \<longrightarrow>
      (\<exists>u cells. project_elements eng (isAdmin (session d3)) (project_alerts q) q = Inr u \<and>
         table_row cells \<in> set (descendants u) \<and>
         tells eng (deviceNameMap (devices q)) (frame_json (TelemetryFrame (telemetry_numbers rd t))) cells \<and>
         (\<forall>hook active copied_buttons st title v.
            dash_view hook eng active copied_buttons st d3 = Inr (title, v) \<longrightarrow> table_row cells \<in> set (descendants v)))) \<and>
     (\<forall>hook active copied_buttons st. documented_hook hook \<longrightarrow>
        (\<exists>e. dash_view hook eng active copied_buttons st d3 = Inl e))"
proof -
  obtain q where q: "screen d3 = OnProject q"
    and rows: "frame_json (TelemetryFrame (telemetry_numbers rd t)) \<in> set (feedRows q) \<or>
      (length (feedRows q) = 500 \<and> (\<forall>g \<in> set (feedRows q). rd (tf_ts t) \<le> the (frame_ts g)))"
    using frame_text_reaches_rows [OF assms] by blast
  let ?msg = "SocketMessage i (Text (json_text num (frame_json (TelemetryFrame t))))"
  let ?es = "es @ [Net ?msg, Net AnimationFrame, ProjectDoes (FrameFired h)]"
  have "runs (dash_step c rm rp) d0 ?es d3"
    using assms(2,8-10) unfolding runs_append runs_Cons_iff runs_Nil_iff by blast
  moreover have "\<forall>f. Net f \<in> set ?es \<longrightarrow> typed_event c f"
    using assms(3) sent_typed [OF assms(4,5)] by (auto simp: typed_event_def frame_of_def)
  ultimately have "typed_page q"
    using typed_dash.started_held [OF assms(1)] q by (auto simp: held_by_def)
  then obtain u where u: "project_elements eng (isAdmin (session d3)) (project_alerts q) q = Inr u"
    using typed_page_renders by blast
  let ?f = "frame_json (TelemetryFrame (telemetry_numbers rd t))"
  show ?thesis
  proof (intro exI [of _ q] conjI impI)
    assume "?f \<in> set (feedRows q) \<and> page_ready q \<and> shown_tab q = DataTab"
    then obtain cells where "table_row cells \<in> set (descendants u)" "tells eng (deviceNameMap (devices q)) ?f cells"
      using row_of_frame [OF u] by blast
    then show "\<exists>u cells. project_elements eng (isAdmin (session d3)) (project_alerts q) q = Inr u \<and>
        table_row cells \<in> set (descendants u) \<and> tells eng (deviceNameMap (devices q)) ?f cells \<and>
        (\<forall>hook active copied_buttons st title v.
           dash_view hook eng active copied_buttons st d3 = Inr (title, v) \<longrightarrow> table_row cells \<in> set (descendants v))"
      using u row_on_screen [OF _ q u] by blast
  qed (use q rows project_page_breaks [OF _ q] in blast)+
qed

theorem frame_text_reaches_table_witness:
  "\<exists>d q. runs (dash_step live_config demo_match demo_param)
       (dash_start live_config demo_match demo_param ''/projects/fleet'')
       (live_run @ [Net (SocketMessage 0 (Text live_text)), Net AnimationFrame, ProjectDoes (FrameFired 1)]) d \<and>
     screen d = OnProject q \<and>
     (frame_json (TelemetryFrame (telemetry_numbers round_double ns_frame)) \<in> set (feedRows q) \<or> length (feedRows q) = 500)"
proof -
  let ?w = "live_received\<lparr>store_telemetry := animation_frame (store_telemetry live_received)\<rparr>"
  let ?p = "live_page\<lparr>net := ?w\<rparr>"
  let ?p' = "tick [''v1''] (cancel_frame 1 ?p)"
  let ?step = "dash_step live_config demo_match demo_param"
  have frame: "?step (live_dash (live_page\<lparr>net := live_received\<rparr>)) (Net AnimationFrame) (live_dash ?p)"
    using live_net [OF _ _ _, of live_config "live_page\<lparr>net := live_received\<rparr>" AnimationFrame ?w] step_frame [of live_config live_received]
    by simp
  have "page_step live_config ?p (FrameFired 1) ?p'"
    by (rule page_frame) (simp add: live_page_state)
  moreover have "navigated ?p' = navigated ?p"
    by simp
  ultimately have tick: "?step (live_dash ?p) (ProjectDoes (FrameFired 1)) (live_dash ?p')"
    by (intro live_project) (simp_all add: live_page_state live_received_auth)
  have run: "runs ?step (dash_start live_config demo_match demo_param ''/projects/fleet'')
      (live_run @ [Net (SocketMessage 0 (Text live_text)), Net AnimationFrame, ProjectDoes (FrameFired 1)]) (live_dash ?p')"
    unfolding runs_append runs_Cons_iff runs_Nil_iff using live_run_ok live_message frame tick by blast
  have typed: "\<forall>f. Net f \<in> set live_run \<longrightarrow> typed_event live_config f"
    using live_events_typed by simp
  have "JSON_parse live_config = json_parse" "tf_vehicle_id ns_frame \<in> set (ids_of (live_page\<lparr>net := live_open\<rparr>))"
    "screen (live_dash (live_page\<lparr>net := live_open\<rparr>)) = OnProject (live_page\<lparr>net := live_open\<rparr>)"
    by (simp_all add: live_config_def with_json_def ns_frame_def live_page_state live_dash_def)
  from frame_text_reaches_table [OF live_started live_run_ok typed this(1) ns_frame_writable this(3,2)
      live_message [unfolded live_text_def] frame tick]
  show ?thesis
    using run by (intro exI [of _ "live_dash ?p'"] exI [of _ ?p']) (auto simp: live_dash_def)
qed

end
